(* ===== verification/Fpd_Prelude.thy ===== *)
theory Fpd_Prelude
  imports "HOL-Library.Word" "HOL-Library.Sublist" "HOL-Library.Multiset"
    "HOL-Library.Code_Target_Nat"
begin

text \<open>
  The prelude of the development: the machine types, Rust's \<open>Result\<close> with its
  \<open>?\<close> operator, checked \<open>usize\<close> arithmetic, checked slicing, big-endian words, and
  the collections of simplification rules that the component theories feed and use.

  A \<open>Vec<T>\<close> or slice is a HOL list, a \<open>u8\<close> an 8-bit word, and a \<open>usize\<close> a natural
  number, with the 64-bit limit written out where the code checks for overflow.
\<close>

unbundle bit_operations_syntax

type_synonym u8 = "8 word"
type_synonym u16 = "16 word"
type_synonym u32 = "32 word"
type_synonym u64 = "64 word"
type_synonym bytes = "8 word list"

text \<open>
  \<open>res_simps\<close> collects the rules that take a successful run of a fallible function apart,
  \<open>byte_simps\<close> the rules that read words as numbers, \<open>utf8_simps\<close> the rules on text.
\<close>

named_theorems res_simps
named_theorems byte_simps
named_theorems utf8_simps

section \<open>Results and the question mark operator\<close>

text \<open>\<open>m?\<close> followed by the rest of the function: an error returns early.\<close>

definition try_res :: "'e + 'a \<Rightarrow> ('a \<Rightarrow> 'e + 'b) \<Rightarrow> 'e + 'b" where
  "try_res m f = (case m of Inl e \<Rightarrow> Inl e | Inr x \<Rightarrow> f x)"

definition ok_or :: "'e \<Rightarrow> 'a option \<Rightarrow> 'e + 'a" where
  "ok_or e m = (case m of None \<Rightarrow> Inl e | Some x \<Rightarrow> Inr x)"

definition map_err :: "('e \<Rightarrow> 'f) \<Rightarrow> 'e + 'a \<Rightarrow> 'f + 'a" where
  "map_err g m = (case m of Inl e \<Rightarrow> Inl (g e) | Inr x \<Rightarrow> Inr x)"

definition res_ok :: "'e + 'a \<Rightarrow> 'a option" where
  "res_ok m = (case m of Inl e \<Rightarrow> None | Inr x \<Rightarrow> Some x)"

lemma try_res_simps [simp]:
  "try_res (Inl e) f = Inl e"
  "try_res (Inr x) f = f x"
  by (simp_all add: try_res_def)

lemma try_res_Inr [res_simps]:
  "try_res m f = Inr y \<longleftrightarrow> (\<exists>x. m = Inr x \<and> f x = Inr y)"
  by (cases m) simp_all

lemma try_res_Inl:
  "try_res m f = Inl e \<longleftrightarrow> m = Inl e \<or> (\<exists>x. m = Inr x \<and> f x = Inl e)"
  by (cases m) simp_all

lemma try_res_cong [fundef_cong]:
  "m = m' \<Longrightarrow> (\<And>x. m' = Inr x \<Longrightarrow> f x = f' x) \<Longrightarrow> try_res m f = try_res m' f'"
  by (cases m') simp_all

lemma guard_Inr [res_simps]: "(if b then Inl e else m) = Inr y \<longleftrightarrow> \<not> b \<and> m = Inr y"
  by simp

lemma ok_or_simps [simp]:
  "ok_or e None = Inl e"
  "ok_or e (Some x) = Inr x"
  by (simp_all add: ok_or_def)

lemma ok_or_Inr [res_simps]: "ok_or e m = Inr x \<longleftrightarrow> m = Some x"
  by (cases m) simp_all

lemma ok_or_Inl: "ok_or e m = Inl e' \<longleftrightarrow> m = None \<and> e' = e"
  by (cases m) auto

lemma map_err_simps [simp]:
  "map_err g (Inl e) = Inl (g e)"
  "map_err g (Inr x) = Inr x"
  by (simp_all add: map_err_def)

lemma map_err_Inr [res_simps]: "map_err g m = Inr x \<longleftrightarrow> m = Inr x"
  by (cases m) simp_all

lemma map_err_Inl: "map_err g m = Inl e' \<longleftrightarrow> (\<exists>e. m = Inl e \<and> e' = g e)"
  by (cases m) auto

lemma res_ok_simps [simp]:
  "res_ok (Inl e) = None"
  "res_ok (Inr x) = Some x"
  by (simp_all add: res_ok_def)

lemma res_ok_Some [res_simps]: "res_ok m = Some x \<longleftrightarrow> m = Inr x"
  by (cases m) simp_all

lemma res_ok_None: "res_ok m = None \<longleftrightarrow> (\<exists>e. m = Inl e)"
  by (cases m) simp_all

text \<open>A \<open>for\<close> loop whose body may return early with an error.\<close>

fun try_fold :: "('s \<Rightarrow> 'a \<Rightarrow> 'e + 's) \<Rightarrow> 's \<Rightarrow> 'a list \<Rightarrow> 'e + 's" where
  "try_fold f s [] = Inr s"
| "try_fold f s (x # xs) = try_res (f s x) (\<lambda>s. try_fold f s xs)"

lemma try_fold_append:
  "try_fold f s (xs @ ys) = try_res (try_fold f s xs) (\<lambda>s. try_fold f s ys)"
  by (induction xs arbitrary: s) (simp_all add: try_res_def split: sum.split)

lemma try_fold_map: "try_fold f s (map g xs) = try_fold (\<lambda>s x. f s (g x)) s xs"
  by (induction xs arbitrary: s) simp_all

lemma try_fold_concat:
  "try_fold f s (concat xss) = try_fold (\<lambda>s xs. try_fold f s xs) s xss"
  by (induction xss arbitrary: s) (simp_all add: try_fold_append)

section \<open>Checked arithmetic and slicing\<close>

definition usize_max :: nat where
  "usize_max = 18446744073709551615"

text \<open>\<open>usize::checked_add\<close> on a 64-bit target.\<close>

definition checked_add_usize :: "nat \<Rightarrow> nat \<Rightarrow> nat option" where
  "checked_add_usize a b = (if a + b \<le> usize_max then Some (a + b) else None)"

lemma checked_add_usize_Some [res_simps]:
  "checked_add_usize a b = Some c \<longleftrightarrow> c = a + b \<and> a + b \<le> usize_max"
  by (auto simp: checked_add_usize_def)

text \<open>\<open>slice.get(a..b)\<close>, \<open>slice.get(a..)\<close> and \<open>slice.get(i)\<close>.\<close>

definition get_range :: "'a list \<Rightarrow> nat \<Rightarrow> nat \<Rightarrow> 'a list option" where
  "get_range xs a b = (if a \<le> b \<and> b \<le> length xs then Some (take (b - a) (drop a xs)) else None)"

definition get_from :: "'a list \<Rightarrow> nat \<Rightarrow> 'a list option" where
  "get_from xs a = (if a \<le> length xs then Some (drop a xs) else None)"

definition get_at :: "'a list \<Rightarrow> nat \<Rightarrow> 'a option" where
  "get_at xs i = (if i < length xs then Some (xs ! i) else None)"

lemma get_range_Some [res_simps]:
  "get_range xs a b = Some ys \<longleftrightarrow> a \<le> b \<and> b \<le> length xs \<and> ys = take (b - a) (drop a xs)"
  by (auto simp: get_range_def)

lemma get_from_Some [res_simps]:
  "get_from xs a = Some ys \<longleftrightarrow> a \<le> length xs \<and> ys = drop a xs"
  by (auto simp: get_from_def)

lemma get_at_Some [res_simps]:
  "get_at xs i = Some x \<longleftrightarrow> i < length xs \<and> x = xs ! i"
  by (auto simp: get_at_def)

lemma get_at_Cons [simp]:
  "get_at [] i = None"
  "get_at (x # xs) 0 = Some x"
  "get_at (x # xs) (Suc i) = get_at xs i"
  by (simp_all add: get_at_def)

lemma get_from_0 [simp]: "get_from xs 0 = Some xs"
  by (simp add: get_from_def)

lemma get_from_append [simp]: "get_from (xs @ ys) (length xs) = Some ys"
  by (simp add: get_from_def)

lemma get_range_append: "get_range (xs @ ys @ zs) (length xs) (length xs + length ys) = Some ys"
  by (simp add: get_range_def)

text \<open>\<open>Iterator::max\<close> on integers.\<close>

definition iter_max :: "'a::linorder list \<Rightarrow> 'a option" where
  "iter_max xs = (case xs of [] \<Rightarrow> None | y # ys \<Rightarrow> Some (fold max ys y))"

lemma iter_max_Some: "iter_max xs = Some v \<longleftrightarrow> xs \<noteq> [] \<and> v = Max (set xs)"
  by (cases xs) (auto simp: iter_max_def Max.set_eq_fold simp del: set_simps)

lemma iter_max_Nil [simp]: "iter_max [] = None"
  by (simp add: iter_max_def)

lemma iter_max_None: "iter_max xs = None \<longleftrightarrow> xs = []"
  by (cases xs) (auto simp: iter_max_def)

text \<open>\<open>chunks_exact(n)\<close>: whole chunks only, the remainder is dropped.\<close>

fun chunks_exact :: "nat \<Rightarrow> 'a list \<Rightarrow> 'a list list" where
  "chunks_exact n xs =
     (if n = 0 \<or> length xs < n then [] else take n xs # chunks_exact n (drop n xs))"

declare chunks_exact.simps [simp del]

lemma chunks_exact_short [simp]: "length xs < n \<Longrightarrow> chunks_exact n xs = []"
  by (simp add: chunks_exact.simps [of n xs])

lemma chunks_exact_append:
  assumes "length ys = n" and "0 < n"
  shows "chunks_exact n (ys @ xs) = ys # chunks_exact n xs"
  using assms by (simp add: chunks_exact.simps [of n "ys @ xs"])

lemma length_chunks_exact: "0 < n \<Longrightarrow> length (chunks_exact n xs) = length xs div n"
proof (induction n xs rule: chunks_exact.induct)
  case (1 n xs)
  show ?case
  proof (cases "length xs < n")
    case True
    with "1.prems" show ?thesis by (simp add: chunks_exact.simps [of n xs])
  next
    case False
    with "1.prems" "1.IH" have "length (chunks_exact n (drop n xs)) = (length xs - n) div n"
      by simp
    with False "1.prems" show ?thesis
      by (simp add: chunks_exact.simps [of n xs] le_div_geq)
  qed
qed

lemma chunks_exact_length: "c \<in> set (chunks_exact n xs) \<Longrightarrow> length c = n"
proof (induction n xs rule: chunks_exact.induct)
  case (1 n xs)
  then show ?case
    by (cases "n = 0 \<or> length xs < n") (auto simp: chunks_exact.simps [of n xs])
qed

section \<open>Big-endian words\<close>

text \<open>\<open>u16::from_be_bytes\<close>, \<open>u32::from_be_bytes\<close> and their inverses \<open>to_be_bytes\<close>.\<close>

definition be16 :: "u8 \<Rightarrow> u8 \<Rightarrow> u16" where
  "be16 a b = word_of_int (uint a * 256 + uint b)"

definition be32 :: "u8 \<Rightarrow> u8 \<Rightarrow> u8 \<Rightarrow> u8 \<Rightarrow> u32" where
  "be32 a b c d = word_of_int (((uint a * 256 + uint b) * 256 + uint c) * 256 + uint d)"

definition to_be16 :: "u16 \<Rightarrow> bytes" where
  "to_be16 v = [word_of_int (uint v div 256), word_of_int (uint v)]"

definition to_be32 :: "u32 \<Rightarrow> bytes" where
  "to_be32 v = [word_of_int (uint v div 16777216), word_of_int (uint v div 65536),
                word_of_int (uint v div 256), word_of_int (uint v)]"

lemma uint_u8_bounds: "0 \<le> uint (a :: u8)" "uint (a :: u8) < 256"
  using uint_lt2p [of a] by simp_all

lemma unat_u8_bound: "unat (a :: u8) < 256"
  using unsigned_less [of a] by simp

lemma unat_u16_bound: "unat (a :: u16) < 65536"
  using unsigned_less [of a] by simp

lemma uint_of_int_16: "0 \<le> k \<Longrightarrow> k < 65536 \<Longrightarrow> uint (word_of_int k :: u16) = k"
  by (simp only: uint_word_of_int) simp

lemma uint_of_int_32: "0 \<le> k \<Longrightarrow> k < 4294967296 \<Longrightarrow> uint (word_of_int k :: u32) = k"
  by (simp only: uint_word_of_int) simp

lemma uint_of_int_8: "uint (word_of_int k :: u8) = k mod 256"
  by (simp only: uint_word_of_int) simp

lemma uint_be16 [byte_simps]: "uint (be16 a b) = uint a * 256 + uint b"
  unfolding be16_def
  by (rule uint_of_int_16) (use uint_u8_bounds [of a] uint_u8_bounds [of b] in linarith)+

lemma byte_step:
  assumes "0 \<le> k" and "k < n"
  shows "0 \<le> k * 256 + uint (b :: u8)" and "k * 256 + uint b < n * 256"
  using assms uint_u8_bounds [of b] by linarith+

lemma uint_be32 [byte_simps]:
  "uint (be32 a b c d) = ((uint a * 256 + uint b) * 256 + uint c) * 256 + uint d"
proof -
  note s1 = byte_step [OF uint_u8_bounds, of a b]
  note s2 = byte_step [OF s1, of c]
  note s3 = byte_step [OF s2, of d]
  show ?thesis
    unfolding be32_def by (rule uint_of_int_32) (use s3 in simp_all)
qed

lemma unat_be16 [byte_simps]: "unat (be16 a b) = unat a * 256 + unat b"
proof -
  have "int (unat (be16 a b)) = int (unat a * 256 + unat b)"
    by (simp add: uint_be16 flip: uint_nat)
  then show ?thesis by (simp only: of_nat_eq_iff)
qed

lemma be16_to_be16 [simp]:
  "be16 (word_of_int (uint v div 256)) (word_of_int (uint v)) = v"
proof -
  define n where "n = uint v"
  have b: "0 \<le> n" "n < 65536"
    using uint_lt2p [of v] by (simp_all add: n_def)
  then have "n div 256 mod 256 = n div 256" by simp
  then have "n div 256 mod 256 * 256 + n mod 256 = n" by simp
  then have "uint (be16 (word_of_int (n div 256)) (word_of_int n)) = n"
    unfolding uint_be16 uint_of_int_8 .
  then show ?thesis
    unfolding n_def by (rule word_uint_eqI)
qed

lemma be32_to_be32 [simp]:
  "be32 (word_of_int (uint v div 16777216)) (word_of_int (uint v div 65536))
        (word_of_int (uint v div 256)) (word_of_int (uint v)) = v"
proof -
  define n where "n = uint v"
  have b: "0 \<le> n" "n < 4294967296"
    using uint_lt2p [of v] by (simp_all add: n_def)
  have d: "n div 65536 = n div 256 div 256" "n div 16777216 = n div 256 div 256 div 256"
    by (simp_all add: zdiv_zmult2_eq [symmetric])
  have "n div 16777216 mod 256 = n div 16777216"
    using b by simp
  then have "((n div 16777216 mod 256 * 256 + n div 65536 mod 256) * 256 + n div 256 mod 256) * 256
      + n mod 256 = n"
    unfolding d by simp
  then have "uint (be32 (word_of_int (n div 16777216)) (word_of_int (n div 65536))
        (word_of_int (n div 256)) (word_of_int n)) = n"
    unfolding uint_be32 uint_of_int_8 .
  then show ?thesis
    unfolding n_def by (rule word_uint_eqI)
qed

lemma to_be16_be16 [simp]: "to_be16 (be16 a b) = [a, b]"
proof -
  have "uint (be16 a b) div 256 = uint a" "uint (be16 a b) mod 256 = uint b"
    using uint_u8_bounds [of b] by (simp_all add: uint_be16)
  then have "uint (word_of_int (uint (be16 a b) div 256) :: u8) = uint a"
    and "uint (word_of_int (uint (be16 a b)) :: u8) = uint b"
    using uint_u8_bounds [of a] unfolding uint_of_int_8 by simp_all
  then show ?thesis
    unfolding to_be16_def by (simp add: word_uint_eq_iff)
qed

text \<open>The same rules in the form the simplifier leaves them in.\<close>

lemma word_of_int_uint_byte: "(word_of_int (uint (v :: 'a::len word)) :: u8) = ucast v"
  by simp

lemmas be16_to_be16_ucast [simp] = be16_to_be16 [unfolded word_of_int_uint_byte]
lemmas be32_to_be32_ucast [simp] = be32_to_be32 [unfolded word_of_int_uint_byte]

lemma to_be32_be32: "to_be32 (be32 a b c d) = [a, b, c, d]"
proof -
  have m: "(k * 256 + uint (y :: u8)) div 256 = k" "(k * 256 + uint y) mod 256 = uint y" for k y
    using uint_u8_bounds [of y] by simp_all
  have t: "uint (y :: u8) mod 256 = uint y" for y
    using uint_u8_bounds [of y] by simp
  define n where "n = uint (be32 a b c d)"
  have d: "n div 65536 = n div 256 div 256" "n div 16777216 = n div 256 div 256 div 256"
    by (simp_all add: zdiv_zmult2_eq [symmetric])
  have s: "n div 16777216 mod 256 = uint a" "n div 65536 mod 256 = uint b"
    "n div 256 mod 256 = uint c" "n mod 256 = uint d"
    unfolding d unfolding n_def uint_be32 by (simp_all only: m t)
  then have "uint (word_of_int (n div 16777216) :: u8) = uint a"
    "uint (word_of_int (n div 65536) :: u8) = uint b"
    "uint (word_of_int (n div 256) :: u8) = uint c" "uint (word_of_int n :: u8) = uint d"
    unfolding uint_of_int_8 by simp_all
  then show ?thesis
    unfolding to_be32_def n_def [symmetric] by (simp only: word_uint_eq_iff list.inject simp_thms)
qed

lemma unat_less_uint: "unat (x :: 'a::len word) < numeral k \<longleftrightarrow> uint x < numeral k"
proof -
  have "int (unat x) < int (numeral k) \<longleftrightarrow> unat x < numeral k"
    by (rule of_nat_less_iff)
  then show ?thesis by simp
qed

lemma length_to_be [simp]:
  "length (to_be16 v) = 2"
  "length (to_be32 w) = 4"
  by (simp_all add: to_be16_def to_be32_def)

end
