(* ===== verification/Reader.thy ===== *)
theory Reader
  imports Fpd_Prelude
begin

text \<open>
  The bounds-checked cursor of \<open>fingerprint-core/src/reader.rs\<close>: the parse errors, the
  \<open>Reader\<close> record and its operations \<open>take\<close>, \<open>u8\<close>, \<open>u16\<close>, \<open>u24\<close>. Every parser of the
  program reads through it. The locale \<open>cursor_op\<close> states what a parser may rely on: an
  operation of width \<open>w\<close> either returns the decoding of the next \<open>w\<close> unread bytes and
  advances by exactly \<open>w\<close>, or reports \<open>Truncated\<close>. All four operations interpret it.
\<close>

datatype parse_error = Truncated | NotHandshake | NotClientHello | Malformed string

record reader =
  rd_buf :: bytes
  rd_pos :: nat

definition reader_new :: "bytes \<Rightarrow> reader" where
  "reader_new buf = \<lparr>rd_buf = buf, rd_pos = 0\<rparr>"

definition remaining :: "reader \<Rightarrow> nat" where
  "remaining r = length (rd_buf r) - rd_pos r"

definition take_bytes :: "nat \<Rightarrow> reader \<Rightarrow> parse_error + bytes \<times> reader" where
  "take_bytes n r =
     try_res (ok_or Truncated (checked_add_usize (rd_pos r) n)) (\<lambda>e.
     try_res (ok_or Truncated (get_range (rd_buf r) (rd_pos r) e)) (\<lambda>slice.
     Inr (slice, r\<lparr>rd_pos := e\<rparr>)))"

definition read_u8 :: "reader \<Rightarrow> parse_error + u8 \<times> reader" where
  "read_u8 r =
     try_res (take_bytes 1 r) (\<lambda>(b, r).
     try_res (ok_or Truncated (get_at b 0)) (\<lambda>x.
     Inr (x, r)))"

definition read_u16 :: "reader \<Rightarrow> parse_error + u16 \<times> reader" where
  "read_u16 r =
     try_res (take_bytes 2 r) (\<lambda>(b, r).
     try_res (ok_or Truncated (get_at b 0)) (\<lambda>b0.
     try_res (ok_or Truncated (get_at b 1)) (\<lambda>b1.
     Inr (be16 b0 b1, r))))"

definition read_u24 :: "reader \<Rightarrow> parse_error + u32 \<times> reader" where
  "read_u24 r =
     try_res (take_bytes 3 r) (\<lambda>(b, r).
     try_res (ok_or Truncated (get_at b 0)) (\<lambda>b0.
     try_res (ok_or Truncated (get_at b 1)) (\<lambda>b1.
     try_res (ok_or Truncated (get_at b 2)) (\<lambda>b2.
     Inr (be32 0 b0 b1 b2, r)))))"

section \<open>The view of a cursor\<close>

text \<open>
  \<open>unread\<close> is what is left of the buffer. A cursor is well formed when it stands inside a
  buffer that can exist in memory; \<open>reader_new\<close> on such a buffer starts well formed.
\<close>

definition unread :: "reader \<Rightarrow> bytes" where
  "unread r = drop (rd_pos r) (rd_buf r)"

definition advance :: "nat \<Rightarrow> reader \<Rightarrow> reader" where
  "advance n r = r\<lparr>rd_pos := rd_pos r + n\<rparr>"

definition reader_wf :: "reader \<Rightarrow> bool" where
  "reader_wf r \<longleftrightarrow> rd_pos r \<le> length (rd_buf r) \<and> length (rd_buf r) \<le> usize_max"

lemma length_unread [simp]: "length (unread r) = remaining r"
  by (simp add: unread_def remaining_def)

lemma unread_new [simp]: "unread (reader_new buf) = buf" "rd_pos (reader_new buf) = 0"
  "rd_buf (reader_new buf) = buf" "remaining (reader_new buf) = length buf"
  by (simp_all add: unread_def reader_new_def remaining_def)

lemma reader_wf_new [intro]: "length buf \<le> usize_max \<Longrightarrow> reader_wf (reader_new buf)"
  by (simp add: reader_wf_def reader_new_def)

lemma advance_simps [simp]:
  "rd_pos (advance n r) = rd_pos r + n"
  "rd_buf (advance n r) = rd_buf r"
  "unread (advance n r) = drop n (unread r)"
  "remaining (advance n r) = remaining r - n"
  by (simp_all add: advance_def unread_def remaining_def add.commute)

lemma reader_wf_advance: "reader_wf r \<Longrightarrow> n \<le> remaining r \<Longrightarrow> reader_wf (advance n r)"
  unfolding reader_wf_def remaining_def advance_simps by linarith

section \<open>The contract of a read\<close>

locale cursor_op =
  fixes run :: "reader \<Rightarrow> parse_error + 'a \<times> reader"
    and width :: nat
    and decode :: "bytes \<Rightarrow> 'a"
  assumes run_sound:
      "run r = Inr (x, r') \<Longrightarrow>
         width \<le> remaining r \<and> x = decode (take width (unread r)) \<and> r' = advance width r"
    and run_complete:
      "reader_wf r \<Longrightarrow> width \<le> remaining r \<Longrightarrow>
         run r = Inr (decode (take width (unread r)), advance width r)"
    and run_error: "run r = Inl e \<Longrightarrow> e = Truncated"
begin

lemma run_short:
  assumes "remaining r < width"
  shows "run r = Inl Truncated"
proof (cases "run r")
  case (Inl e)
  with run_error show ?thesis by simp
next
  case (Inr y)
  with run_sound assms show ?thesis by (cases y) fastforce
qed

lemma run_iff:
  assumes "reader_wf r"
  shows "run r = (if width \<le> remaining r
                  then Inr (decode (take width (unread r)), advance width r) else Inl Truncated)"
  using assms run_complete run_short by simp

lemma run_append:
  assumes "reader_wf r" and "unread r = xs @ ys" and "length xs = width"
  shows "run r = Inr (decode xs, advance width r)" and "unread (advance width r) = ys"
    and "reader_wf (advance width r)"
proof -
  have "width \<le> remaining r"
    using assms(2,3) length_unread [of r] by simp
  with assms show "run r = Inr (decode xs, advance width r)" "reader_wf (advance width r)"
    by (simp_all add: run_complete reader_wf_advance)
  show "unread (advance width r) = ys"
    using assms by simp
qed

lemma run_wf: "run r = Inr (x, r') \<Longrightarrow> reader_wf r \<Longrightarrow> reader_wf r'"
  using run_sound [of r x r'] reader_wf_advance by blast

lemma run_same_buf: "run r = Inr (x, r') \<Longrightarrow> rd_buf r' = rd_buf r"
  using run_sound [of r x r'] by auto

lemma run_progress: "run r = Inr (x, r') \<Longrightarrow> 0 < width \<Longrightarrow> remaining r' < remaining r"
  using run_sound [of r x r'] by auto

end

lemma take_bytes_Inr:
  "take_bytes n r = Inr (b, r') \<longleftrightarrow>
     rd_pos r + n \<le> usize_max \<and> rd_pos r + n \<le> length (rd_buf r) \<and>
     b = take n (unread r) \<and> r' = advance n r"
  by (auto simp: take_bytes_def res_simps unread_def advance_def)

lemma take_bytes_Inl: "take_bytes n r = Inl e \<Longrightarrow> e = Truncated"
  by (auto simp: take_bytes_def try_res_Inl ok_or_Inl)

interpretation take_op: cursor_op "take_bytes n" n "\<lambda>b. b" for n
proof unfold_locales
  fix r x r'
  assume "take_bytes n r = Inr (x, r')"
  then show "n \<le> remaining r \<and> x = take n (unread r) \<and> r' = advance n r"
    by (auto simp: take_bytes_Inr remaining_def)
next
  fix r
  assume "reader_wf r" and "n \<le> remaining r"
  then show "take_bytes n r = Inr (take n (unread r), advance n r)"
    by (auto simp: take_bytes_Inr reader_wf_def remaining_def)
qed (rule take_bytes_Inl)

text \<open>
  The fixed-width reads are a \<open>take\<close> followed by a total decoding of its bytes, so they
  inherit its contract.
\<close>

lemma cursor_op_take:
  assumes "\<And>r. run r = try_res (take_bytes n r) (\<lambda>(b, r). try_res (dec b) (\<lambda>x. Inr (x, r)))"
    and "\<And>b. length b = n \<Longrightarrow> dec b = Inr (decode b)"
  shows "cursor_op run n decode"
proof
  fix r x r'
  assume "run r = Inr (x, r')"
  then obtain b where b: "take_bytes n r = Inr (b, r')" "dec b = Inr x"
    by (auto simp: assms(1) res_simps)
  from b(1) have t: "n \<le> remaining r \<and> b = take n (unread r) \<and> r' = advance n r"
    by (rule take_op.run_sound)
  then have "length b = n" by simp
  with assms(2) b(2) have "x = decode b" by simp
  with t show "n \<le> remaining r \<and> x = decode (take n (unread r)) \<and> r' = advance n r"
    by simp
next
  fix r
  assume "reader_wf r" and "n \<le> remaining r"
  then show "run r = Inr (decode (take n (unread r)), advance n r)"
    by (simp add: assms take_op.run_complete)
next
  fix r e
  assume "run r = Inl e"
  then consider "take_bytes n r = Inl e" | b r' where "take_bytes n r = Inr (b, r')" "dec b = Inl e"
    by (auto simp: assms(1) try_res_Inl)
  then show "e = Truncated"
  proof cases
    case 1
    then show ?thesis by (rule take_bytes_Inl)
  next
    case 2
    from take_op.run_sound [OF 2(1)] have "length b = n" by simp
    with assms(2) 2(2) show ?thesis by simp
  qed
qed

interpretation u8_op: cursor_op read_u8 1 "\<lambda>b. b ! 0"
  by (rule cursor_op_take [where dec = "\<lambda>b. ok_or Truncated (get_at b 0)"])
    (simp_all add: read_u8_def get_at_def)

interpretation u16_op: cursor_op read_u16 2 "\<lambda>b. be16 (b ! 0) (b ! 1)"
  by (rule cursor_op_take [where dec = "\<lambda>b. try_res (ok_or Truncated (get_at b 0)) (\<lambda>b0.
        try_res (ok_or Truncated (get_at b 1)) (\<lambda>b1. Inr (be16 b0 b1)))"])
    (auto simp: read_u16_def get_at_def split_def try_res_def ok_or_def split: option.splits sum.splits)

interpretation u24_op: cursor_op read_u24 3 "\<lambda>b. be32 0 (b ! 0) (b ! 1) (b ! 2)"
  by (rule cursor_op_take [where dec = "\<lambda>b. try_res (ok_or Truncated (get_at b 0)) (\<lambda>b0.
        try_res (ok_or Truncated (get_at b 1)) (\<lambda>b1.
        try_res (ok_or Truncated (get_at b 2)) (\<lambda>b2. Inr (be32 0 b0 b1 b2))))"])
    (auto simp: read_u24_def get_at_def split_def try_res_def ok_or_def split: option.splits sum.splits)

lemmas read_sound = take_op.run_sound u8_op.run_sound u16_op.run_sound u24_op.run_sound
lemmas read_error = take_op.run_error u8_op.run_error u16_op.run_error u24_op.run_error
lemmas read_wf = take_op.run_wf u8_op.run_wf u16_op.run_wf u24_op.run_wf

text \<open>Each read on a cursor whose unread bytes start with what it reads.\<close>

lemma read_u8_Cons:
  assumes "reader_wf r" and "unread r = a # ys"
  shows "read_u8 r = Inr (a, advance 1 r)" "unread (advance 1 r) = ys" "reader_wf (advance 1 r)"
  using u8_op.run_append [OF assms(1), of "[a]" ys] assms(2) by simp_all

lemma read_u16_Cons:
  assumes "reader_wf r" and "unread r = a # b # ys"
  shows "read_u16 r = Inr (be16 a b, advance 2 r)" "unread (advance 2 r) = ys"
    "reader_wf (advance 2 r)"
  using u16_op.run_append [OF assms(1), of "[a, b]" ys] assms(2) by simp_all

lemma read_u24_Cons:
  assumes "reader_wf r" and "unread r = a # b # c # ys"
  shows "read_u24 r = Inr (be32 0 a b c, advance 3 r)" "unread (advance 3 r) = ys"
    "reader_wf (advance 3 r)"
  using u24_op.run_append [OF assms(1), of "[a, b, c]" ys] assms(2) by simp_all

lemma take_bytes_append:
  assumes "reader_wf r" and "unread r = xs @ ys"
  shows "take_bytes (length xs) r = Inr (xs, advance (length xs) r)"
    "unread (advance (length xs) r) = ys" "reader_wf (advance (length xs) r)"
  using take_op.run_append [OF assms] by simp_all

end
