(* ===== verification/Grease.thy ===== *)
theory Grease
  imports Fpd_Prelude
begin

text \<open>
  GREASE detection and normalisation, \<open>fingerprint-core/src/grease.rs\<close>. The lemmas say that
  \<open>is_grease\<close> holds of exactly the sixteen values of RFC 8701, that \<open>strip\<close> and \<open>positions\<close>
  split a list into what remains and where GREASE sat, and that both commute with
  permutations in the way the fingerprints rely on.
\<close>

unbundle bit_operations_syntax

definition is_grease :: "u16 \<Rightarrow> bool" where
  "is_grease v =
     (let hi = ucast (drop_bit 8 v) :: u8;
          lo = ucast (v AND 0xff) :: u8
      in hi = lo \<and> lo AND 0x0f = 0x0a)"

definition strip :: "u16 list \<Rightarrow> u16 list" where
  "strip vs = filter (\<lambda>v. \<not> is_grease v) vs"

definition positions :: "u16 list \<Rightarrow> nat list" where
  "positions vs = List.map_filter (\<lambda>(i, v). if is_grease v then Some i else None) (enumerate 0 vs)"

text \<open>The sixteen values, spelled out as the RFC lists them.\<close>

definition all_grease :: "u16 list" where
  "all_grease =
     [0x0a0a, 0x1a1a, 0x2a2a, 0x3a3a, 0x4a4a, 0x5a5a, 0x6a6a, 0x7a7a,
      0x8a8a, 0x9a9a, 0xaaaa, 0xbaba, 0xcaca, 0xdada, 0xeaea, 0xfafa]"

lemma int_and_mask:
  "(k :: int) AND 255 = k mod 256"
  "(k :: int) AND 15 = k mod 16"
  using take_bit_eq_mask [of 8 k] take_bit_eq_mask [of 4 k]
  by (simp_all add: take_bit_eq_mod mask_eq_exp_minus_1)

lemma uint_bytes_of_u16:
  "uint (ucast (drop_bit 8 (v :: u16)) :: u8) = uint v div 256"
  "uint (ucast (v AND 0xff) :: u8) = uint v mod 256"
proof -
  have u: "uint (ucast (w :: u16) :: u8) = uint w mod 256" for w
    by (simp only: unsigned_ucast_eq take_bit_eq_mod) simp
  have "uint (drop_bit 8 v) = uint v div 256"
    using uint_lt2p [of v] unfolding unsigned_drop_bit_eq
    by (simp add: drop_bit_eq_div take_bit_eq_mod)
  moreover have "0 \<le> uint v div 256" "uint v div 256 < 256"
    using uint_lt2p [of v] by (simp_all add: pos_imp_zdiv_nonneg_iff)
  ultimately show "uint (ucast (drop_bit 8 v) :: u8) = uint v div 256"
    unfolding u by (simp add: mod_pos_pos_trivial)
  have "uint (v AND 0xff) = uint v mod 256"
    by (simp only: unsigned_and_eq uint_numeral int_and_mask) (simp add: int_and_mask)
  then show "uint (ucast (v AND 0xff) :: u8) = uint v mod 256"
    unfolding u by simp
qed

lemma low_nibble_eq: "(b :: u8) AND 0x0f = 0x0a \<longleftrightarrow> uint b mod 16 = 10"
proof -
  have "uint (b AND 0x0f) = uint b mod 16"
    by (simp only: unsigned_and_eq) (simp add: int_and_mask)
  moreover have "b AND 0x0f = 0x0a \<longleftrightarrow> uint (b AND 0x0f) = uint (0x0a :: u8)"
    by (rule word_uint_eq_iff)
  ultimately show ?thesis by simp
qed

lemma is_grease_uint:
  "is_grease v \<longleftrightarrow> uint v div 256 = uint v mod 256 \<and> uint v mod 16 = 10"
proof -
  have "uint v mod 256 mod 16 = uint v mod 16"
    by (rule mod_mod_cancel) simp
  moreover have "is_grease v \<longleftrightarrow> uint v div 256 = uint v mod 256 \<and> uint v mod 256 mod 16 = 10"
    unfolding is_grease_def Let_def low_nibble_eq uint_bytes_of_u16
    unfolding word_uint_eq_iff uint_bytes_of_u16 by (rule refl)
  ultimately show ?thesis by simp
qed

lemma is_grease_iff: "is_grease v \<longleftrightarrow> v \<in> set all_grease"
proof
  assume "is_grease v"
  then have g: "uint v div 256 = uint v mod 256" "uint v mod 16 = 10"
    by (simp_all add: is_grease_uint)
  define k where "k = uint v mod 256 div 16"
  have "uint v mod 256 mod 16 = uint v mod 16"
    by (rule mod_mod_cancel) simp
  with g have low: "uint v mod 256 = 16 * k + 10"
    unfolding k_def by (metis mult_div_mod_eq)
  have v: "uint v = 257 * (16 * k + 10)"
    using g(1) low mult_div_mod_eq [of 256 "uint v"] by algebra
  have "0 \<le> k" "k < 16"
    unfolding k_def by simp_all
  then have "k \<in> {0, 1, 2, 3, 4, 5, 6, 7, 8, 9, 10, 11, 12, 13, 14, 15}"
    by simp presburger
  moreover have "v = word_of_int (257 * (16 * k + 10))"
    using v by (metis word_of_int_uint)
  ultimately show "v \<in> set all_grease"
    by (auto simp: all_grease_def)
next
  assume "v \<in> set all_grease"
  then show "is_grease v"
    by (auto simp: all_grease_def is_grease_uint)
qed

lemma strip_Nil [simp]: "strip [] = []"
  by (simp add: strip_def)

lemma strip_append [simp]: "strip (xs @ ys) = strip xs @ strip ys"
  by (simp add: strip_def)

lemma strip_idem [simp]: "strip (strip vs) = strip vs"
  by (simp add: strip_def)

lemma strip_not_grease: "v \<in> set (strip vs) \<Longrightarrow> \<not> is_grease v"
  by (simp add: strip_def)

lemma mset_strip: "mset (strip vs) = filter_mset (\<lambda>v. \<not> is_grease v) (mset vs)"
  by (simp add: strip_def)

lemma strip_perm: "mset vs = mset ws \<Longrightarrow> mset (strip vs) = mset (strip ws)"
  by (simp add: mset_strip)

lemma positions_eq: "positions vs = filter (\<lambda>i. is_grease (vs ! i)) [0..<length vs]"
proof -
  have "List.map_filter (\<lambda>(i, v). if is_grease v then Some i else None) (enumerate n vs)
      = filter (\<lambda>i. is_grease (vs ! (i - n))) [n..<n + length vs]" for n
  proof (induction vs arbitrary: n)
    case Nil
    then show ?case by (simp add: List.map_filter_def)
  next
    case (Cons v vs)
    have "filter (\<lambda>i. is_grease ((v # vs) ! (i - n))) [Suc n..<Suc n + length vs]
        = filter (\<lambda>i. is_grease (vs ! (i - Suc n))) [Suc n..<Suc n + length vs]"
    proof (rule filter_cong)
      fix x assume "x \<in> set [Suc n..<Suc n + length vs]"
      then have "x - n = Suc (x - Suc n)" by auto
      then show "is_grease ((v # vs) ! (x - n)) = is_grease (vs ! (x - Suc n))" by simp
    qed simp
    moreover have "[n..<n + length (v # vs)] = n # [Suc n..<Suc n + length vs]"
      by (simp add: upt_conv_Cons del: upt_Suc)
    ultimately show ?case
      using Cons.IH [of "Suc n"] by (simp add: List.map_filter_simps del: upt_Suc)
  qed
  from this [of 0] show ?thesis
    by (simp add: positions_def)
qed

lemma length_filter_upt: "length (filter (\<lambda>i. P (xs ! i)) [0..<length xs]) = length (filter P xs)"
proof -
  have "map ((!) xs) (filter (\<lambda>i. P (xs ! i)) [0..<length xs]) = filter P (map ((!) xs) [0..<length xs])"
    by (simp add: filter_map comp_def)
  also have "\<dots> = filter P xs"
    by (simp add: map_nth)
  finally show ?thesis
    by (metis length_map)
qed

lemma length_positions: "length (positions vs) = length (filter is_grease vs)"
  by (simp add: positions_eq length_filter_upt)

lemma length_strip_positions: "length (strip vs) + length (positions vs) = length vs"
  using sum_length_filter_compl [of is_grease vs]
  by (simp add: length_positions strip_def)

lemma length_positions_perm:
  assumes "mset vs = mset ws"
  shows "length (positions vs) = length (positions ws)"
proof -
  have "mset (filter is_grease vs) = mset (filter is_grease ws)"
    using assms by simp
  then show ?thesis
    by (metis length_positions size_mset)
qed

section \<open>Properties\<close>

text \<open>
  The bit test for GREASE holds of exactly the sixteen values RFC 8701 reserves, so no real
  cipher suite or extension is dropped and no reserved value is kept.
\<close>

theorem is_grease_rfc: "is_grease v \<longleftrightarrow> v \<in> set all_grease"
  by (rule is_grease_iff)

text \<open>
  Stripping GREASE and recording its positions loses nothing: what is kept holds no GREASE,
  keeps its order, and the positions are those of the dropped values.
\<close>

theorem strip_positions_split:
  "list_all (\<lambda>v. \<not> is_grease v) (strip vs) \<and> subseq (strip vs) vs \<and>
   map ((!) vs) (positions vs) = filter is_grease vs \<and>
   length (strip vs) + length (positions vs) = length vs"
proof -
  have "map ((!) vs) (filter (\<lambda>i. is_grease (vs ! i)) [0..<length vs]) =
      filter is_grease (map ((!) vs) [0..<length vs])"
    by (simp add: filter_map comp_def)
  then show ?thesis
    using length_strip_positions [of vs]
    by (simp add: list_all_iff strip_not_grease positions_eq map_nth) (simp add: strip_def)
qed

end
