(* ===== verification/Hello_Wire.thy ===== *)
theory Hello_Wire
  imports Hello
begin

text \<open>
  The language that \<open>parse\<close> in \<open>fingerprint-core/src/hello.rs\<close> accepts. The record \<open>wire\<close>
  holds the fields of a ClientHello as they travel, \<open>wire_bytes\<close> writes them, and
  \<open>wire_hello\<close> is what the parser should report. The parser accepts exactly the bytes
  \<open>wire_bytes w\<close> of a well-formed \<open>w\<close>, and its spans point at the bytes they name.
\<close>

section \<open>The wire format\<close>

text \<open>
  What the parser accepts, written as an encoder. A message carries slack the parser ignores:
  up to three bytes after the last whole extension, anything after the extensions block, after
  the handshake message and after the record. Without an extensions block at most one byte may
  follow the compression methods.
\<close>

definition ext_bytes :: "u16 \<times> bytes \<Rightarrow> bytes" where
  "ext_bytes x = to_be16 (fst x) @ to_be16 (of_nat (length (snd x))) @ snd x"

fun exts_at :: "nat \<Rightarrow> (u16 \<times> bytes) list \<Rightarrow> raw_ext list" where
  "exts_at p [] = []"
| "exts_at p (x # xs) =
     \<lparr>re_id = fst x, re_body = snd x, re_span = \<lparr>sp_start = p, sp_len = length (snd x) + 4\<rparr>\<rparr>
     # exts_at (p + length (snd x) + 4) xs"

record wire =
  w_record_version :: u16
  w_version :: u16
  w_random :: bytes
  w_session :: bytes
  w_ciphers :: "u16 list"
  w_compression :: bytes
  w_exts :: "((u16 \<times> bytes) list \<times> bytes) option"
  w_body_tail :: bytes
  w_record_tail :: bytes
  w_tail :: bytes

definition len8 :: "bytes \<Rightarrow> bytes" where
  "len8 b = of_nat (length b) # b"

definition len16 :: "bytes \<Rightarrow> bytes" where
  "len16 b = to_be16 (of_nat (length b)) @ b"

definition len24 :: "bytes \<Rightarrow> bytes" where
  "len24 b = tl (to_be32 (of_nat (length b))) @ b"

definition exts_block :: "(u16 \<times> bytes) list \<times> bytes \<Rightarrow> bytes" where
  "exts_block e = concat (map ext_bytes (fst e)) @ snd e"

definition wire_prefix :: "wire \<Rightarrow> bytes" where
  "wire_prefix w = to_be16 (w_version w) @ w_random w @ len8 (w_session w)"

definition cipher_bytes :: "wire \<Rightarrow> bytes" where
  "cipher_bytes w = concat (map to_be16 (w_ciphers w))"

definition wire_body :: "wire \<Rightarrow> bytes" where
  "wire_body w =
     wire_prefix w @ len16 (cipher_bytes w) @ len8 (w_compression w) @
     (case w_exts w of None \<Rightarrow> [] | Some e \<Rightarrow> len16 (exts_block e)) @ w_body_tail w"

definition wire_message :: "wire \<Rightarrow> bytes" where
  "wire_message w = [0x01] @ len24 (wire_body w) @ w_record_tail w"

definition wire_bytes :: "wire \<Rightarrow> bytes" where
  "wire_bytes w = [0x16] @ to_be16 (w_record_version w) @ len16 (wire_message w) @ w_tail w"

definition body_wf :: "wire \<Rightarrow> bool" where
  "body_wf w \<longleftrightarrow>
     length (w_random w) = 32 \<and> length (w_session w) < 256 \<and> length (cipher_bytes w) < 65536 \<and>
     length (w_compression w) < 256 \<and>
     (case w_exts w of None \<Rightarrow> length (w_body_tail w) < 2
      | Some e \<Rightarrow> length (snd e) < 4 \<and> length (exts_block e) < 65536)"

definition wire_wf :: "wire \<Rightarrow> bool" where
  "wire_wf w \<longleftrightarrow> body_wf w \<and> length (wire_message w) < 65536"

text \<open>What the parser reports for such a message.\<close>

definition ciphers_start :: "wire \<Rightarrow> nat" where
  "ciphers_start w = 9 + length (wire_prefix w) + 2"

definition exts_start :: "wire \<Rightarrow> nat" where
  "exts_start w = ciphers_start w + length (cipher_bytes w) + 1 + length (w_compression w)"

definition wire_hello :: "wire \<Rightarrow> raw_hello" where
  "wire_hello w =
     \<lparr>rh_legacy_version = w_version w, rh_ciphers = w_ciphers w,
      rh_extensions = (case w_exts w of None \<Rightarrow> [] | Some e \<Rightarrow> exts_at (exts_start w + 2) (fst e)),
      rh_cipher_span = \<lparr>sp_start = ciphers_start w, sp_len = length (cipher_bytes w)\<rparr>,
      rh_extensions_span =
        (case w_exts w of None \<Rightarrow> \<lparr>sp_start = exts_start w, sp_len = 0\<rparr>
         | Some e \<Rightarrow> \<lparr>sp_start = exts_start w + 2, sp_len = length (exts_block e)\<rparr>)\<rparr>"

section \<open>Reading the wire format\<close>

lemma unat_of_nat_len8 [simp]: "n < 256 \<Longrightarrow> unat (of_nat n :: u8) = n"
  by (simp add: unat_of_nat)

lemma unat_of_nat_len16 [simp]: "n < 65536 \<Longrightarrow> unat (of_nat n :: u16) = n"
  by (simp add: unat_of_nat)

lemma of_nat_unat_len [simp]: "of_nat (unat (v :: 'a::len word)) = v"
  by simp

text \<open>Inverting a read: the unread bytes are what was read followed by what is left.\<close>

lemma read_u8_inv:
  assumes "read_u8 r = Inr (x, r')"
  shows "unread r = x # unread r'" "rd_pos r' = rd_pos r + 1" "rd_buf r' = rd_buf r"
proof -
  have s: "1 \<le> remaining r" "x = take 1 (unread r) ! 0" "r' = advance 1 r"
    using u8_op.run_sound [OF assms] by simp_all
  then obtain y ys where "unread r = y # ys"
    using length_unread [of r] by (cases "unread r") auto
  with s show "unread r = x # unread r'" by simp
  from s show "rd_pos r' = rd_pos r + 1" "rd_buf r' = rd_buf r" by simp_all
qed

lemma take_bytes_inv:
  assumes "take_bytes n r = Inr (b, r')"
  shows "unread r = b @ unread r'" "length b = n" "rd_pos r' = rd_pos r + n" "rd_buf r' = rd_buf r"
  using take_op.run_sound [OF assms] by simp_all

lemma read_u16_inv:
  assumes "read_u16 r = Inr (x, r')"
  shows "unread r = to_be16 x @ unread r'" "rd_pos r' = rd_pos r + 2" "rd_buf r' = rd_buf r"
proof -
  have s: "2 \<le> remaining r" "x = be16 (take 2 (unread r) ! 0) (take 2 (unread r) ! 1)"
    "r' = advance 2 r"
    using u16_op.run_sound [OF assms] by simp_all
  then obtain a b ys where "unread r = a # b # ys"
    using length_unread [of r] by (cases "unread r" rule: list.exhaust, simp)
      (metis One_nat_def Suc_1 Suc_le_length_iff)
  with s show "unread r = to_be16 x @ unread r'" by simp
  from s show "rd_pos r' = rd_pos r + 2" "rd_buf r' = rd_buf r" by simp_all
qed

lemma read_be16:
  assumes "reader_wf r" and "unread r = to_be16 v @ ys"
  shows "read_u16 r = Inr (v, advance 2 r)" "unread (advance 2 r) = ys" "reader_wf (advance 2 r)"
  using read_u16_Cons [OF assms(1), of "word_of_int (uint v div 256)" "word_of_int (uint v)" ys]
    assms(2) by (simp_all add: to_be16_def)

lemma length_ext_bytes [simp]: "length (ext_bytes x) = length (snd x) + 4"
  by (simp add: ext_bytes_def)

lemma ext_walk_short: "remaining e < 4 \<Longrightarrow> ext_walk base e = Inr []"
  by (simp add: ext_walk.simps [of base e])

lemma ext_walk_step:
  assumes "reader_wf e" and "unread e = ext_bytes x @ ys" and "length (snd x) < 65536"
  shows "ext_walk base e =
           try_res (ext_walk base (advance (length (snd x)) (advance 2 (advance 2 e)))) (\<lambda>rest.
             Inr (\<lparr>re_id = fst x, re_body = snd x,
                   re_span = \<lparr>sp_start = base + rd_pos e, sp_len = length (snd x) + 4\<rparr>\<rparr> # rest))"
    and "unread (advance (length (snd x)) (advance 2 (advance 2 e))) = ys"
    and "reader_wf (advance (length (snd x)) (advance 2 (advance 2 e)))"
proof -
  have u: "unread e = to_be16 (fst x) @ to_be16 (of_nat (length (snd x))) @ snd x @ ys"
    using assms(2) by (simp add: ext_bytes_def)
  note r1 = read_be16 [OF assms(1) u]
  note r2 = read_be16 [OF r1(3) r1(2)]
  note r3 = take_bytes_append [OF r2(3) r2(2)]
  have "4 \<le> remaining e"
    using u length_unread [of e] by simp
  then show "ext_walk base e =
           try_res (ext_walk base (advance (length (snd x)) (advance 2 (advance 2 e)))) (\<lambda>rest.
             Inr (\<lparr>re_id = fst x, re_body = snd x,
                   re_span = \<lparr>sp_start = base + rd_pos e, sp_len = length (snd x) + 4\<rparr>\<rparr> # rest))"
    by (simp add: ext_walk.simps [of base e] r1(1) r2(1) r3(1) assms(3))
  show "unread (advance (length (snd x)) (advance 2 (advance 2 e))) = ys"
    by (rule r3(2))
  show "reader_wf (advance (length (snd x)) (advance 2 (advance 2 e)))"
    by (rule r3(3))
qed

lemma ext_walk_complete:
  "reader_wf e \<Longrightarrow> unread e = concat (map ext_bytes xs) @ junk \<Longrightarrow> length junk < 4 \<Longrightarrow>
     \<forall>x \<in> set xs. length (snd x) < 65536 \<Longrightarrow> ext_walk base e = Inr (exts_at (base + rd_pos e) xs)"
proof (induction xs arbitrary: e)
  case Nil
  then have "remaining e < 4"
    using length_unread [of e] by simp
  then show ?case by (simp add: ext_walk_short)
next
  case (Cons x xs)
  have u: "unread e = ext_bytes x @ concat (map ext_bytes xs) @ junk"
    using Cons.prems(2) by simp
  have l: "length (snd x) < 65536"
    using Cons.prems(4) by simp
  note s = ext_walk_step [OF Cons.prems(1) u l]
  have p: "base + rd_pos (advance (length (snd x)) (advance 2 (advance 2 e))) =
      base + rd_pos e + length (snd x) + 4"
    by simp
  have "ext_walk base (advance (length (snd x)) (advance 2 (advance 2 e))) =
      Inr (exts_at (base + rd_pos e + length (snd x) + 4) xs)"
    using Cons.IH [OF s(3) s(2) Cons.prems(3)] Cons.prems(4) unfolding p by simp
  then show ?case
    unfolding s(1) [of base] by (simp only: try_res_simps exts_at.simps)
qed

lemma ext_walk_sound:
  "ext_walk base e = Inr ys \<Longrightarrow>
     \<exists>xs junk. unread e = concat (map ext_bytes xs) @ junk \<and> length junk < 4 \<and>
       (\<forall>x \<in> set xs. length (snd x) < 65536) \<and> ys = exts_at (base + rd_pos e) xs"
proof (induction base e arbitrary: ys rule: ext_walk.induct)
  case (1 base e)
  show ?case
  proof (cases "4 \<le> remaining e")
    case False
    with "1.prems" have "ys = []"
      by (simp add: ext_walk_short)
    with False show ?thesis
      by (intro exI [of _ "[]"] exI [of _ "unread e"]) simp
  next
    case True
    from "1.prems" True obtain id e1 len e2 body e3 rest where
        r1: "read_u16 e = Inr (id, e1)" and r2: "read_u16 e1 = Inr (len, e2)"
      and r3: "take_bytes (unat len) e2 = Inr (body, e3)" and r4: "ext_walk base e3 = Inr rest"
      and ys: "ys = \<lparr>re_id = id, re_body = body,
          re_span = \<lparr>sp_start = base + rd_pos e, sp_len = unat len + 4\<rparr>\<rparr> # rest"
      by (auto simp: ext_walk.simps [of base e] res_simps Let_def)
    note i1 = read_u16_inv [OF r1] and i2 = read_u16_inv [OF r2] and i3 = take_bytes_inv [OF r3]
    from "1.IH" [OF True refl r1 refl r2 refl r3 refl r4] obtain xs junk where
        ih: "unread e3 = concat (map ext_bytes xs) @ junk" "length junk < 4"
          "\<forall>x \<in> set xs. length (snd x) < 65536" "rest = exts_at (base + rd_pos e3) xs"
      by blast
    have len: "of_nat (length body) = len"
      using i3(2) by simp
    have "unread e = concat (map ext_bytes ((id, body) # xs)) @ junk"
      by (simp add: ext_bytes_def i1(1) i2(1) i3(1) ih(1) len)
    moreover have "ys = exts_at (base + rd_pos e) ((id, body) # xs)"
    proof -
      have "base + rd_pos e3 = base + rd_pos e + length body + 4"
        using i3(2) by (simp add: i1(2) i2(2) i3(3))
      then show ?thesis
        using i3(2) by (simp only: ys ih(4) exts_at.simps fst_conv snd_conv)
    qed
    moreover have "length body < 65536"
      using i3(2) unat_u16_bound [of len] by simp
    ultimately show ?thesis
      using ih(2,3) by (intro exI [of _ "(id, body) # xs"] exI [of _ junk]) simp
  qed
qed


lemma read_len8:
  assumes "reader_wf r" and "unread r = len8 b @ ys" and "length b < 256"
  shows "read_u8 r = Inr (of_nat (length b), advance 1 r)"
    and "take_bytes (length b) (advance 1 r) = Inr (b, advance (length b) (advance 1 r))"
    and "unread (advance (length b) (advance 1 r)) = ys"
    and "reader_wf (advance (length b) (advance 1 r))"
proof -
  have u: "unread r = of_nat (length b) # b @ ys"
    using assms(2) by (simp add: len8_def)
  note s = read_u8_Cons [OF assms(1) u]
  note t = take_bytes_append [OF s(3) s(2)]
  show "read_u8 r = Inr (of_nat (length b), advance 1 r)" by (rule s(1))
  show "take_bytes (length b) (advance 1 r) = Inr (b, advance (length b) (advance 1 r))"
    "unread (advance (length b) (advance 1 r)) = ys"
    "reader_wf (advance (length b) (advance 1 r))"
    by (rule t)+
qed

lemma read_len16:
  assumes "reader_wf r" and "unread r = len16 b @ ys" and "length b < 65536"
  shows "read_u16 r = Inr (of_nat (length b), advance 2 r)"
    and "take_bytes (length b) (advance 2 r) = Inr (b, advance (length b) (advance 2 r))"
    and "unread (advance (length b) (advance 2 r)) = ys"
    and "reader_wf (advance (length b) (advance 2 r))"
proof -
  have u: "unread r = to_be16 (of_nat (length b)) @ b @ ys"
    using assms(2) by (simp add: len16_def)
  note s = read_be16 [OF assms(1) u]
  note t = take_bytes_append [OF s(3) s(2)]
  show "read_u16 r = Inr (of_nat (length b), advance 2 r)" by (rule s(1))
  show "take_bytes (length b) (advance 2 r) = Inr (b, advance (length b) (advance 2 r))"
    "unread (advance (length b) (advance 2 r)) = ys"
    "reader_wf (advance (length b) (advance 2 r))"
    by (rule t)+
qed

lemma length_to_be16s: "length (concat (map to_be16 vs)) = 2 * length vs"
  by (induction vs) simp_all

lemma read_be24:
  assumes "reader_wf r" and "unread r = tl (to_be32 v) @ ys" and "unat v < 16777216"
  shows "read_u24 r = Inr (v, advance 3 r)" "unread (advance 3 r) = ys" "reader_wf (advance 3 r)"
proof -
  have "uint v < 16777216"
    using assms(3) by (simp only: unat_less_uint)
  then have z: "uint v div 16777216 = 0" by simp
  have v: "be32 0 (word_of_int (uint v div 65536)) (word_of_int (uint v div 256))
      (word_of_int (uint v)) = v"
    using be32_to_be32 [of v] unfolding z by (simp del: be32_to_be32 be32_to_be32_ucast)
  have u: "unread r = word_of_int (uint v div 65536) # word_of_int (uint v div 256) #
      word_of_int (uint v) # ys"
    using assms(2) by (simp add: to_be32_def)
  note s = read_u24_Cons [OF assms(1) u]
  from s(1) show "read_u24 r = Inr (v, advance 3 r)" by (simp only: v)
  from s(2,3) show "unread (advance 3 r) = ys" "reader_wf (advance 3 r)" by blast+
qed

lemma read_len24:
  assumes "reader_wf r" and "unread r = len24 b @ ys" and "length b < 16777216"
  shows "\<exists>v. read_u24 r = Inr (v, advance 3 r) \<and> unat v = length b"
    and "take_bytes (length b) (advance 3 r) = Inr (b, advance (length b) (advance 3 r))"
proof -
  have v: "unat (of_nat (length b) :: u32) = length b"
    using assms(3) by (simp add: unat_of_nat)
  have u: "unread r = tl (to_be32 (of_nat (length b))) @ b @ ys"
    using assms(2) by (simp add: len24_def)
  have "unat (of_nat (length b) :: u32) < 16777216"
    using assms(3) by (simp only: v)
  note s = read_be24 [OF assms(1) u this]
  show "\<exists>v. read_u24 r = Inr (v, advance 3 r) \<and> unat v = length b"
    using s(1) v by blast
  show "take_bytes (length b) (advance 3 r) = Inr (b, advance (length b) (advance 3 r))"
    by (rule take_bytes_append [OF s(3,2)])
qed

lemma cipher_bytes_simps [simp]:
  "u16_items (cipher_bytes w) = w_ciphers w"
  "length (cipher_bytes w) mod 2 = 0"
  by (simp_all add: cipher_bytes_def length_to_be16s)

lemma length_len [simp]:
  "length (len8 b) = length b + 1"
  "length (len16 b) = length b + 2"
  "length (len24 b) = length b + 3"
  by (simp_all add: len8_def len16_def len24_def)

lemma length_exts_block:
  "length (exts_block e) < n \<Longrightarrow> x \<in> set (fst e) \<Longrightarrow> length (snd x) < n"
proof -
  assume l: "length (exts_block e) < n" and x: "x \<in> set (fst e)"
  have "length (ext_bytes x) \<le> length (concat (map ext_bytes xs))" if "x \<in> set xs" for xs
    using that by (induction xs) auto
  from this [OF x] have "length (ext_bytes x) \<le> length (concat (map ext_bytes (fst e)))" .
  with l show ?thesis by (simp add: exts_block_def)
qed

text \<open>
  The last part of a hello, the extensions, once everything before it has been read: what the
  parser returns from there, for a hello that has no extensions yet.
\<close>

definition exts_part :: "wire \<Rightarrow> reader \<Rightarrow> parse_error + raw_hello" where
  "exts_part w c =
     (if 2 \<le> remaining c then
        try_res (read_u16 c) (\<lambda>(n, c).
        try_res (take_bytes (unat n) c) (\<lambda>(block, c').
        try_res (ext_walk (9 + rd_pos c) (reader_new block)) (\<lambda>exts.
        Inr (wire_hello w\<lparr>rh_extensions := exts,
               rh_extensions_span := \<lparr>sp_start = 9 + rd_pos c, sp_len = unat n\<rparr>\<rparr>))))
      else Inr (wire_hello w))"

abbreviation no_exts :: "wire \<Rightarrow> bytes \<Rightarrow> wire" where
  "no_exts w rest \<equiv> w\<lparr>w_exts := None, w_body_tail := rest\<rparr>"

definition exts_bytes :: "wire \<Rightarrow> bytes" where
  "exts_bytes w = (case w_exts w of None \<Rightarrow> [] | Some e \<Rightarrow> len16 (exts_block e)) @ w_body_tail w"

definition head_wf :: "wire \<Rightarrow> bool" where
  "head_wf w \<longleftrightarrow> length (w_random w) = 32 \<and> length (w_session w) < 256 \<and>
     length (cipher_bytes w) < 65536 \<and> length (w_compression w) < 256"

lemma body_wf_head:
  "body_wf w \<longleftrightarrow> head_wf w \<and>
     (case w_exts w of None \<Rightarrow> length (w_body_tail w) < 2
      | Some e \<Rightarrow> length (snd e) < 4 \<and> length (exts_block e) < 65536)"
  by (simp add: body_wf_def head_wf_def)

lemma exts_updates [simp]:
  "wire_prefix (w\<lparr>w_exts := ex, w_body_tail := t\<rparr>) = wire_prefix w"
  "cipher_bytes (w\<lparr>w_exts := ex, w_body_tail := t\<rparr>) = cipher_bytes w"
  "ciphers_start (w\<lparr>w_exts := ex, w_body_tail := t\<rparr>) = ciphers_start w"
  "exts_start (w\<lparr>w_exts := ex, w_body_tail := t\<rparr>) = exts_start w"
  "head_wf (w\<lparr>w_exts := ex, w_body_tail := t\<rparr>) = head_wf w"
  by (simp_all add: wire_prefix_def cipher_bytes_def ciphers_start_def exts_start_def head_wf_def)

text \<open>The parts before the extensions are read back and leave the cursor at the extensions.\<close>

lemma parse_client_hello_head:
  assumes "head_wf w" and "length (wire_body w) \<le> usize_max"
  shows "\<exists>c. reader_wf c \<and> unread c = exts_bytes w \<and> 9 + rd_pos c = exts_start w \<and>
    parse_client_hello 9 (reader_new (wire_body w)) = exts_part (no_exts w (exts_bytes w)) c"
proof -
  define c0 where "c0 = reader_new (wire_body w)"
  have wf: "reader_wf c0" and p0: "rd_pos c0 = 0"
    using assms(2) by (auto simp: c0_def)
  have l: "length (w_random w) = 32" "length (w_session w) < 256" "length (cipher_bytes w) < 65536"
    "length (w_compression w) < 256"
    using assms(1) by (simp_all add: head_wf_def)
  have u0: "unread c0 = to_be16 (w_version w) @ w_random w @ len8 (w_session w) @
      len16 (cipher_bytes w) @ len8 (w_compression w) @ exts_bytes w"
    by (simp add: c0_def wire_body_def wire_prefix_def exts_bytes_def)
  note s1 = read_be16 [OF wf u0]
  note s2 = take_bytes_append [OF s1(3) s1(2), unfolded l(1)]
  note s3 = read_len8 [OF s2(3) s2(2) l(2)]
  note s4 = read_len16 [OF s3(4) s3(3) l(3)]
  note s5 = read_len8 [OF s4(4) s4(3) l(4)]
  note steps = s1(1) s2(1) s3(1,2) s4(1,2) s5(1,2)
  show ?thesis
    by (rule exI, rule conjI [OF s5(4) conjI [OF s5(3)]])
      (simp add: parse_client_hello_def c0_def [symmetric] steps exts_part_def Let_def
        l p0 wire_hello_def exts_start_def ciphers_start_def wire_prefix_def
        del: advance_simps(3,4) One_nat_def)
qed

lemma exts_part_complete:
  assumes "body_wf w" and "reader_wf c" and "unread c = exts_bytes w" and "9 + rd_pos c = exts_start w"
  shows "exts_part (no_exts w (exts_bytes w)) c = Inr (wire_hello w)"
proof (cases "w_exts w")
  case None
  then have "\<not> 2 \<le> remaining c"
    using assms(1) unfolding length_unread [symmetric] assms(3) by (simp add: exts_bytes_def body_wf_def)
  then show ?thesis
    using None by (simp add: exts_part_def wire_hello_def)
next
  case (Some e)
  then have e: "length (snd e) < 4" "length (exts_block e) < 65536"
    using assms(1) by (simp_all add: body_wf_def)
  have u: "unread c = len16 (exts_block e) @ w_body_tail w"
    using assms(3) Some by (simp add: exts_bytes_def)
  have "2 \<le> remaining c"
    unfolding length_unread [symmetric] u by simp
  note s = read_len16 [OF assms(2) u e(2)]
  have "reader_wf (reader_new (exts_block e))"
    using e(2) by (intro reader_wf_new) (simp add: usize_max_def)
  then have walk: "ext_walk b (reader_new (exts_block e)) = Inr (exts_at b (fst e))" for b
    using ext_walk_complete [of "reader_new (exts_block e)" "fst e" "snd e" b] e
      length_exts_block [OF e(2)] by (simp add: exts_block_def)
  show ?thesis
    using \<open>2 \<le> remaining c\<close> assms(4) e(2)
    by (simp add: exts_part_def s(1,2) walk Some wire_hello_def del: advance_simps(3,4) One_nat_def)
qed

lemma parse_client_hello_complete:
  assumes "wire_wf w" and "length (wire_body w) \<le> usize_max"
  shows "parse_client_hello 9 (reader_new (wire_body w)) = Inr (wire_hello w)"
proof -
  have wf: "body_wf w" "head_wf w"
    using assms(1) by (simp_all add: wire_wf_def body_wf_head)
  from parse_client_hello_head [OF wf(2) assms(2)] show ?thesis
    using exts_part_complete [OF wf(1)] by auto
qed

lemma parse_hello_complete:
  assumes "wire_wf w" and "length (wire_bytes w) \<le> usize_max"
  shows "parse_hello (wire_bytes w) = Inr (wire_hello w)"
proof -
  define r0 where "r0 = reader_new (wire_bytes w)"
  have wf: "reader_wf r0" and p0: "rd_pos r0 = 0"
    using assms(2) by (auto simp: r0_def)
  have l: "length (wire_message w) < 65536"
    using assms(1) by (simp add: wire_wf_def)
  have u0: "unread r0 = 0x16 # to_be16 (w_record_version w) @ len16 (wire_message w) @ w_tail w"
    by (simp add: r0_def wire_bytes_def)
  note s1 = read_u8_Cons [OF wf u0]
  note s2 = read_be16 [OF s1(3) s1(2)]
  note s3 = read_len16 [OF s2(3) s2(2) l]
  define h0 where "h0 = reader_new (wire_message w)"
  have wfh: "reader_wf h0" and ph: "rd_pos h0 = 0"
    using l by (auto simp: h0_def usize_max_def)
  have uh: "unread h0 = 0x01 # len24 (wire_body w) @ w_record_tail w"
    by (simp add: h0_def wire_message_def)
  have lb: "length (wire_body w) < 16777216" "length (wire_body w) \<le> usize_max"
    using l by (simp_all add: wire_message_def usize_max_def)
  note t1 = read_u8_Cons [OF wfh uh]
  note t2 = read_len24 [OF t1(3) t1(2) lb(1)]
  from t2(1) obtain v where v: "read_u24 (advance 1 h0) = Inr (v, advance 3 (advance 1 h0))"
    "unat v = length (wire_body w)" by blast
  show ?thesis
    unfolding parse_hello_def r0_def [symmetric] s1(1)
    by (simp add: s2(1) s3(1,2) l p0 ph t1(1) t2(2) v parse_client_hello_complete [OF assms(1) lb(2)]
        flip: h0_def del: advance_simps(3,4) One_nat_def)
qed

lemma read_u24_inv:
  assumes "read_u24 r = Inr (x, r')"
  shows "unread r = tl (to_be32 x) @ unread r'" "rd_pos r' = rd_pos r + 3" "rd_buf r' = rd_buf r"
    "unat x < 16777216"
proof -
  have s: "3 \<le> remaining r" "x = be32 0 (take 3 (unread r) ! 0) (take 3 (unread r) ! 1)
      (take 3 (unread r) ! 2)" "r' = advance 3 r"
    using u24_op.run_sound [OF assms] by simp_all
  then obtain a b c ys where u: "unread r = a # b # c # ys"
    using length_unread [of r]
    by (metis One_nat_def Suc_1 Suc_le_length_iff numeral_3_eq_3)
  have x: "uint x = (uint a * 256 + uint b) * 256 + uint c"
    using s(2) by (simp add: u uint_be32)
  have m: "(k * 256 + uint (y :: u8)) div 256 = k" "(k * 256 + uint y) mod 256 = uint y" for k y
    using uint_u8_bounds [of y] by simp_all
  have "uint x div 65536 = uint x div 256 div 256"
    by (simp add: zdiv_zmult2_eq [symmetric])
  then have d: "uint x div 65536 = uint a" "uint x div 256 mod 256 = uint b" "uint x mod 256 = uint c"
    by (simp_all only: x m)
  have "uint (word_of_int (uint x div 65536) :: u8) = uint a"
    "uint (word_of_int (uint x div 256) :: u8) = uint b"
    "uint (word_of_int (uint x) :: u8) = uint c"
    unfolding uint_of_int_8 using d uint_u8_bounds [of a] by simp_all
  then have "to_be32 x = [word_of_int (uint x div 16777216), a, b, c]"
    unfolding to_be32_def by (simp add: word_uint_eq_iff)
  with s(3) u show "unread r = tl (to_be32 x) @ unread r'" by simp
  from s show "rd_pos r' = rd_pos r + 3" "rd_buf r' = rd_buf r" by simp_all
  have "uint x < 16777216"
    unfolding x using byte_step(2) [OF byte_step [OF uint_u8_bounds [of a], of b], of c] by simp
  then show "unat x < 16777216"
    unfolding unat_eq_nat_uint by linarith
qed

lemma u16_items_even_inv:
  "length bs mod 2 = 0 \<Longrightarrow> concat (map to_be16 (u16_items bs)) = bs"
proof (induction bs rule: induct_list012)
  case (3 a b bs)
  then have "length bs mod 2 = 0" by simp
  with 3 show ?case by simp
qed simp_all

lemma unat_u8_read: "length b = unat (l :: u8) \<Longrightarrow> of_nat (length b) = l \<and> length b < 256"
  using unat_u8_bound [of l] by simp

lemma unat_u16_read: "length b = unat (l :: u16) \<Longrightarrow> of_nat (length b) = l \<and> length b < 65536"
  using unat_u16_bound [of l] by simp

lemma wire_updates [simp]:
  "wire_prefix (w\<lparr>w_record_version := v, w_record_tail := rt, w_tail := t\<rparr>) = wire_prefix w"
  "cipher_bytes (w\<lparr>w_record_version := v, w_record_tail := rt, w_tail := t\<rparr>) = cipher_bytes w"
  "wire_body (w\<lparr>w_record_version := v, w_record_tail := rt, w_tail := t\<rparr>) = wire_body w"
  "exts_start (w\<lparr>w_record_version := v, w_record_tail := rt, w_tail := t\<rparr>) = exts_start w"
  "ciphers_start (w\<lparr>w_record_version := v, w_record_tail := rt, w_tail := t\<rparr>) = ciphers_start w"
  by (simp_all add: wire_prefix_def cipher_bytes_def wire_body_def ciphers_start_def exts_start_def)

lemma wire_hello_updates [simp]:
  "wire_hello (w\<lparr>w_record_version := v, w_record_tail := rt, w_tail := t\<rparr>) = wire_hello w"
  unfolding wire_hello_def wire_updates by (cases "w_exts w") simp_all

lemma parse_client_hello_split:
  assumes "parse_client_hello 9 (reader_new body) = Inr h"
  shows "\<exists>w c. w_exts w = None \<and> w_body_tail w = unread c \<and> wire_body w = body \<and> head_wf w \<and>
    9 + rd_pos c = exts_start w \<and> exts_part w c = Inr h"
proof -
  from assms obtain ver c1 rnd c2 sl c3 sess c4 cl c5 cs c6 co c7 comp c8 where
      r1: "read_u16 (reader_new body) = Inr (ver, c1)" and r2: "take_bytes 32 c1 = Inr (rnd, c2)"
    and r3: "read_u8 c2 = Inr (sl, c3)" and r4: "take_bytes (unat sl) c3 = Inr (sess, c4)"
    and r5: "read_u16 c4 = Inr (cl, c5)" and even: "unat cl mod 2 = 0"
    and r6: "take_bytes (unat cl) c5 = Inr (cs, c6)"
    and r7: "read_u8 c6 = Inr (co, c7)" and r8: "take_bytes (unat co) c7 = Inr (comp, c8)"
    unfolding parse_client_hello_def Let_def try_res_Inr guard_Inr split_paired_Ex prod.case not_not
    by (elim exE conjE) (rule that)
  note r = r1 r2 r3 r4 r5 r6 r7 r8
  note i = read_u16_inv [OF r1] take_bytes_inv [OF r2] read_u8_inv [OF r3] take_bytes_inv [OF r4]
    read_u16_inv [OF r5] take_bytes_inv [OF r6] read_u8_inv [OF r7] take_bytes_inv [OF r8]
  note ls = unat_u8_read [OF take_bytes_inv(2) [OF r4]] unat_u16_read [OF take_bytes_inv(2) [OF r6]]
    unat_u8_read [OF take_bytes_inv(2) [OF r8]]
  define w where "w = \<lparr>w_record_version = 0, w_version = ver, w_random = rnd, w_session = sess,
    w_ciphers = u16_items cs, w_compression = comp, w_exts = None, w_body_tail = unread c8,
    w_record_tail = [], w_tail = []\<rparr>"
  have cb: "cipher_bytes w = cs"
    using even i by (simp add: cipher_bytes_def w_def u16_items_even_inv)
  have "wire_body w = body"
    using i ls unfolding wire_body_def cb by (simp add: w_def wire_prefix_def len8_def len16_def)
  moreover have start: "ciphers_start w = 9 + rd_pos c5" "exts_start w = 9 + rd_pos c8"
    unfolding exts_start_def ciphers_start_def cb using i by (simp_all add: w_def wire_prefix_def)
  moreover have "head_wf w"
    unfolding head_wf_def cb using i ls by (simp add: w_def)
  moreover have "wire_hello w = \<lparr>rh_legacy_version = ver, rh_ciphers = u16_items cs, rh_extensions = [],
      rh_cipher_span = \<lparr>sp_start = 9 + rd_pos c5, sp_len = unat cl\<rparr>,
      rh_extensions_span = \<lparr>sp_start = 9 + rd_pos c8, sp_len = 0\<rparr>\<rparr>"
    unfolding wire_hello_def start cb using i by (simp add: w_def)
  then have "exts_part w c8 = Inr h"
    using assms even
    by (cases "2 \<le> remaining c8") (simp_all add: parse_client_hello_def r exts_part_def Let_def)
  ultimately show ?thesis
    by (intro exI [of _ w] exI [of _ c8]) (simp add: w_def)
qed

lemma exts_part_sound:
  assumes "exts_part w c = Inr h" and "w_exts w = None" and "w_body_tail w = unread c"
    and "head_wf w" and "9 + rd_pos c = exts_start w"
  shows "\<exists>w'. wire_body w' = wire_body w \<and> body_wf w' \<and> h = wire_hello w'"
proof (cases "2 \<le> remaining c")
  case False
  then have "length (w_body_tail w) < 2"
    unfolding assms(3) length_unread by simp
  with assms False show ?thesis
    by (auto simp: exts_part_def body_wf_head)
next
  case True
  with assms(1) obtain n c1 block c2 exts where
      r1: "read_u16 c = Inr (n, c1)" and r2: "take_bytes (unat n) c1 = Inr (block, c2)"
    and walk: "ext_walk (9 + rd_pos c1) (reader_new block) = Inr exts"
    and h: "h = wire_hello w\<lparr>rh_extensions := exts,
          rh_extensions_span := \<lparr>sp_start = 9 + rd_pos c1, sp_len = unat n\<rparr>\<rparr>"
    by (auto simp: exts_part_def res_simps)
  note i = read_u16_inv [OF r1] take_bytes_inv [OF r2]
  note l = unat_u16_read [OF take_bytes_inv(2) [OF r2]]
  from ext_walk_sound [OF walk] obtain xs junk where
      ex: "block = concat (map ext_bytes xs) @ junk" "length junk < 4"
        "exts = exts_at (9 + rd_pos c1) xs"
    by auto
  have blk: "exts_block (xs, junk) = block"
    by (simp add: exts_block_def ex(1))
  let ?w = "w\<lparr>w_exts := Some (xs, junk), w_body_tail := unread c2\<rparr>"
  have "wire_body ?w = wire_body w"
    using i l assms(2,3) by (simp add: wire_body_def blk len16_def)
  moreover have "body_wf ?w"
    using assms(4) i l ex(2) by (simp add: body_wf_head blk)
  moreover have "h = wire_hello ?w"
    using h i assms(5) by (simp add: wire_hello_def blk ex(3))
  ultimately show ?thesis by blast
qed

lemma parse_client_hello_sound:
  assumes "parse_client_hello 9 (reader_new body) = Inr h"
  shows "\<exists>w. wire_body w = body \<and> body_wf w \<and> h = wire_hello w"
  using parse_client_hello_split [OF assms] exts_part_sound by metis

lemma body_wf_update [simp]:
  "body_wf (w\<lparr>w_record_version := v, w_record_tail := rt, w_tail := t\<rparr>) = body_wf w"
  by (cases "w_exts w") (simp_all add: body_wf_def)

lemma parse_hello_sound:
  assumes "parse_hello raw = Inr h"
  shows "\<exists>w. wire_wf w \<and> raw = wire_bytes w \<and> h = wire_hello w"
proof -
  from assms obtain ver len rec r1 r2 r3 r4 hl h1 h2 body h3 where
      r1: "read_u8 (reader_new raw) = Inr (0x16, r1)" and r2: "read_u16 r1 = Inr (ver, r2)"
    and r3: "read_u16 r2 = Inr (len, r3)" and r4: "take_bytes (unat len) r3 = Inr (rec, r4)"
    and r5: "read_u8 (reader_new rec) = Inr (0x01, h1)" and r6: "read_u24 h1 = Inr (hl, h2)"
    and r7: "take_bytes (unat hl) h2 = Inr (body, h3)"
    and pc: "parse_client_hello (rd_pos r3 + rd_pos h2) (reader_new body) = Inr h"
    unfolding parse_hello_def Let_def by (auto simp: res_simps split del: if_split)
  note i = read_u8_inv [OF r1] read_u16_inv [OF r2] read_u16_inv [OF r3] take_bytes_inv [OF r4]
    read_u8_inv [OF r5] read_u24_inv [OF r6] take_bytes_inv [OF r7]
  from pc i have "parse_client_hello 9 (reader_new body) = Inr h" by simp
  from parse_client_hello_sound [OF this] obtain w where
      w: "wire_body w = body" "body_wf w" "h = wire_hello w" by blast
  let ?w = "w\<lparr>w_record_version := ver, w_record_tail := unread h3, w_tail := unread r4\<rparr>"
  have hl: "of_nat (length body) = hl"
    using i by simp
  have len: "of_nat (length rec) = len" "length rec < 65536"
    using unat_u16_read [OF take_bytes_inv(2) [OF r4]] by simp_all
  have m: "wire_message ?w = rec"
    using i by (simp add: wire_message_def w(1) len24_def hl)
  have "raw = wire_bytes ?w"
    using i unfolding wire_bytes_def m len16_def len(1) by simp
  moreover have "wire_wf ?w"
    using w(2) len(2) m by (simp add: wire_wf_def)
  moreover have "h = wire_hello ?w"
    using w(3) by simp
  ultimately show ?thesis by blast
qed

section \<open>Spans\<close>

lemma span_slice_append:
  assumes "raw = pre @ b @ post" and "sp_start s = length pre" and "sp_len s = length b"
  shows "span_within raw s" and "span_slice raw s = b"
  using assms by (simp_all add: span_within_def span_slice_def)

lemma exts_at_slices:
  "raw = pre @ concat (map ext_bytes xs) @ post \<Longrightarrow> p = length pre \<Longrightarrow> e \<in> set (exts_at p xs) \<Longrightarrow>
     span_within raw (re_span e) \<and> span_slice raw (re_span e) = ext_bytes (re_id e, re_body e)"
proof (induction p xs arbitrary: pre rule: exts_at.induct)
  case (2 p x xs)
  show ?case
  proof (cases "e \<in> set (exts_at (p + length (snd x) + 4) xs)")
    case True
    have "raw = (pre @ ext_bytes x) @ concat (map ext_bytes xs) @ post"
      using "2.prems"(1) by simp
    from "2.IH" [OF this _ True] "2.prems"(2) show ?thesis by simp
  next
    case False
    with "2.prems"(3) have e: "re_id e = fst x" "re_body e = snd x"
      "re_span e = \<lparr>sp_start = p, sp_len = length (snd x) + 4\<rparr>"
      by auto
    have "raw = pre @ ext_bytes x @ concat (map ext_bytes xs) @ post"
      using "2.prems"(1) by simp
    from span_slice_append [OF this, of "re_span e"] show ?thesis
      by (simp add: e "2.prems"(2))
  qed
qed simp

lemma wire_bytes_ciphers:
  "\<exists>pre post. wire_bytes w = pre @ cipher_bytes w @ post \<and> length pre = ciphers_start w"
  unfolding wire_bytes_def wire_message_def len24_def wire_body_def len16_def [of "cipher_bytes w"]
    len16_def [of "x @ y" for x y] ciphers_start_def
  by (rule exI [of _ "[0x16] @ to_be16 (w_record_version w) @ to_be16 (of_nat (length (wire_message w))) @
      [0x01] @ tl (to_be32 (of_nat (length (wire_body w)))) @ wire_prefix w @
      to_be16 (of_nat (length (cipher_bytes w)))"])
    (simp add: wire_message_def len24_def wire_body_def len16_def)

lemma wire_bytes_exts:
  assumes "w_exts w = Some e"
  shows "\<exists>pre post. wire_bytes w = pre @ concat (map ext_bytes (fst e)) @ post \<and>
    length pre = exts_start w + 2"
  unfolding wire_bytes_def exts_start_def ciphers_start_def
  by (rule exI [of _ "[0x16] @ to_be16 (w_record_version w) @ to_be16 (of_nat (length (wire_message w))) @
      [0x01] @ tl (to_be32 (of_nat (length (wire_body w)))) @ wire_prefix w @
      len16 (cipher_bytes w) @ len8 (w_compression w) @ to_be16 (of_nat (length (exts_block e)))"])
    (simp add: wire_message_def len24_def wire_body_def len16_def assms exts_block_def)

lemma parse_hello_span_slices:
  assumes "parse_hello raw = Inr h"
  shows "span_within raw (rh_cipher_span h)"
    and "span_slice raw (rh_cipher_span h) = concat (map to_be16 (rh_ciphers h))"
    and "e \<in> set (rh_extensions h) \<Longrightarrow>
      span_within raw (re_span e) \<and> span_slice raw (re_span e) = ext_bytes (re_id e, re_body e)"
proof -
  from parse_hello_sound [OF assms] obtain w where w: "raw = wire_bytes w" "h = wire_hello w"
    by blast
  from wire_bytes_ciphers [of w] obtain pre post where
      c: "raw = pre @ cipher_bytes w @ post" "length pre = ciphers_start w"
    by (auto simp: w(1))
  note s = span_slice_append [OF c(1), of "rh_cipher_span h"]
  from s c(2) show "span_within raw (rh_cipher_span h)"
    "span_slice raw (rh_cipher_span h) = concat (map to_be16 (rh_ciphers h))"
    by (simp_all add: w(2) wire_hello_def cipher_bytes_def)
  assume e: "e \<in> set (rh_extensions h)"
  then obtain es where es: "w_exts w = Some es" "e \<in> set (exts_at (exts_start w + 2) (fst es))"
    by (cases "w_exts w") (simp_all add: w(2) wire_hello_def that)
  from wire_bytes_exts [OF es(1)] obtain pre post where
      "raw = pre @ concat (map ext_bytes (fst es)) @ post" "length pre = exts_start w + 2"
    by (auto simp: w(1))
  with exts_at_slices [of raw pre "fst es" post "exts_start w + 2" e] es(2)
  show "span_within raw (re_span e) \<and> span_slice raw (re_span e) = ext_bytes (re_id e, re_body e)"
    by simp
qed

section \<open>Properties\<close>

text \<open>A small message of the format: two cipher suites, one of them GREASE, and two extensions.\<close>

definition sample_wire :: wire where
  "sample_wire =
     \<lparr>w_record_version = 0x0301, w_version = 0x0303, w_random = replicate 32 7, w_session = [1, 2],
      w_ciphers = [0x1a1a, 0x1301], w_compression = [0],
      w_exts = Some ([(0x0000, [0, 0]), (0x2a2a, [])], [9]), w_body_tail = [], w_record_tail = [],
      w_tail = [0xff]\<rparr>"

lemma sample_wire_wf: "wire_wf sample_wire" "length (wire_bytes sample_wire) \<le> usize_max"
  by code_simp+

lemma sample_wire_hello:
  "parse_hello (wire_bytes sample_wire) = Inr (wire_hello sample_wire)"
  by (rule parse_hello_complete [OF sample_wire_wf])

text \<open>
  C1. The ClientHello parser accepts exactly the messages of the wire format, and reports for
  each of them the fields it was written from, with their spans; every other input, however
  malformed, is an error.
\<close>

theorem parse_hello_iff:
  assumes "length raw \<le> usize_max"
  shows "parse_hello raw = Inr h \<longleftrightarrow> (\<exists>w. wire_wf w \<and> raw = wire_bytes w \<and> h = wire_hello w)"
  using assms parse_hello_sound parse_hello_complete by blast

lemma parse_hello_iff_witness:
  "length (wire_bytes sample_wire) \<le> usize_max \<and>
   parse_hello (wire_bytes sample_wire) = Inr (wire_hello sample_wire)"
  using parse_hello_iff [OF sample_wire_wf(2), of "wire_hello sample_wire"] sample_wire_wf by blast



end
