(* ===== verification/Hpack_Integer.thy ===== *)
theory Hpack_Integer
  imports Fpd_Prelude
begin

text \<open>
  The HPACK errors of \<open>fingerprint-h2/src/hpack/mod.rs\<close> and the prefix integers of
  \<open>hpack/integer.rs\<close> and \<open>encode.rs\<close>. A \<open>u64\<close> is a natural number with the two places
  that can leave its range written out: \<open>checked_shl\<close> and \<open>checked_add\<close>. The lemmas give the
  exact value a run returns, the bound on the octets it reads, and when encoding and decoding
  are inverse.
\<close>

unbundle bit_operations_syntax

datatype hpack_error = HTruncated | BadInteger | BadHuffman | BadIndex nat

definition checked_shl_u64 :: "nat \<Rightarrow> nat \<Rightarrow> nat option" where
  "checked_shl_u64 x s = (if s < 64 then Some (x * 2 ^ s mod 2 ^ 64) else None)"

definition checked_add_u64 :: "nat \<Rightarrow> nat \<Rightarrow> nat option" where
  "checked_add_u64 a b = (if a + b < 2 ^ 64 then Some (a + b) else None)"

function int_loop :: "bytes \<Rightarrow> nat \<Rightarrow> nat \<Rightarrow> nat \<Rightarrow> hpack_error + nat \<times> nat" where
  "int_loop buf value shift consumed =
     (if consumed < length buf then
        let byte = buf ! consumed in
        if 63 \<le> shift then Inl BadInteger else
        try_res (ok_or BadInteger (checked_shl_u64 (unat (byte AND 0x7f)) shift)) (\<lambda>add.
        try_res (ok_or BadInteger (checked_add_u64 value add)) (\<lambda>value.
        if byte AND 0x80 = 0 then Inr (value, consumed + 1)
        else int_loop buf value (shift + 7) (consumed + 1)))
      else Inl HTruncated)"
  by pat_completeness auto
termination
  by (relation "measure (\<lambda>(buf, v, s, c). length buf - c)") auto

declare int_loop.simps [simp del]

definition int_decode :: "bytes \<Rightarrow> nat \<Rightarrow> hpack_error + nat \<times> nat" where
  "int_decode buf prefix_bits =
     (if prefix_bits = 0 \<or> 8 < prefix_bits then Inl BadInteger else
      let mask = 2 ^ prefix_bits - 1 in
      try_res (ok_or HTruncated (get_at buf 0)) (\<lambda>b.
      let value = unat (b AND of_nat mask) in
      if value < mask then Inr (value, 1) else int_loop buf value 0 1))"

text \<open>\<open>encode_integer\<close> of \<open>encode.rs\<close>; \<open>as u8\<close> keeps the low eight bits.\<close>

function int_octets :: "nat \<Rightarrow> bytes" where
  "int_octets rest =
     (if 128 \<le> rest then (of_nat (rest mod 128) OR 0x80) # int_octets (rest div 128)
      else [of_nat rest])"
  by pat_completeness auto
termination
  by (relation "measure id") auto

declare int_octets.simps [simp del]

definition encode_integer :: "nat \<Rightarrow> nat \<Rightarrow> u8 \<Rightarrow> bytes" where
  "encode_integer value prefix_bits prefix_value =
     (let max = 2 ^ prefix_bits - 1 in
      if value < max then [prefix_value OR of_nat value]
      else (prefix_value OR of_nat max) # int_octets (value - max))"

section \<open>Octets as numbers\<close>

lemma octet_low: "unat ((b :: u8) AND 0x7f) = unat b mod 128"
proof -
  have "b AND 0x7f = take_bit 7 b"
    by (simp add: take_bit_eq_mask mask_eq_exp_minus_1)
  then have "unat (b AND 0x7f) = take_bit 7 (unat b)"
    by (simp only: unsigned_take_bit_eq)
  then show ?thesis
    by (simp add: take_bit_eq_mod)
qed

lemma octet_top: "(b :: u8) AND 0x80 = 0 \<longleftrightarrow> unat b < 128"
proof -
  have "(0x80 :: u8) = push_bit 7 1" by simp
  then have "b AND 0x80 = 0 \<longleftrightarrow> \<not> bit b 7"
    by (simp only: and_exp_eq_0_iff_not_bit push_bit_of_1)
  also have "bit b 7 \<longleftrightarrow> odd (unat b div 128)"
    using bit_iff_odd [of "unat b" 7] by (simp add: bit_unsigned_iff)
  also have "\<dots> \<longleftrightarrow> \<not> unat b < 128"
  proof -
    have "unat b div 128 < 2"
      using unat_u8_bound [of b] by simp
    then have "unat b div 128 = 0 \<or> unat b div 128 = 1" by linarith
    then show ?thesis by auto
  qed
  finally show ?thesis by simp
qed

lemma octet_cont:
  assumes "r < 128"
  shows "unat ((of_nat r OR 0x80 :: u8) AND 0x7f) = r" and "(of_nat r OR 0x80 :: u8) AND 0x80 \<noteq> 0"
proof -
  have "(of_nat r OR 0x80 :: u8) AND 0x7f = of_nat r AND 0x7f"
    by (simp add: bit.conj_disj_distrib2)
  moreover have "unat (of_nat r :: u8) = r"
    using assms by (simp add: unat_of_nat)
  ultimately show "unat ((of_nat r OR 0x80 :: u8) AND 0x7f) = r"
    using assms by (simp only: octet_low) simp
  have "(of_nat r OR 0x80 :: u8) AND 0x80 = (of_nat r AND 0x80) OR 0x80"
    by (simp add: bit.conj_disj_distrib2)
  moreover have "bit ((of_nat r AND 0x80 :: u8) OR push_bit 7 1) 7"
    by (simp only: bit_or_iff push_bit_of_1 bit_exp_iff) simp
  ultimately show "(of_nat r OR 0x80 :: u8) AND 0x80 \<noteq> 0"
    by auto
qed

lemma octet_end:
  assumes "r < 128"
  shows "unat ((of_nat r :: u8) AND 0x7f) = r" and "(of_nat r :: u8) AND 0x80 = 0"
  using assms by (simp_all only: octet_low octet_top) (simp_all add: unat_of_nat)

section \<open>The value of the continuation octets\<close>

text \<open>
  \<open>octets_value\<close> reads a run of continuation octets as a number, seven bits each, little
  endian; \<open>octet_run\<close> says that every octet but the last has its top bit set.
\<close>

fun octets_value :: "bytes \<Rightarrow> nat" where
  "octets_value [] = 0"
| "octets_value (b # bs) = unat b mod 128 + 128 * octets_value bs"

fun octet_run :: "bytes \<Rightarrow> bool" where
  "octet_run [] = False"
| "octet_run [b] = (unat b < 128)"
| "octet_run (b # bs) = (128 \<le> unat b \<and> octet_run bs)"

lemma checked_shl_exact:
  assumes "s \<le> 56" and "a < 128"
  shows "checked_shl_u64 a s = Some (a * 2 ^ s)"
proof -
  have "a * 2 ^ s < 128 * 2 ^ s"
    using assms(2) by simp
  also have "(128::nat) * 2 ^ s \<le> 128 * 2 ^ 56"
    using assms(1) by (intro mult_left_mono power_increasing) simp_all
  finally show ?thesis
    using assms(1) by (simp add: checked_shl_u64_def)
qed

lemma int_loop_run:
  assumes "octet_run bs" and "drop c buf = bs @ ys" and "s + 7 * length bs \<le> 63"
    and "v + 2 ^ s * octets_value bs < 2 ^ 64"
  shows "int_loop buf v s c = Inr (v + 2 ^ s * octets_value bs, c + length bs)"
  using assms
proof (induction bs arbitrary: v s c rule: octet_run.induct)
  case (2 b)
  have c: "c < length buf" "buf ! c = b"
    using "2.prems"(2) by (cases "c < length buf"; simp add: Cons_nth_drop_Suc [symmetric])+
  have "checked_shl_u64 (unat (b AND 0x7f)) s = Some (unat b mod 128 * 2 ^ s)"
    unfolding octet_low by (rule checked_shl_exact) (use "2.prems"(3) in simp_all)
  with c "2.prems" show ?case
    by (simp add: int_loop.simps [of buf v s c] Let_def checked_add_u64_def octet_top mult.commute)
next
  case (3 b b' bs)
  have c: "c < length buf" "buf ! c = b"
    using "3.prems"(2) by (cases "c < length buf"; simp add: Cons_nth_drop_Suc [symmetric])+
  then have d: "drop (Suc c) buf = (b' # bs) @ ys"
    using "3.prems"(2) by (simp add: Cons_nth_drop_Suc [symmetric])
  have sh: "checked_shl_u64 (unat (b AND 0x7f)) s = Some (unat b mod 128 * 2 ^ s)"
    unfolding octet_low by (rule checked_shl_exact) (use "3.prems"(3) in simp_all)
  have v: "v + 2 ^ s * octets_value (b # b' # bs) =
      (v + unat b mod 128 * 2 ^ s) + 2 ^ (s + 7) * octets_value (b' # bs)"
    by (simp add: algebra_simps power_add)
  have "int_loop buf (v + unat b mod 128 * 2 ^ s) (s + 7) (Suc c) =
      Inr (v + unat b mod 128 * 2 ^ s + 2 ^ (s + 7) * octets_value (b' # bs),
           Suc c + length (b' # bs))"
    using "3.prems" unfolding v by (intro "3.IH" d) simp_all
  moreover have "v + unat b mod 128 * 2 ^ s < 2 ^ 64"
    using "3.prems"(4) unfolding v by linarith
  ultimately show ?case
    using c sh "3.prems"(1,3) unfolding v
    by (simp add: int_loop.simps [of buf v s c] Let_def checked_add_u64_def octet_top)
qed simp

text \<open>Conversely, a run that succeeds has read such octets, at most nine of them.\<close>

lemma int_loop_sound:
  "int_loop buf v s c = Inr (r, n) \<Longrightarrow> s mod 7 = 0 \<Longrightarrow>
     \<exists>bs ys. octet_run bs \<and> drop c buf = bs @ ys \<and> n = c + length bs \<and>
       s + 7 * (length bs - 1) < 63 \<and> r = v + 2 ^ s * octets_value bs \<and> r < 2 ^ 64"
proof (induction buf v s c rule: int_loop.induct)
  case (1 buf v s c)
  define b where "b = buf ! c"
  from "1.prems" have c: "c < length buf" and s: "s < 63"
    by (auto simp: int_loop.simps [of buf v s c] Let_def split: if_splits)
  then have d: "drop c buf = b # drop (Suc c) buf"
    by (simp add: b_def Cons_nth_drop_Suc)
  have s56: "s \<le> 56"
    using s "1.prems"(2) by presburger
  have sh: "checked_shl_u64 (unat (b AND 0x7f)) s = Some (unat b mod 128 * 2 ^ s)"
    unfolding octet_low by (rule checked_shl_exact) (use s56 in simp_all)
  from "1.prems" c s sh have add: "v + unat b mod 128 * 2 ^ s < 2 ^ 64"
    by (auto simp: int_loop.simps [of buf v s c] Let_def b_def checked_add_u64_def split: if_splits)
  show ?case
  proof (cases "unat b < 128")
    case True
    with "1.prems" c s sh add show ?thesis
      by (intro exI [of _ "[b]"] exI [of _ "drop (Suc c) buf"])
        (simp add: int_loop.simps [of buf v s c] Let_def checked_add_u64_def octet_top d mult.commute
          flip: b_def)
  next
    case False
    with "1.prems" c s sh add have
      rec: "int_loop buf (v + unat b mod 128 * 2 ^ s) (s + 7) (Suc c) = Inr (r, n)"
      by (simp add: int_loop.simps [of buf v s c] Let_def checked_add_u64_def octet_top flip: b_def)
    have "\<exists>bs ys. octet_run bs \<and> drop (c + 1) buf = bs @ ys \<and> n = c + 1 + length bs \<and>
        s + 7 + 7 * (length bs - 1) < 63 \<and>
        r = (v + unat b mod 128 * 2 ^ s) + 2 ^ (s + 7) * octets_value bs \<and> r < 2 ^ 64"
      using c s sh add False rec "1.prems"(2)
      by (intro "1.IH" [of b "unat b mod 128 * 2 ^ s"])
        (simp_all add: b_def [symmetric] checked_add_u64_def octet_top)
    then obtain bs ys where ih: "octet_run bs" "drop (Suc c) buf = bs @ ys"
        "n = c + 1 + length bs" "s + 7 + 7 * (length bs - 1) < 63"
        "r = (v + unat b mod 128 * 2 ^ s) + 2 ^ (s + 7) * octets_value bs" "r < 2 ^ 64"
      by auto
    then obtain b' bs' where bs: "bs = b' # bs'" by (cases bs) auto
    show ?thesis
      using False ih
      by (intro exI [of _ "b # bs"] exI [of _ ys]) (simp add: bs d algebra_simps power_add)
  qed
qed

lemma int_decode_Cons:
  assumes "0 < n" and "n \<le> 8" and "m = 2 ^ n - 1"
  shows "int_decode (b # bs) n =
    (if unat (b AND of_nat m) < m then Inr (unat (b AND of_nat m), 1)
     else int_loop (b # bs) (unat (b AND of_nat m)) 0 1)"
  unfolding int_decode_def Let_def assms(3) using assms(1,2) by simp

lemma int_decode_sound:
  assumes "int_decode buf n = Inr (v, c)"
  shows "1 \<le> c \<and> c \<le> length buf \<and> c \<le> 10 \<and> v < 2 ^ 64 \<and>
    (if c = 1 then v = unat (buf ! 0 AND of_nat (2 ^ n - 1)) \<and> v < 2 ^ n - 1
     else octet_run (take (c - 1) (drop 1 buf)) \<and>
       v = 2 ^ n - 1 + octets_value (take (c - 1) (drop 1 buf)))"
proof -
  have n: "0 < n" "n \<le> 8"
    using assms by (auto simp: int_decode_def split: if_splits)
  then have n8: "(2::nat) ^ n \<le> 2 ^ 8"
    by (intro power_increasing) simp_all
  define m where "m = (2::nat) ^ n - 1"
  define v0 where "v0 = unat (buf ! 0 AND of_nat m)"
  have m: "m < 256"
    using n8 by (simp add: m_def)
  obtain b0 bs0 where b: "buf = b0 # bs0"
    using assms n by (cases buf) (auto simp: int_decode_def Let_def)
  note dec = assms [unfolded b int_decode_Cons [OF n m_def]]
  have "v0 \<le> unat (of_nat m :: u8)"
    unfolding v0_def using word_and_le1 by (simp only: word_le_nat_alt [symmetric])
  then have v0: "v0 \<le> m"
    using m by (simp add: unat_of_nat)
  show ?thesis
  proof (cases "v0 < m")
    case True
    then have "v = v0" "c = 1"
      using dec by (simp_all add: v0_def b)
    then show ?thesis
      using True b m by (auto simp: v0_def m_def)
  next
    case False
    with v0 have e: "v0 = m" by simp
    have l: "int_loop buf m 0 1 = Inr (v, c)"
      using dec e by (simp add: v0_def b)
    from int_loop_sound [OF l] obtain bs ys where
        bs: "octet_run bs" "drop 1 buf = bs @ ys" "c = 1 + length bs"
          "7 * (length bs - 1) < 63" "v = m + octets_value bs" "v < 2 ^ 64"
      by auto
    then have "bs \<noteq> []" "length bs \<le> 9" "length bs0 = length bs + length ys"
      using arg_cong [OF bs(2), of length] by (auto simp: b)
    with bs b show ?thesis
      by (auto simp: m_def)
  qed
qed

section \<open>Encoding\<close>

lemma octets_of_int: "octet_run (int_octets r) \<and> octets_value (int_octets r) = r"
proof (induction r rule: int_octets.induct)
  case (1 r)
  show ?case
  proof (cases "128 \<le> r")
    case True
    note c = octet_cont [of "r mod 128"]
    from True 1 obtain x xs where x: "int_octets (r div 128) = x # xs"
      by (cases "int_octets (r div 128)") auto
    have "128 \<le> unat (of_nat (r mod 128) OR 0x80 :: u8)"
      using c(2) by (simp only: octet_top not_less mod_less_divisor zero_less_numeral)
    moreover have "unat (of_nat (r mod 128) OR 0x80 :: u8) mod 128 = r mod 128"
      using c(1) by (simp only: octet_low mod_less_divisor zero_less_numeral)
    ultimately show ?thesis
      using True 1 x by (simp add: int_octets.simps [of r])
  next
    case False
    then show ?thesis
      by (simp add: int_octets.simps [of r] unat_of_nat)
  qed
qed

lemma length_int_octets: "r < 128 ^ Suc k \<Longrightarrow> length (int_octets r) \<le> Suc k"
proof (induction k arbitrary: r)
  case 0
  then show ?case by (simp add: int_octets.simps [of r])
next
  case (Suc k)
  have "r div 128 < 128 ^ Suc k"
    using Suc.prems by (simp add: less_mult_imp_div_less mult.commute)
  from Suc.IH [OF this] show ?case
    by (simp add: int_octets.simps [of r])
qed

lemma length_int_octets_ge: "128 ^ k \<le> r \<Longrightarrow> Suc k \<le> length (int_octets r)"
proof (induction k arbitrary: r)
  case 0
  then show ?case by (simp add: int_octets.simps [of r])
next
  case (Suc k)
  have "128 ^ Suc k div 128 \<le> r div 128"
    using Suc.prems by (rule div_le_mono)
  then have "128 ^ k \<le> r div 128" by simp
  moreover have "128 \<le> r"
  proof -
    have "(128::nat) * 1 \<le> 128 * 128 ^ k"
      by (intro mult_left_mono one_le_power) simp_all
    with Suc.prems show ?thesis unfolding power_Suc by linarith
  qed
  ultimately show ?case
    using Suc.IH [of "r div 128"] by (simp add: int_octets.simps [of r])
qed


lemma octet_run_unique: "octet_run a \<Longrightarrow> octet_run b \<Longrightarrow> a @ x = b @ y \<Longrightarrow> a = b"
proof (induction a arbitrary: b rule: octet_run.induct)
  case (2 a)
  then show ?case by (cases b rule: octet_run.cases) auto
next
  case (3 a a' as)
  from 3 obtain b' bs where "b = a # b' # bs" "octet_run (b' # bs)"
    by (cases b rule: octet_run.cases) auto
  with 3 show ?case by auto
qed simp

lemma prefix_octet:
  assumes "0 < n" and "n \<le> 8" and "take_bit n (p :: u8) = 0" and "w < 2 ^ n"
  shows "unat ((p OR of_nat w) AND of_nat (2 ^ n - 1)) = w"
proof -
  have m: "(of_nat (2 ^ n - 1) :: u8) = mask n"
    by (simp add: mask_eq_exp_minus_1 of_nat_diff)
  have "(2::nat) ^ n \<le> 2 ^ 8"
    using assms(2) by (intro power_increasing) simp_all
  with assms(4) have w: "unat (of_nat w :: u8) = w"
    by (simp add: unat_of_nat)
  have "take_bit n (p OR of_nat w) = take_bit n (of_nat w)"
    using assms(3) by simp
  then have "unat ((p OR of_nat w) AND of_nat (2 ^ n - 1)) = take_bit n (unat (of_nat w :: u8))"
    by (simp only: m take_bit_eq_mask [symmetric] unsigned_take_bit_eq [symmetric])
  then show ?thesis
    using assms(4) unfolding w by (simp add: take_bit_nat_eq_self)
qed

lemma int_decode_encode:
  assumes "0 < n" and "n \<le> 8" and "take_bit n p = 0" and "v - (2 ^ n - 1) < 2 ^ 63"
  shows "int_decode (encode_integer v n p @ ys) n = Inr (v, length (encode_integer v n p))"
proof (cases "v < 2 ^ n - 1")
  case True
  then have "v < 2 ^ n" by simp
  from prefix_octet [OF assms(1-3) this] True assms(1,2) show ?thesis
    by (simp add: int_decode_def encode_integer_def Let_def)
next
  case False
  define m where "m = (2::nat) ^ n - 1"
  have "m < 2 ^ n" by (simp add: m_def)
  note o = prefix_octet [OF assms(1-3) this, folded m_def]
  define bs where "bs = int_octets (v - m)"
  have bs: "octet_run bs" "octets_value bs = v - m"
    using octets_of_int by (simp_all add: bs_def)
  have "v - m < 128 ^ Suc 8"
    using assms(4) by (simp add: m_def)
  from length_int_octets [OF this] have l: "length bs \<le> 9"
    by (simp add: bs_def)
  have "m < 256"
    using power_increasing [of n 8 "2::nat"] assms(2) by (simp add: m_def)
  moreover have "v - m < 2 ^ 63"
    using assms(4) by (simp only: m_def)
  ultimately have "int_loop ((p OR of_nat m) # bs @ ys) m 0 1 = Inr (m + 2 ^ 0 * octets_value bs, 1 + length bs)"
    using bs l by (intro int_loop_run [OF bs(1)]) simp_all
  moreover have "m \<le> v" and enc: "encode_integer v n p = (p OR of_nat m) # bs"
    using False by (simp_all add: encode_integer_def Let_def bs_def m_def)
  ultimately show ?thesis
    using o bs(2) unfolding enc append_Cons int_decode_Cons [OF assms(1,2) m_def] by simp
qed

lemma int_decode_encode_large:
  assumes "0 < n" and "n \<le> 8" and "take_bit n p = 0" and "2 ^ 63 \<le> v - (2 ^ n - 1)"
  shows "\<exists>e. int_decode (encode_integer v n p @ ys) n = Inl e"
proof (rule ccontr)
  define m where "m = (2::nat) ^ n - 1"
  define bs where "bs = int_octets (v - m)"
  have "m < 2 ^ n" by (simp add: m_def)
  note o = prefix_octet [OF assms(1-3) this, folded m_def]
  have v: "\<not> v < m"
    using assms(4) by (auto simp: m_def)
  have enc: "encode_integer v n p = (p OR of_nat m) # bs"
    using v by (simp add: encode_integer_def Let_def bs_def m_def)
  assume "\<not> ?thesis"
  then obtain w c where d: "int_decode (encode_integer v n p @ ys) n = Inr (w, c)"
    by (cases "int_decode (encode_integer v n p @ ys) n") auto
  then have s: "int_loop ((p OR of_nat m) # bs @ ys) m 0 1 = Inr (w, c)"
    using o unfolding enc append_Cons int_decode_Cons [OF assms(1,2) m_def] by simp
  from int_loop_sound [OF s] obtain cs zs where cs: "octet_run cs" "bs @ ys = cs @ zs"
      "7 * (length cs - 1) < 63"
    by auto
  have "octet_run bs"
    using octets_of_int by (simp add: bs_def)
  from octet_run_unique [OF this cs(1,2)] have "length bs \<le> 9"
    using cs(3) by simp
  moreover have "128 ^ 9 \<le> v - m"
    using assms(4) by (simp add: m_def)
  then have "10 \<le> length bs"
    using length_int_octets_ge [of 9 "v - m"] by (simp add: bs_def)
  ultimately show False by simp
qed

section \<open>Properties\<close>

text \<open>
  The integer decoder is exact: an accepted value is the prefix, or the prefix mask plus the
  seven-bit groups of a run of continuation octets, it fits 64 bits, and the count returned is
  the number of octets read, at most ten and never past the end.
\<close>

theorem int_decode_exact:
  assumes "int_decode buf n = Inr (v, c)"
  shows "1 \<le> c \<and> c \<le> length buf \<and> c \<le> 10 \<and> v < 2 ^ 64 \<and>
    (if c = 1 then v = unat (buf ! 0 AND of_nat (2 ^ n - 1)) \<and> v < 2 ^ n - 1
     else octet_run (take (c - 1) (drop 1 buf)) \<and>
       v = 2 ^ n - 1 + octets_value (take (c - 1) (drop 1 buf)))"
  by (rule int_decode_sound [OF assms])

lemma sample_integer: "int_decode [0x1f, 0x9a, 0x0a, 0x77] 5 = Inr (1337, 3)"
  by code_simp

lemma int_decode_exact_witness:
  "(1337 :: nat) = 2 ^ 5 - 1 + octets_value (take 2 (drop 1 [0x1f, 0x9a, 0x0a, 0x77]))"
  using int_decode_exact [OF sample_integer] by simp



end
