(* ===== verification/H2_Frame.thy ===== *)
theory H2_Frame
  imports Hello_Wire Hpack_Integer
begin

text \<open>
  The HTTP/2 connection preface and frame walk, \<open>fingerprint-h2/src/frame.rs\<close>. As for the
  ClientHello, the accepted language is written as an encoder, \<open>preamble_bytes\<close>, and the
  walk is shown to accept exactly what it writes.
\<close>

unbundle bit_operations_syntax

datatype h2_error = NoPreface | H2_Truncated

record frame =
  fr_kind :: u8
  fr_flags :: u8
  fr_stream_id :: u32
  fr_payload :: bytes

text \<open>\<open>b"PRI * HTTP/2.0\r\n\r\nSM\r\n\r\n"\<close>.\<close>

definition PREFACE :: bytes where
  "PREFACE = [0x50, 0x52, 0x49, 0x20, 0x2a, 0x20, 0x48, 0x54, 0x54, 0x50, 0x2f, 0x32, 0x2e, 0x30,
              0x0d, 0x0a, 0x0d, 0x0a, 0x53, 0x4d, 0x0d, 0x0a, 0x0d, 0x0a]"

definition FRAME_DATA :: u8 where "FRAME_DATA = 0x0"
definition FRAME_HEADERS :: u8 where "FRAME_HEADERS = 0x1"
definition FRAME_PRIORITY :: u8 where "FRAME_PRIORITY = 0x2"
definition FRAME_SETTINGS :: u8 where "FRAME_SETTINGS = 0x4"
definition FRAME_WINDOW_UPDATE :: u8 where "FRAME_WINDOW_UPDATE = 0x8"

lemmas frame_kinds = FRAME_DATA_def FRAME_HEADERS_def FRAME_PRIORITY_def FRAME_SETTINGS_def
  FRAME_WINDOW_UPDATE_def

text \<open>\<open>impl From<ParseError> for H2Error\<close>, which \<open>?\<close> applies to every read.\<close>

definition h2_from_parse :: "parse_error \<Rightarrow> h2_error" where
  "h2_from_parse _ = H2_Truncated"

abbreviation read_h2 :: "parse_error + 'a \<Rightarrow> h2_error + 'a" where
  "read_h2 m \<equiv> map_err h2_from_parse m"

text \<open>One turn of the loop: the nine-byte header and the payload.\<close>

definition read_frame :: "reader \<Rightarrow> h2_error + frame \<times> reader" where
  "read_frame r =
     try_res (read_h2 (read_u24 r)) (\<lambda>(len, r).
     try_res (read_h2 (read_u8 r)) (\<lambda>(kind, r).
     try_res (read_h2 (read_u8 r)) (\<lambda>(flags, r).
     try_res (read_h2 (take_bytes 4 r)) (\<lambda>(sid, r).
     try_res (ok_or H2_Truncated (get_at sid 0)) (\<lambda>s0.
     try_res (ok_or H2_Truncated (get_at sid 1)) (\<lambda>s1.
     try_res (ok_or H2_Truncated (get_at sid 2)) (\<lambda>s2.
     try_res (ok_or H2_Truncated (get_at sid 3)) (\<lambda>s3.
     try_res (read_h2 (take_bytes (unat len) r)) (\<lambda>(payload, r).
     Inr (\<lparr>fr_kind = kind, fr_flags = flags, fr_stream_id = be32 (s0 AND 0x7f) s1 s2 s3,
           fr_payload = payload\<rparr>, r))))))))))"

lemma read_frame_remaining: "read_frame r = Inr (f, r') \<Longrightarrow> remaining r' < remaining r"
  by (auto simp: read_frame_def res_simps dest!: read_sound)

function frame_walk :: "reader \<Rightarrow> h2_error + frame list" where
  "frame_walk r =
     (if 9 \<le> remaining r then
        try_res (read_frame r) (\<lambda>(f, r').
        if fr_kind f = FRAME_HEADERS then Inr [f]
        else try_res (frame_walk r') (\<lambda>fs. Inr (f # fs)))
      else Inr [])"
  by pat_completeness auto
termination
  by (relation "measure remaining") (auto dest: read_frame_remaining)

declare frame_walk.simps [simp del]

definition parse_preamble :: "bytes \<Rightarrow> h2_error + frame list" where
  "parse_preamble raw =
     try_res (read_h2 (take_bytes (length PREFACE) (reader_new raw))) (\<lambda>(b, r).
     if b \<noteq> PREFACE then Inl NoPreface else frame_walk r)"

section \<open>The wire format\<close>

text \<open>A frame as it travels; \<open>rb\<close> is the reserved bit of the stream id, \<open>0\<close> or \<open>0x80\<close>.\<close>

definition frame_bytes :: "u8 \<times> frame \<Rightarrow> bytes" where
  "frame_bytes x =
     (case x of (rb, f) \<Rightarrow>
        tl (to_be32 (of_nat (length (fr_payload f)))) @ [fr_kind f, fr_flags f]
        @ [hd (to_be32 (fr_stream_id f)) OR rb] @ tl (to_be32 (fr_stream_id f)) @ fr_payload f)"

definition frame_wf :: "u8 \<times> frame \<Rightarrow> bool" where
  "frame_wf x \<longleftrightarrow>
     (fst x = 0 \<or> fst x = 0x80) \<and> length (fr_payload (snd x)) < 16777216 \<and>
     unat (fr_stream_id (snd x)) < 2147483648"

text \<open>The frames the walk returns: HEADERS can only come last, and ends the walk.\<close>

fun walk_ends :: "frame list \<Rightarrow> bytes \<Rightarrow> bool" where
  "walk_ends [] rest = (length rest < 9)"
| "walk_ends [f] rest = (fr_kind f = FRAME_HEADERS \<or> length rest < 9)"
| "walk_ends (f # fs) rest = (fr_kind f \<noteq> FRAME_HEADERS \<and> walk_ends fs rest)"

lemma to_be32_cases:
  obtains a b c d where "to_be32 v = [a, b, c, d]" and "v = be32 a b c d"
  by (rule that [OF to_be32_def]) simp

lemma quad_small:
  fixes p q r s :: int
  assumes "0 \<le> q" "q < 256" "0 \<le> r" "r < 256" "0 \<le> s" "s < 256"
  shows "((p * 256 + q) * 256 + r) * 256 + s < 2147483648 \<longleftrightarrow> p < 128"
proof -
  have e: "((p * 256 + q) * 256 + r) * 256 + s = 16777216 * p + 65536 * q + 256 * r + s"
    by algebra
  show ?thesis
    unfolding e using assms by linarith
qed

lemma be32_small: "unat (be32 a b c d) < 2147483648 \<longleftrightarrow> a AND 0x7f = a"
proof -
  have u: "uint (be32 a b c d) = ((uint a * 256 + uint b) * 256 + uint c) * 256 + uint d"
    by (rule uint_be32)
  have "unat (be32 a b c d) < 2147483648 \<longleftrightarrow> uint (be32 a b c d) < 2147483648"
    by (rule unat_less_uint)
  also have "\<dots> \<longleftrightarrow> uint a < 128"
    unfolding u by (rule quad_small) (rule uint_u8_bounds)+
  also have "\<dots> \<longleftrightarrow> unat a < 128"
    by (rule unat_less_uint [symmetric])
  also have "\<dots> \<longleftrightarrow> unat (a AND 0x7f) = unat a"
    unfolding octet_low by (metis mod_less mod_less_divisor zero_less_numeral)
  also have "\<dots> \<longleftrightarrow> a AND 0x7f = a"
    by (simp only: word_unat_eq_iff)
  finally show ?thesis .
qed

lemma octet_split: "(x :: u8) = (x AND 0x7f) OR (x AND 0x80)"
proof -
  have "(x AND 0x7f) OR (x AND 0x80) = x AND (0x7f OR 0x80)"
    by (simp only: bit.conj_disj_distrib)
  also have "(0x7f OR 0x80 :: u8) = - 1"
    by code_simp
  finally show ?thesis by (simp only: and.right_neutral)
qed

lemma octet_top_cases: "(x :: u8) AND 0x80 = 0 \<or> x AND 0x80 = 0x80"
proof -
  have "x AND 2 ^ 7 = (if bit x 7 then 2 ^ 7 else 0)"
  proof (rule bit_word_eqI)
    fix n
    show "bit (x AND 2 ^ 7) n = bit (if bit x 7 then 2 ^ 7 else 0 :: u8) n"
      by (cases "bit x 7"; cases "n = 7")
        (simp_all only: bit_and_iff if_True if_False bit_exp_iff, simp_all)
  qed
  then show ?thesis by (simp split: if_splits)
qed


section \<open>The walk reads what the format writes\<close>

lemma sid_bytes:
  assumes "rb = 0 \<or> rb = 0x80" and "unat v < 2147483648" and "to_be32 v = [a, b, c, d]"
  shows "be32 ((a OR rb) AND 0x7f) b c d = v"
proof -
  from assms(3) have v: "v = be32 a b c d"
    using to_be32_cases [of v] by (metis list.inject)
  have "rb AND 0x7f = 0" using assms(1) by auto
  then have "(a OR rb) AND 0x7f = a AND 0x7f"
    by (simp only: bit.conj_disj_distrib2) simp
  also have "\<dots> = a"
    using assms(2) by (simp only: v be32_small)
  finally show ?thesis by (simp only: v)
qed

lemma read_frame_complete:
  assumes "frame_wf x" and "reader_wf r" and "unread r = frame_bytes x @ ys"
  shows "\<exists>r'. read_frame r = Inr (snd x, r') \<and> unread r' = ys \<and> reader_wf r'"
proof -
  obtain rb f where x: "x = (rb, f)" by (cases x)
  from assms(1) have wf: "rb = 0 \<or> rb = 0x80" "length (fr_payload f) < 16777216"
    "unat (fr_stream_id f) < 2147483648"
    by (simp_all add: frame_wf_def x)
  obtain a b c d where sid: "to_be32 (fr_stream_id f) = [a, b, c, d]"
    by (rule to_be32_cases)
  let ?rest = "fr_kind f # fr_flags f # [a OR rb, b, c, d] @ fr_payload f @ ys"
  have "unread r = tl (to_be32 (of_nat (length (fr_payload f)))) @ ?rest"
    using assms(3) by (simp add: frame_bytes_def x sid)
  from read_be24 [OF assms(2) this] have s1:
      "read_u24 r = Inr (of_nat (length (fr_payload f)), advance 3 r)"
      "unread (advance 3 r) = ?rest" "reader_wf (advance 3 r)"
      "unat (of_nat (length (fr_payload f)) :: u32) = length (fr_payload f)"
    using wf(2) by (simp_all add: unat_of_nat)
  note s2 = read_u8_Cons [OF s1(3,2)]
  note s3 = read_u8_Cons [OF s2(3,2)]
  have l: "length [a OR rb, b, c, d] = 4" by simp
  note s4 = take_bytes_append [OF s3(3,2), unfolded l]
  note s5 = take_bytes_append [OF s4(3,2)]
  have "read_frame r = Inr (f, advance (length (fr_payload f)) (advance 4 (advance 1 (advance 1 (advance 3 r)))))"
    using s2(1) s3(1) s4(1) s5(1)
    by (simp add: read_frame_def s1(1,4) sid_bytes [OF wf(1,3) sid] get_at_def
        del: advance_simps(3,4) One_nat_def)
  with s5(2,3) show ?thesis
    unfolding x snd_conv by blast
qed


lemma frame_walk_complete:
  "list_all frame_wf xs \<Longrightarrow> reader_wf r \<Longrightarrow> unread r = concat (map frame_bytes xs) @ rest \<Longrightarrow>
     walk_ends (map snd xs) rest \<Longrightarrow> frame_walk r = Inr (map snd xs)"
proof (induction xs arbitrary: r)
  case Nil
  then have "remaining r < 9"
    using length_unread [of r] by simp
  then show ?case by (simp add: frame_walk.simps [of r])
next
  case (Cons x xs)
  have "unread r = frame_bytes x @ concat (map frame_bytes xs) @ rest"
    using Cons.prems(3) by simp
  from read_frame_complete [OF _ Cons.prems(2) this] Cons.prems(1) obtain r' where
      r': "read_frame r = Inr (snd x, r')" "unread r' = concat (map frame_bytes xs) @ rest" "reader_wf r'"
    by auto
  have "9 \<le> length (frame_bytes x)"
    by (cases x) (simp add: frame_bytes_def)
  then have ge: "9 \<le> remaining r"
    using Cons.prems(3) length_unread [of r] by simp
  show ?case
  proof (cases "fr_kind (snd x) = FRAME_HEADERS")
    case True
    with Cons.prems(4) have "xs = []" by (cases xs) simp_all
    with True r' ge show ?thesis by (simp add: frame_walk.simps [of r])
  next
    case False
    with Cons.prems(4) have "walk_ends (map snd xs) rest"
      by (cases xs) simp_all
    with Cons.IH [OF _ r'(3,2)] Cons.prems(1) False r'(1) ge show ?thesis
      by (simp add: frame_walk.simps [of r])
  qed
qed

lemma read_frame_sound:
  assumes "read_frame r = Inr (f, r')"
  shows "\<exists>rb. frame_wf (rb, f) \<and> unread r = frame_bytes (rb, f) @ unread r'"
proof -
  from assms obtain len r1 kind r2 flags r3 sid r4 s0 s1 s2 s3 payload where
      r: "read_u24 r = Inr (len, r1)" "read_u8 r1 = Inr (kind, r2)" "read_u8 r2 = Inr (flags, r3)"
        "take_bytes 4 r3 = Inr (sid, r4)" "get_at sid 0 = Some s0" "get_at sid 1 = Some s1"
        "get_at sid 2 = Some s2" "get_at sid 3 = Some s3" "take_bytes (unat len) r4 = Inr (payload, r')"
    and f: "f = \<lparr>fr_kind = kind, fr_flags = flags, fr_stream_id = be32 (s0 AND 0x7f) s1 s2 s3,
                fr_payload = payload\<rparr>"
    by (auto simp: read_frame_def res_simps)
  note i1 = read_u24_inv [OF r(1)] and i2 = read_u8_inv [OF r(2)] and i3 = read_u8_inv [OF r(3)]
    and i4 = take_bytes_inv [OF r(4)] and i5 = take_bytes_inv [OF r(9)]
  have sid: "sid = [s0, s1, s2, s3]"
    using r(5-8) i4(2) by (intro nth_equalityI) (auto simp: get_at_def less_Suc_eq numeral_eq_Suc split: if_splits)
  have len: "of_nat (length payload) = len"
    using i5(2) by simp
  have "(s0 AND 0x7f) AND 0x7f = s0 AND 0x7f"
    by (simp add: and.assoc)
  then have "frame_wf (s0 AND 0x80, f)"
    using i1(4) i5(2) octet_top_cases [of s0] by (simp add: frame_wf_def f be32_small)
  moreover have "unread r = frame_bytes (s0 AND 0x80, f) @ unread r'"
    by (simp add: frame_bytes_def f to_be32_be32 len i1(1) i2(1) i3(1) i4(1) i5(1) sid
        octet_split [symmetric])
  ultimately show ?thesis by blast
qed

lemma frame_walk_sound:
  "frame_walk r = Inr fs \<Longrightarrow>
     \<exists>xs rest. list_all frame_wf xs \<and> unread r = concat (map frame_bytes xs) @ rest \<and>
       walk_ends (map snd xs) rest \<and> fs = map snd xs"
proof (induction r arbitrary: fs rule: frame_walk.induct)
  case (1 r)
  show ?case
  proof (cases "9 \<le> remaining r")
    case False
    with "1.prems" show ?thesis
      by (intro exI [of _ "[]"] exI [of _ "unread r"]) (simp add: frame_walk.simps [of r])
  next
    case True
    with "1.prems" obtain f r' where f: "read_frame r = Inr (f, r')"
      and w: "(if fr_kind f = FRAME_HEADERS then Inr [f]
               else try_res (frame_walk r') (\<lambda>fs. Inr (f # fs))) = Inr fs"
      by (auto simp: frame_walk.simps [of r] try_res_Inr split del: if_split)
    from read_frame_sound [OF f] obtain rb where
        x: "frame_wf (rb, f)" "unread r = frame_bytes (rb, f) @ unread r'" by blast
    show ?thesis
    proof (cases "fr_kind f = FRAME_HEADERS")
      case True
      with w have "fs = [f]" by simp
      with True x show ?thesis
        by (intro exI [of _ "[(rb, f)]"] exI [of _ "unread r'"]) simp
    next
      case False
      with w obtain gs where gs: "frame_walk r' = Inr gs" "fs = f # gs"
        by (auto simp: res_simps)
      from "1.IH" [OF True f refl False gs(1)] obtain xs rest where
          ih: "list_all frame_wf xs" "unread r' = concat (map frame_bytes xs) @ rest"
            "walk_ends (map snd xs) rest" "gs = map snd xs"
        by blast
      have "walk_ends (map snd ((rb, f) # xs)) rest"
        using ih(3) False by (cases xs) simp_all
      with ih x gs show ?thesis
        by (intro exI [of _ "(rb, f) # xs"] exI [of _ rest]) simp
    qed
  qed
qed

lemma parse_preamble_complete:
  assumes "list_all frame_wf xs" and "walk_ends (map snd xs) rest"
    and "length (PREFACE @ concat (map frame_bytes xs) @ rest) \<le> usize_max"
  shows "parse_preamble (PREFACE @ concat (map frame_bytes xs) @ rest) = Inr (map snd xs)"
proof -
  let ?r = "reader_new (PREFACE @ concat (map frame_bytes xs) @ rest)"
  have "reader_wf ?r" using assms(3) by (rule reader_wf_new)
  from take_bytes_append [OF this] have t: "take_bytes (length PREFACE) ?r = Inr (PREFACE, advance (length PREFACE) ?r)"
    "unread (advance (length PREFACE) ?r) = concat (map frame_bytes xs) @ rest"
    "reader_wf (advance (length PREFACE) ?r)"
    by simp_all
  from frame_walk_complete [OF assms(1) t(3,2) assms(2)] show ?thesis
    by (simp only: parse_preamble_def t(1)) simp
qed

lemma parse_preamble_sound:
  assumes "parse_preamble raw = Inr fs"
  shows "\<exists>xs rest. list_all frame_wf xs \<and> walk_ends (map snd xs) rest \<and>
    raw = PREFACE @ concat (map frame_bytes xs) @ rest \<and> fs = map snd xs"
proof -
  from assms obtain r where t: "take_bytes (length PREFACE) (reader_new raw) = Inr (PREFACE, r)"
    and w: "frame_walk r = Inr fs"
    by (auto simp: parse_preamble_def res_simps split: if_splits)
  from take_bytes_inv(1) [OF t] frame_walk_sound [OF w] show ?thesis by auto
qed

section \<open>Properties\<close>

text \<open>A preface, a SETTINGS frame with its reserved bit set, a HEADERS frame, and bytes after it.\<close>

definition sample_frames :: "(u8 \<times> frame) list" where
  "sample_frames =
     [(0x80, \<lparr>fr_kind = FRAME_SETTINGS, fr_flags = 0, fr_stream_id = 0,
              fr_payload = [0, 4, 0, 0x60, 0, 0]\<rparr>),
      (0, \<lparr>fr_kind = FRAME_HEADERS, fr_flags = 5, fr_stream_id = 1, fr_payload = [0x82]\<rparr>)]"

definition sample_preamble :: bytes where
  "sample_preamble = PREFACE @ concat (map frame_bytes sample_frames) @ [0, 0, 1]"

lemma sample_preamble_ok:
  "list_all frame_wf sample_frames" "walk_ends (map snd sample_frames) [0, 0, 1]"
  "length sample_preamble \<le> usize_max"
  by code_simp+

text \<open>
  C24. The frame walk accepts exactly the preface followed by whole frames, stops after the first
  HEADERS frame or when fewer than nine bytes are left, and reports every frame's fields with
  the reserved bit of the stream id removed.
\<close>

theorem parse_preamble_iff:
  assumes "length raw \<le> usize_max"
  shows "parse_preamble raw = Inr fs \<longleftrightarrow>
    (\<exists>xs rest. list_all frame_wf xs \<and> walk_ends (map snd xs) rest \<and>
       raw = PREFACE @ concat (map frame_bytes xs) @ rest \<and> fs = map snd xs)"
proof
  assume "\<exists>xs rest. list_all frame_wf xs \<and> walk_ends (map snd xs) rest \<and>
       raw = PREFACE @ concat (map frame_bytes xs) @ rest \<and> fs = map snd xs"
  then obtain xs rest where x: "list_all frame_wf xs" "walk_ends (map snd xs) rest"
      "raw = PREFACE @ concat (map frame_bytes xs) @ rest" "fs = map snd xs"
    by (elim exE conjE) (rule that)
  from parse_preamble_complete [OF x(1,2)] assms x(3,4) show "parse_preamble raw = Inr fs"
    by simp
qed (rule parse_preamble_sound)

lemma parse_preamble_iff_witness:
  "parse_preamble sample_preamble = Inr (map snd sample_frames) \<and> length sample_frames = 2"
proof -
  have "\<exists>xs rest. list_all frame_wf xs \<and> walk_ends (map snd xs) rest \<and>
      sample_preamble = PREFACE @ concat (map frame_bytes xs) @ rest \<and> map snd sample_frames = map snd xs"
    using sample_preamble_ok unfolding sample_preamble_def by blast
  then have "parse_preamble sample_preamble = Inr (map snd sample_frames)"
    by (rule parse_preamble_iff [OF sample_preamble_ok(3), THEN iffD2])
  then show ?thesis by (simp add: sample_frames_def)
qed

end
