(* ===== verification/Rust_Std.thy ===== *)
theory Rust_Std
  imports Fpd_Prelude
begin

text \<open>
  The parts of Rust's standard library on text that the program uses. A \<open>String\<close> or
  \<open>&str\<close> is the list of its UTF-8 bytes, as HOL characters, so that \<open>len()\<close> is the length
  of the list. UTF-8 checking (\<open>String::from_utf8\<close>), lossy decoding
  (\<open>String::from_utf8_lossy\<close>), ASCII case folding, searching, splitting and joining,
  and decimal and hexadecimal formatting are written out here.
\<close>

unbundle bit_operations_syntax

section \<open>Bytes and characters\<close>

definition byte_char :: "u8 \<Rightarrow> char" where
  "byte_char b = char_of (unat b)"

definition char_byte :: "char \<Rightarrow> u8" where
  "char_byte c = of_char c"

abbreviation as_bytes :: "string \<Rightarrow> bytes" where
  "as_bytes s \<equiv> map char_byte s"

abbreviation bytes_str :: "bytes \<Rightarrow> string" where
  "bytes_str bs \<equiv> map byte_char bs"

lemma unat_char_byte: "unat (char_byte c) = of_char c"
proof -
  have "char_byte c = word_of_nat (of_char c)"
    unfolding char_byte_def by (cases c) (simp add: of_char_def)
  moreover have "of_char c < (256 :: nat)"
    by simp
  ultimately show ?thesis
    by (simp add: unat_of_nat)
qed

lemma byte_char_char_byte [simp]: "byte_char (char_byte c) = c"
  by (simp add: byte_char_def unat_char_byte)

lemma char_byte_byte_char [simp]: "char_byte (byte_char b) = b"
proof -
  have "unat (char_byte (byte_char b)) = unat b"
    using unat_u8_bound [of b] by (simp add: unat_char_byte byte_char_def of_char_of)
  then show ?thesis by (simp only: unsigned_word_eqI word_unat_eq_iff)
qed

lemma byte_char_inverses [simp]:
  "byte_char \<circ> char_byte = id"
  "char_byte \<circ> byte_char = id"
  by (simp_all add: fun_eq_iff)

lemma bytes_str_as_bytes [simp]: "bytes_str (as_bytes s) = s"
  by simp

lemma as_bytes_bytes_str [simp]: "as_bytes (bytes_str bs) = bs"
  by simp

lemma as_bytes_inj: "as_bytes s = as_bytes t \<longleftrightarrow> s = t"
  by (metis bytes_str_as_bytes)

section \<open>UTF-8\<close>

text \<open>
  The acceptance table of the standard library's UTF-8 decoder. \<open>safe_get\<close> reads 0 past
  the end, as its helper of that name does; 0 is never a continuation byte.
\<close>

definition safe_get :: "bytes \<Rightarrow> nat \<Rightarrow> u8" where
  "safe_get xs i = (if i < length xs then xs ! i else 0)"

definition is_cont :: "u8 \<Rightarrow> bool" where
  "is_cont b \<longleftrightarrow> b AND 0xC0 = 0x80"

definition utf8_char_width :: "u8 \<Rightarrow> nat" where
  "utf8_char_width b =
     (if b < 0x80 then 1
      else if 0xC2 \<le> b \<and> b \<le> 0xDF then 2
      else if 0xE0 \<le> b \<and> b \<le> 0xEF then 3
      else if 0xF0 \<le> b \<and> b \<le> 0xF4 then 4
      else 0)"

definition second_ok :: "u8 \<Rightarrow> u8 \<Rightarrow> bool" where
  "second_ok b c =
     (if b = 0xE0 then 0xA0 \<le> c \<and> c \<le> 0xBF
      else if b = 0xED then 0x80 \<le> c \<and> c \<le> 0x9F
      else if b = 0xF0 then 0x90 \<le> c \<and> c \<le> 0xBF
      else if b = 0xF4 then 0x80 \<le> c \<and> c \<le> 0x8F
      else is_cont c)"

text \<open>The next chunk of a nonempty input: whether it is a character, and its length.\<close>

definition utf8_step :: "u8 \<Rightarrow> u8 \<Rightarrow> u8 \<Rightarrow> u8 \<Rightarrow> bool \<times> nat" where
  "utf8_step b0 b1 b2 b3 =
     (let w = utf8_char_width b0 in
      if w = 0 then (False, 1)
      else if w = 1 then (True, 1)
      else if \<not> second_ok b0 b1 then (False, 1)
      else if w = 2 then (True, 2)
      else if \<not> is_cont b2 then (False, 2)
      else if w = 3 then (True, 3)
      else if \<not> is_cont b3 then (False, 3)
      else (True, 4))"

definition utf8_chunk :: "bytes \<Rightarrow> bool \<times> nat" where
  "utf8_chunk xs = utf8_step (safe_get xs 0) (safe_get xs 1) (safe_get xs 2) (safe_get xs 3)"

lemma utf8_chunk_pos: "0 < snd (utf8_chunk xs)"
  by (simp add: utf8_chunk_def utf8_step_def Let_def)

lemma not_cont_0 [simp]: "\<not> is_cont 0" "\<not> second_ok b 0"
  by (simp_all add: is_cont_def second_ok_def)

lemma utf8_step_bytes:
  assumes "fst (utf8_step b0 b1 b2 b3)" and "1 < snd (utf8_step b0 b1 b2 b3)"
  shows "b1 \<noteq> 0" and "2 < snd (utf8_step b0 b1 b2 b3) \<Longrightarrow> b2 \<noteq> 0"
    and "3 < snd (utf8_step b0 b1 b2 b3) \<Longrightarrow> b3 \<noteq> 0"
    and "snd (utf8_step b0 b1 b2 b3) \<le> 4"
  using assms by (auto simp: utf8_step_def Let_def split: if_splits)

lemma utf8_step_agree:
  assumes "fst (utf8_step b0 b1 b2 b3)"
    and "1 < snd (utf8_step b0 b1 b2 b3) \<Longrightarrow> c1 = b1"
    and "2 < snd (utf8_step b0 b1 b2 b3) \<Longrightarrow> c2 = b2"
    and "3 < snd (utf8_step b0 b1 b2 b3) \<Longrightarrow> c3 = b3"
  shows "utf8_step b0 c1 c2 c3 = utf8_step b0 b1 b2 b3"
  using assms by (simp add: utf8_step_def Let_def split: if_splits)

lemma safe_get_nonzero: "safe_get xs i \<noteq> 0 \<Longrightarrow> i < length xs"
  by (auto simp: safe_get_def split: if_splits)

lemma utf8_chunk_length:
  assumes "xs \<noteq> []" and "fst (utf8_chunk xs)"
  shows "snd (utf8_chunk xs) \<le> length xs"
proof (rule ccontr)
  let ?n = "snd (utf8_chunk xs)"
  assume "\<not> ?n \<le> length xs"
  then have gt: "length xs < ?n" by simp
  have ne: "0 < length xs" using assms(1) by simp
  with gt have n1: "1 < ?n" by linarith
  note b = utf8_step_bytes [OF assms(2) [unfolded utf8_chunk_def] n1 [unfolded utf8_chunk_def],
      folded utf8_chunk_def]
  have l1: "1 < length xs" using b(1) by (rule safe_get_nonzero)
  have l2: "2 < length xs" if "2 < ?n" using b(2) [OF that] by (rule safe_get_nonzero)
  have l3: "3 < length xs" if "3 < ?n" using b(3) [OF that] by (rule safe_get_nonzero)
  show False using l1 l2 l3 b(4) gt by linarith
qed

lemma utf8_chunk_agree:
  assumes "fst (utf8_chunk xs)"
    and "\<And>i. i < snd (utf8_chunk xs) \<Longrightarrow> safe_get ys i = safe_get xs i"
  shows "utf8_chunk ys = utf8_chunk xs"
proof -
  have "safe_get ys 0 = safe_get xs 0"
    using assms(2) utf8_chunk_pos by blast
  then show ?thesis
    using utf8_step_agree [OF assms(1) [unfolded utf8_chunk_def], of "safe_get ys 1"
        "safe_get ys 2" "safe_get ys 3"] assms(2) [unfolded utf8_chunk_def]
    by (simp add: utf8_chunk_def)
qed

lemma utf8_chunk_append:
  assumes "xs \<noteq> []" and "fst (utf8_chunk xs)"
  shows "utf8_chunk (xs @ ys) = utf8_chunk xs"
proof (rule utf8_chunk_agree [OF assms(2)])
  fix i assume "i < snd (utf8_chunk xs)"
  with utf8_chunk_length [OF assms] have "i < length xs" by simp
  then show "safe_get (xs @ ys) i = safe_get xs i"
    by (simp add: safe_get_def nth_append)
qed

lemma utf8_chunk_take:
  assumes "xs \<noteq> []" and "fst (utf8_chunk xs)"
  shows "utf8_chunk (take (snd (utf8_chunk xs)) xs) = utf8_chunk xs"
proof (rule utf8_chunk_agree [OF assms(2)])
  fix i assume "i < snd (utf8_chunk xs)"
  with utf8_chunk_length [OF assms]
  show "safe_get (take (snd (utf8_chunk xs)) xs) i = safe_get xs i"
    by (simp add: safe_get_def)
qed

lemma utf8_chunk_drop_less: "xs \<noteq> [] \<Longrightarrow> length xs - snd (utf8_chunk xs) < length xs"
  using utf8_chunk_pos [of xs] by (cases xs) auto

function utf8_valid :: "bytes \<Rightarrow> bool" where
  "utf8_valid xs =
     (if xs = [] then True
      else fst (utf8_chunk xs) \<and> utf8_valid (drop (snd (utf8_chunk xs)) xs))"
  by pat_completeness auto
termination
  by (relation "measure length") (simp_all add: utf8_chunk_drop_less)

declare utf8_valid.simps [simp del]

text \<open>\<open>String::from_utf8_lossy\<close>: each invalid chunk becomes U+FFFD.\<close>

function utf8_lossy :: "bytes \<Rightarrow> bytes" where
  "utf8_lossy xs =
     (if xs = [] then []
      else (if fst (utf8_chunk xs) then take (snd (utf8_chunk xs)) xs else [0xEF, 0xBF, 0xBD])
           @ utf8_lossy (drop (snd (utf8_chunk xs)) xs))"
  by pat_completeness auto
termination
  by (relation "measure length") (simp_all add: utf8_chunk_drop_less)

declare utf8_lossy.simps [simp del]

definition from_utf8 :: "bytes \<Rightarrow> string option" where
  "from_utf8 bs = (if utf8_valid bs then Some (bytes_str bs) else None)"

definition from_utf8_lossy :: "bytes \<Rightarrow> string" where
  "from_utf8_lossy bs = bytes_str (utf8_lossy bs)"

text \<open>A value of type \<open>String\<close> holds valid UTF-8.\<close>

definition str_wf :: "string \<Rightarrow> bool" where
  "str_wf s \<longleftrightarrow> utf8_valid (as_bytes s)"

lemma utf8_valid_Nil [simp]: "utf8_valid []"
  by (simp add: utf8_valid.simps [of "[]"])

lemma utf8_lossy_Nil [simp]: "utf8_lossy [] = []"
  by (simp add: utf8_lossy.simps [of "[]"])

lemma utf8_lossy_valid [utf8_simps]: "utf8_valid xs \<Longrightarrow> utf8_lossy xs = xs"
proof (induction xs rule: utf8_lossy.induct)
  case (1 xs)
  show ?case
  proof (cases "xs = []")
    case True
    then show ?thesis by simp
  next
    case False
    with "1.prems" have "fst (utf8_chunk xs)" and "utf8_valid (drop (snd (utf8_chunk xs)) xs)"
      using utf8_valid.simps [of xs] by simp_all
    with "1.IH" False show ?thesis
      by (simp add: utf8_lossy.simps [of xs])
  qed
qed

lemma utf8_valid_append_chunk:
  assumes "xs \<noteq> []" and "fst (utf8_chunk xs)" and "snd (utf8_chunk xs) = length xs"
    and "utf8_valid ys"
  shows "utf8_valid (xs @ ys)"
  using assms utf8_chunk_append [of xs ys] by (simp add: utf8_valid.simps [of "xs @ ys"])

lemma utf8_valid_lossy [utf8_simps]: "utf8_valid (utf8_lossy xs)"
proof (induction xs rule: utf8_lossy.induct)
  case (1 xs)
  let ?n = "snd (utf8_chunk xs)"
  show ?case
  proof (cases "xs = []")
    case True
    then show ?thesis by simp
  next
    case False
    have ih: "utf8_valid (utf8_lossy (drop ?n xs))"
      using "1.IH" False .
    show ?thesis
    proof (cases "fst (utf8_chunk xs)")
      case True
      have "take ?n xs \<noteq> []"
        using False utf8_chunk_pos [of xs] by simp
      moreover have "length (take ?n xs) = ?n"
        using utf8_chunk_length [OF False True] by simp
      ultimately show ?thesis
        using True False ih utf8_chunk_take [OF False True]
        by (simp add: utf8_lossy.simps [of xs] utf8_valid_append_chunk)
    next
      case fa: False
      have "utf8_chunk [0xEF, 0xBF, 0xBD] = (True, 3)"
        by (simp add: utf8_chunk_def utf8_step_def safe_get_def utf8_char_width_def second_ok_def is_cont_def)
      with fa False ih show ?thesis
        using utf8_valid_append_chunk [of "[0xEF, 0xBF, 0xBD]" "utf8_lossy (drop ?n xs)"]
        by (simp add: utf8_lossy.simps [of xs])
    qed
  qed
qed

lemma utf8_valid_append [utf8_simps]:
  "utf8_valid xs \<Longrightarrow> utf8_valid ys \<Longrightarrow> utf8_valid (xs @ ys)"
proof (induction xs rule: utf8_lossy.induct)
  case (1 xs)
  show ?case
  proof (cases "xs = []")
    case True
    with "1.prems" show ?thesis by simp
  next
    case False
    let ?n = "snd (utf8_chunk xs)"
    have ok: "fst (utf8_chunk xs)" and rest: "utf8_valid (drop ?n xs)"
      using "1.prems" False utf8_valid.simps [of xs] by simp_all
    have "utf8_valid (drop ?n xs @ ys)"
      using "1.IH" [OF False rest "1.prems"(2)] .
    moreover have "drop ?n (xs @ ys) = drop ?n xs @ ys"
      using utf8_chunk_length [OF False ok] by simp
    ultimately show ?thesis
      using False ok utf8_chunk_append [OF False ok, of ys] utf8_valid.simps [of "xs @ ys"]
      by simp
  qed
qed

lemma utf8_valid_Cons_ascii [utf8_simps]:
  assumes "b < 0x80"
  shows "utf8_valid (b # xs) = utf8_valid xs"
proof -
  have "utf8_chunk (b # xs) = (True, 1)"
    using assms by (simp add: utf8_chunk_def utf8_step_def safe_get_def utf8_char_width_def)
  then show ?thesis
    by (simp add: utf8_valid.simps [of "b # xs"])
qed

lemma utf8_valid_ascii [utf8_simps]: "\<forall>b \<in> set xs. b < 0x80 \<Longrightarrow> utf8_valid xs"
  by (induction xs) (simp_all add: utf8_valid_Cons_ascii)

lemma str_wf_lossy [utf8_simps]: "str_wf (from_utf8_lossy bs)"
  by (simp add: str_wf_def from_utf8_lossy_def utf8_valid_lossy del: map_map)

lemma from_utf8_lossy_as_bytes [utf8_simps]: "str_wf s \<Longrightarrow> from_utf8_lossy (as_bytes s) = s"
  by (simp add: str_wf_def from_utf8_lossy_def utf8_lossy_valid del: map_map)

lemma from_utf8_Some [res_simps]:
  "from_utf8 bs = Some s \<longleftrightarrow> utf8_valid bs \<and> s = bytes_str bs"
  by (auto simp: from_utf8_def)

lemma str_wf_Nil [simp]: "str_wf []"
  by (simp add: str_wf_def)

lemma str_wf_append [utf8_simps]: "str_wf s \<Longrightarrow> str_wf t \<Longrightarrow> str_wf (s @ t)"
  by (simp add: str_wf_def utf8_valid_append)

end
