(* ===== verification/Rust_Text.thy ===== *)
theory Rust_Text
  imports Rust_Std
begin

text \<open>
  Text operations of the standard library that the program's formatting and matching use:
  \<open>to_string\<close> on unsigned integers, the \<open>{:04x}\<close> and \<open>{:02}\<close> formats, \<open>join\<close> and \<open>split\<close>,
  \<open>to_ascii_lowercase\<close>, \<open>starts_with\<close> and \<open>contains\<close>. The lemmas say that the renderings
  can be read back, so two renderings are equal only when the rendered values are.
\<close>

section \<open>Numbers as text\<close>

definition digit_char :: "nat \<Rightarrow> char" where
  "digit_char d = char_of (48 + d)"

definition hex_char :: "nat \<Rightarrow> char" where
  "hex_char d = (if d < 10 then char_of (48 + d) else char_of (87 + d))"

fun dec_string :: "nat \<Rightarrow> string" where
  "dec_string n =
     (if n < 10 then [digit_char n] else dec_string (n div 10) @ [digit_char (n mod 10)])"

fun hex_string :: "nat \<Rightarrow> string" where
  "hex_string n =
     (if n < 16 then [hex_char n] else hex_string (n div 16) @ [hex_char (n mod 16)])"

declare dec_string.simps [simp del] hex_string.simps [simp del]

definition pad_zero :: "nat \<Rightarrow> string \<Rightarrow> string" where
  "pad_zero w s = replicate (w - length s) (CHR ''0'') @ s"

definition is_digit :: "char \<Rightarrow> bool" where
  "is_digit c \<longleftrightarrow> 48 \<le> (of_char c :: nat) \<and> (of_char c :: nat) \<le> 57"

definition dec_value :: "string \<Rightarrow> nat" where
  "dec_value s = foldl (\<lambda>n c. n * 10 + (of_char c - 48)) 0 s"

lemma of_char_digit: "d < 10 \<Longrightarrow> (of_char (digit_char d) :: nat) = 48 + d"
  by (simp add: digit_char_def)

lemma dec_value_dec_string [simp]: "dec_value (dec_string n) = n"
proof (induction n rule: dec_string.induct)
  case (1 n)
  show ?case
  proof (cases "n < 10")
    case True
    then show ?thesis
      by (simp add: dec_string.simps [of n] dec_value_def of_char_digit)
  next
    case False
    with "1.IH" have "dec_value (dec_string (n div 10)) = n div 10" by simp
    with False show ?thesis
      by (simp add: dec_string.simps [of n] dec_value_def of_char_digit)
  qed
qed

lemma dec_string_inj [simp]: "dec_string m = dec_string n \<longleftrightarrow> m = n"
  by (metis dec_value_dec_string)

lemma dec_string_digits: "c \<in> set (dec_string n) \<Longrightarrow> is_digit c"
proof (induction n rule: dec_string.induct)
  case (1 n)
  then show ?case
    by (cases "n < 10")
      (auto simp: dec_string.simps [of n] is_digit_def of_char_digit)
qed

lemma dec_string_nonempty [simp]: "dec_string n \<noteq> []"
  by (simp add: dec_string.simps [of n])

lemma hex_string_nonempty [simp]: "hex_string n \<noteq> []"
  by (simp add: hex_string.simps [of n])

lemma length_pad_zero: "length (pad_zero w s) = max w (length s)"
  by (simp add: pad_zero_def)

lemma length_dec_string_10: "n < 10 \<Longrightarrow> length (dec_string n) = 1"
  by (simp add: dec_string.simps [of n])

lemma length_dec_string_100: "n < 100 \<Longrightarrow> length (dec_string n) \<le> 2"
  using length_dec_string_10 [of "n div 10"] by (simp add: dec_string.simps [of n])

lemma length_hex_string_16: "n < 16 \<Longrightarrow> length (hex_string n) = 1"
  by (simp add: hex_string.simps [of n])

lemma length_hex_string_step:
  "length (hex_string (n div 16)) \<le> k \<Longrightarrow> 0 < k \<Longrightarrow> length (hex_string n) \<le> Suc k"
  by (simp add: hex_string.simps [of n])

lemma length_hex_string_256: "n < 256 \<Longrightarrow> length (hex_string n) \<le> 2"
  using length_hex_string_step [of n 1] length_hex_string_16 [of "n div 16"] by simp

lemma length_hex_string_65536:
  assumes "n < 65536"
  shows "length (hex_string n) \<le> 4"
proof -
  have "n div 16 div 16 < 256"
    using assms by (simp add: div_mult2_eq [symmetric])
  then have "length (hex_string (n div 16 div 16)) \<le> 2"
    by (rule length_hex_string_256)
  then show ?thesis
    using length_hex_string_step [of "n div 16" 2] length_hex_string_step [of n 3] by simp
qed

section \<open>Join and split\<close>

fun str_join :: "string \<Rightarrow> string list \<Rightarrow> string" where
  "str_join sep [] = []"
| "str_join sep [x] = x"
| "str_join sep (x # y # ys) = x @ sep @ str_join sep (y # ys)"

fun split_char :: "char \<Rightarrow> string \<Rightarrow> string list" where
  "split_char c [] = [[]]"
| "split_char c (x # xs) =
     (if x = c then [] # split_char c xs
      else (case split_char c xs of [] \<Rightarrow> [[x]] | y # ys \<Rightarrow> (x # y) # ys))"

lemma split_char_nonempty [simp]: "split_char c s \<noteq> []"
  by (induction s) (auto split: list.splits)

lemma split_char_plain: "c \<notin> set s \<Longrightarrow> split_char c s = [s]"
  by (induction s) auto

lemma split_char_append: "c \<notin> set s \<Longrightarrow> split_char c (s @ c # t) = s # split_char c t"
  by (induction s) auto

lemma split_char_join:
  "xs \<noteq> [] \<Longrightarrow> \<forall>x \<in> set xs. c \<notin> set x \<Longrightarrow> split_char c (str_join [c] xs) = xs"
  by (induction "[c]" xs rule: str_join.induct) (auto simp: split_char_plain split_char_append)

lemma str_join_inj:
  assumes "str_join [c] xs = str_join [c] ys"
    and "\<forall>x \<in> set xs. c \<notin> set x \<and> x \<noteq> []" and "\<forall>y \<in> set ys. c \<notin> set y \<and> y \<noteq> []"
  shows "xs = ys"
proof (cases "xs = [] \<or> ys = []")
  case True
  have e: "str_join [c] zs = [] \<Longrightarrow> \<forall>z \<in> set zs. z \<noteq> [] \<Longrightarrow> zs = []" for zs
    by (induction "[c]" zs rule: str_join.induct) auto
  show ?thesis
    using True assms e [of xs] e [of ys] by auto
next
  case False
  then show ?thesis
    using assms split_char_join [of xs c] split_char_join [of ys c] by metis
qed

lemma set_str_join: "set (str_join sep xs) \<subseteq> set sep \<union> \<Union> (set ` set xs)"
  by (induction sep xs rule: str_join.induct) auto

lemma length_str_join_const:
  assumes "\<And>x. x \<in> set xs \<Longrightarrow> length x = n" and "xs \<noteq> []"
  shows "length (str_join sep xs) = n * length xs + length sep * (length xs - 1)"
  using assms
  by (induction sep xs rule: str_join.induct) (auto simp: algebra_simps)

section \<open>ASCII matching\<close>

definition ascii_lower_char :: "char \<Rightarrow> char" where
  "ascii_lower_char c =
     (let n = of_char c :: nat in if 65 \<le> n \<and> n \<le> 90 then char_of (n + 32) else c)"

abbreviation to_ascii_lowercase :: "string \<Rightarrow> string" where
  "to_ascii_lowercase s \<equiv> map ascii_lower_char s"

lemma lower_idem [simp]: "to_ascii_lowercase (to_ascii_lowercase s) = to_ascii_lowercase s"
proof -
  have "ascii_lower_char (ascii_lower_char c) = ascii_lower_char c" for c
    by (cases "65 \<le> (of_char c :: nat) \<and> (of_char c :: nat) \<le> 90")
      (auto simp: ascii_lower_char_def Let_def of_char_of)
  then show ?thesis by (simp add: comp_def)
qed

definition eq_ignore_ascii_case :: "string \<Rightarrow> string \<Rightarrow> bool" where
  "eq_ignore_ascii_case s t \<longleftrightarrow> to_ascii_lowercase s = to_ascii_lowercase t"

abbreviation starts_with :: "string \<Rightarrow> string \<Rightarrow> bool" where
  "starts_with s p \<equiv> prefix p s"

fun str_contains :: "string \<Rightarrow> string \<Rightarrow> bool" where
  "str_contains [] p = (p = [])"
| "str_contains (x # xs) p = (prefix p (x # xs) \<or> str_contains xs p)"

lemma ascii_lower_idem [simp]: "ascii_lower_char (ascii_lower_char c) = ascii_lower_char c"
  by (simp add: ascii_lower_char_def Let_def)

lemma to_ascii_lowercase_idem [simp]:
  "to_ascii_lowercase (to_ascii_lowercase s) = to_ascii_lowercase s"
  by simp

lemma str_contains_iff: "str_contains s p \<longleftrightarrow> (\<exists>u v. s = u @ p @ v)"
proof (induction s)
  case Nil
  then show ?case by auto
next
  case (Cons x xs)
  have "(\<exists>u v. x # xs = u @ p @ v) \<longleftrightarrow> prefix p (x # xs) \<or> (\<exists>u v. xs = u @ p @ v)"
  proof
    assume "\<exists>u v. x # xs = u @ p @ v"
    then obtain u v where uv: "x # xs = u @ p @ v" by blast
    show "prefix p (x # xs) \<or> (\<exists>u v. xs = u @ p @ v)"
      using uv by (cases u) (auto simp: prefix_def)
  next
    assume "prefix p (x # xs) \<or> (\<exists>u v. xs = u @ p @ v)"
    then show "\<exists>u v. x # xs = u @ p @ v"
      by (metis append_Cons append_Nil prefix_def)
  qed
  with Cons.IH show ?case by simp
qed

lemma ascii_lower_ascii:
  "(of_char (ascii_lower_char c) :: nat) < 128 \<longleftrightarrow> (of_char c :: nat) < 128"
  by (auto simp: ascii_lower_char_def Let_def)

section \<open>Characters, padding and splitting once\<close>

text \<open>
  \<open>s.chars().count()\<close>: a string is its UTF-8 bytes, and every character has one byte that is
  not a continuation byte.
\<close>

definition chars_count :: "string \<Rightarrow> nat" where
  "chars_count s = length (filter (\<lambda>c. \<not> is_cont (char_byte c)) s)"

text \<open>\<open>{:<w}\<close>: padding with spaces on the right, by characters.\<close>

definition pad_right :: "nat \<Rightarrow> string \<Rightarrow> string" where
  "pad_right w s = s @ replicate (w - chars_count s) (CHR '' '')"

text \<open>\<open>s.split_once(p)\<close>: the text before and after the first occurrence.\<close>

fun split_once :: "string \<Rightarrow> string \<Rightarrow> (string \<times> string) option" where
  "split_once p [] = (if p = [] then Some ([], []) else None)"
| "split_once p (x # xs) =
     (if prefix p (x # xs) then Some ([], drop (length p) (x # xs))
      else map_option (\<lambda>(a, b). (x # a, b)) (split_once p xs))"

lemma chars_count_le: "chars_count s \<le> length s"
  by (simp add: chars_count_def)

lemma chars_count_append: "chars_count (s @ t) = chars_count s + chars_count t"
  by (simp add: chars_count_def)

lemma split_once_Some: "split_once p s = Some (a, b) \<Longrightarrow> s = a @ p @ b"
proof (induction s arbitrary: a b)
  case (Cons x xs)
  show ?case
  proof (cases "prefix p (x # xs)")
    case True
    with Cons.prems have "a = []" "b = drop (length p) (x # xs)" by simp_all
    with True show ?thesis by (auto simp: prefix_def)
  next
    case False
    with Cons.prems obtain a' where "a = x # a'" "split_once p xs = Some (a', b)"
      by auto
    with Cons.IH show ?thesis by simp
  qed
qed (simp split: if_splits)

lemma str_join_split: "str_join [c] (split_char c s) = s"
proof (induction s)
  case (Cons x s)
  obtain y ys where "split_char c s = y # ys"
    using split_char_nonempty [of c s] by (cases "split_char c s") auto
  with Cons show ?case
    by (cases ys) auto
qed simp

lemma sep_inj:
  assumes "a @ c # x = b @ c # y" and "c \<notin> set a" and "c \<notin> set b"
  shows "a = b \<and> x = y"
  using assms by (induction a arbitrary: b) (case_tac b; auto)+

section \<open>Reading hexadecimal back\<close>

definition is_hex :: "char \<Rightarrow> bool" where
  "is_hex c \<longleftrightarrow> is_digit c \<or> 97 \<le> (of_char c :: nat) \<and> (of_char c :: nat) \<le> 102"

definition hex_digit :: "char \<Rightarrow> nat" where
  "hex_digit c = (if is_digit c then of_char c - 48 else of_char c - 87)"

definition hex_value :: "string \<Rightarrow> nat" where
  "hex_value s = foldl (\<lambda>n c. n * 16 + hex_digit c) 0 s"

lemma of_char_hex: "d < 16 \<Longrightarrow> (of_char (hex_char d) :: nat) = (if d < 10 then 48 + d else 87 + d)"
  by (simp add: hex_char_def)

lemma hex_char_facts: "d < 16 \<Longrightarrow> is_hex (hex_char d)" "d < 16 \<Longrightarrow> hex_digit (hex_char d) = d"
  by (auto simp: is_hex_def is_digit_def hex_digit_def of_char_hex)

lemma hex_string_hex: "c \<in> set (hex_string n) \<Longrightarrow> is_hex c"
proof (induction n rule: hex_string.induct)
  case (1 n)
  then show ?case
    by (cases "n < 16") (auto simp: hex_string.simps [of n] hex_char_facts)
qed

lemma hex_value_hex_string [simp]: "hex_value (hex_string n) = n"
proof (induction n rule: hex_string.induct)
  case (1 n)
  show ?case
  proof (cases "n < 16")
    case True
    then show ?thesis by (simp add: hex_string.simps [of n] hex_value_def hex_char_facts)
  next
    case False
    with 1 have "hex_value (hex_string (n div 16)) = n div 16" by simp
    with False show ?thesis by (simp add: hex_string.simps [of n] hex_value_def hex_char_facts)
  qed
qed

lemma hex_string_inj [simp]: "hex_string m = hex_string n \<longleftrightarrow> m = n"
  by (metis hex_value_hex_string)

section \<open>Paths\<close>

text \<open>\<open>Path::join\<close> with a file name: an absolute one replaces the directory.\<close>

definition path_join :: "string \<Rightarrow> string \<Rightarrow> string" where
  "path_join dir name =
     (if prefix ''/'' name \<or> dir = [] then name
      else if last dir = CHR ''/'' then dir @ name else dir @ ''/'' @ name)"

lemma path_join_inj [simp]:
  "\<not> prefix ''/'' a \<Longrightarrow> \<not> prefix ''/'' b \<Longrightarrow> path_join dir a = path_join dir b \<longleftrightarrow> a = b"
  by (simp add: path_join_def)

end
