(* ===== verification/H2_Settings.thy ===== *)
theory H2_Settings
  imports H2_Frame Rust_Text
begin

text \<open>
  SETTINGS, WINDOW_UPDATE and PRIORITY payloads, \<open>fingerprint-h2/src/settings.rs\<close>. Settings
  keep their wire order and nothing is defaulted. The lemmas show that the readers give back
  what a client wrote.
\<close>

unbundle bit_operations_syntax

record priority =
  pr_stream_id :: u32
  pr_exclusive :: bool
  pr_depends_on :: u32
  pr_weight :: u16

definition settings_chunk :: "bytes \<Rightarrow> (u16 \<times> u32) option" where
  "settings_chunk c =
     (case (get_at c 0, get_at c 1, get_at c 2, get_at c 3, get_at c 4, get_at c 5) of
        (Some a, Some b, Some x, Some y, Some z, Some w) \<Rightarrow> Some (be16 a b, be32 x y z w)
      | _ \<Rightarrow> None)"

definition settings_pairs :: "frame list \<Rightarrow> (u16 \<times> u32) list" where
  "settings_pairs frames =
     concat (map (\<lambda>f. if length (fr_payload f) mod 6 \<noteq> 0 then []
                      else List.map_filter settings_chunk (chunks_exact 6 (fr_payload f)))
               (filter (\<lambda>f. fr_kind f = FRAME_SETTINGS) frames))"

definition window_update :: "frame list \<Rightarrow> u32 option" where
  "window_update frames =
     Option.bind (List.find (\<lambda>f. fr_kind f = FRAME_WINDOW_UPDATE) frames) (\<lambda>f.
     let p = fr_payload f in
     Option.bind (get_at p 0) (\<lambda>p0.
     Option.bind (get_at p 1) (\<lambda>p1.
     Option.bind (get_at p 2) (\<lambda>p2.
     Option.bind (get_at p 3) (\<lambda>p3.
     Some (be32 (p0 AND 0x7f) p1 p2 p3))))))"

definition frame_priority :: "frame \<Rightarrow> priority option" where
  "frame_priority f =
     (let p = fr_payload f in
      Option.bind (get_at p 0) (\<lambda>b0.
      Option.bind (get_at p 1) (\<lambda>p1.
      Option.bind (get_at p 2) (\<lambda>p2.
      Option.bind (get_at p 3) (\<lambda>p3.
      Option.bind (get_at p 4) (\<lambda>p4.
      Some \<lparr>pr_stream_id = fr_stream_id f, pr_exclusive = (b0 AND 0x80 \<noteq> 0),
            pr_depends_on = be32 (b0 AND 0x7f) p1 p2 p3, pr_weight = ucast p4 + 1\<rparr>))))))"

definition priorities :: "frame list \<Rightarrow> priority list" where
  "priorities frames =
     List.map_filter frame_priority (filter (\<lambda>f. fr_kind f = FRAME_PRIORITY) frames)"

section \<open>Reading what was written\<close>

definition settings_bytes :: "(u16 \<times> u32) list \<Rightarrow> bytes" where
  "settings_bytes pairs = concat (map (\<lambda>(k, v). to_be16 k @ to_be32 v) pairs)"

lemma length_settings_bytes: "length (settings_bytes ps) = 6 * length ps"
  by (induction ps) (auto simp: settings_bytes_def)

lemma settings_chunks: "List.map_filter settings_chunk (chunks_exact 6 (settings_bytes ps)) = ps"
proof (induction ps)
  case Nil
  then show ?case by (simp add: settings_bytes_def)
next
  case (Cons p ps)
  obtain k v where p: "p = (k, v)" by (cases p)
  have "settings_bytes (p # ps) = (to_be16 k @ to_be32 v) @ settings_bytes ps"
    by (simp add: settings_bytes_def p)
  moreover have "length (to_be16 k @ to_be32 v) = 6" by simp
  ultimately have "chunks_exact 6 (settings_bytes (p # ps)) =
      (to_be16 k @ to_be32 v) # chunks_exact 6 (settings_bytes ps)"
    using chunks_exact_append [of "to_be16 k @ to_be32 v" 6 "settings_bytes ps"] by simp
  moreover have "settings_chunk (to_be16 k @ to_be32 v) = Some (k, v)"
    by (simp add: settings_chunk_def to_be16_def to_be32_def get_at_def)
  ultimately show ?case
    using Cons by (simp add: p)
qed

lemma settings_pairs_append: "settings_pairs (fs @ gs) = settings_pairs fs @ settings_pairs gs"
  by (simp add: settings_pairs_def)

lemma settings_pairs_frame:
  "fr_kind f = FRAME_SETTINGS \<Longrightarrow> fr_payload f = settings_bytes ps \<Longrightarrow> settings_pairs [f] = ps"
  using settings_chunks [of ps] by (simp add: settings_pairs_def length_settings_bytes)

lemma settings_pairs_other: "fr_kind f \<noteq> FRAME_SETTINGS \<Longrightarrow> settings_pairs [f] = []"
  by (simp add: settings_pairs_def)

text \<open>A payload that is not whole settings contributes nothing.\<close>

lemma settings_pairs_malformed: "length (fr_payload f) mod 6 \<noteq> 0 \<Longrightarrow> settings_pairs [f] = []"
  by (simp add: settings_pairs_def)

lemma window_update_frame:
  assumes "fr_kind f = FRAME_WINDOW_UPDATE" and "fr_payload f = to_be32 v" and "unat v < 2147483648"
    and "\<forall>g \<in> set fs. fr_kind g \<noteq> FRAME_WINDOW_UPDATE"
  shows "window_update (fs @ f # gs) = Some v"
proof -
  have "List.find (\<lambda>f. fr_kind f = FRAME_WINDOW_UPDATE) (fs @ f # gs) = Some f"
    using assms(1,4) by (induction fs) auto
  moreover obtain a b c d where v: "to_be32 v = [a, b, c, d]" "v = be32 a b c d"
    by (rule to_be32_cases)
  moreover have "a AND 0x7f = a"
    using assms(3) by (simp only: v(2) be32_small)
  ultimately show ?thesis
    using assms(2) by (simp add: window_update_def Let_def get_at_def)
qed

lemma window_update_none:
  "\<forall>g \<in> set fs. fr_kind g \<noteq> FRAME_WINDOW_UPDATE \<Longrightarrow> window_update fs = None"
  by (induction fs) (auto simp: window_update_def)

text \<open>The weight on the wire is one less than the reported one, and cannot wrap.\<close>

lemma priority_weight_bounds:
  "frame_priority f = Some p \<Longrightarrow> 1 \<le> unat (pr_weight p) \<and> unat (pr_weight p) \<le> 256"
proof -
  assume "frame_priority f = Some p"
  then obtain b :: u8 where "pr_weight p = ucast b + 1"
    by (auto simp: frame_priority_def Let_def bind_eq_Some_conv)
  moreover have "unat (ucast b + 1 :: u16) = unat b + 1"
  proof -
    have "unat (ucast b :: u16) = unat b"
      using unat_u8_bound [of b] by (simp add: unsigned_ucast_eq take_bit_nat_eq_self)
    moreover from this have "unat (ucast b :: u16) + unat (1 :: u16) < 2 ^ LENGTH(16)"
      using unat_u8_bound [of b] by simp
    from iffD1 [OF unat_add_lem this]
    have "unat (ucast b + 1 :: u16) = unat (ucast b :: u16) + unat (1 :: u16)" .
    ultimately show ?thesis by simp
  qed
  ultimately show "1 \<le> unat (pr_weight p) \<and> unat (pr_weight p) \<le> 256"
    using unat_u8_bound [of b] by simp
qed

end
