(* ===== verification/Hpack_Huffman_Table.thy ===== *)
theory Hpack_Huffman_Table
  imports Fpd_Prelude
begin

text \<open>
  The HPACK Huffman code, \<open>fingerprint-h2/src/hpack/table_huffman.rs\<close>: \<open>(code, bit length)\<close>
  by symbol, EOS last, in two halves. The lemma that ends the theory lays the codes out as
  intervals of the 30-bit numbers: sorted, they cover the whole range without a gap or an
  overlap, which is to say that the code is prefix-free and complete.
\<close>

definition HUFFMAN_low :: "(nat \<times> nat) list" where
  "HUFFMAN_low = [
    (0x1ff8, 13), (0x7fffd8, 23), (0xfffffe2, 28), (0xfffffe3, 28), (0xfffffe4, 28),
    (0xfffffe5, 28), (0xfffffe6, 28), (0xfffffe7, 28), (0xfffffe8, 28), (0xffffea, 24),
    (0x3ffffffc, 30), (0xfffffe9, 28), (0xfffffea, 28), (0x3ffffffd, 30), (0xfffffeb, 28),
    (0xfffffec, 28), (0xfffffed, 28), (0xfffffee, 28), (0xfffffef, 28), (0xffffff0, 28),
    (0xffffff1, 28), (0xffffff2, 28), (0x3ffffffe, 30), (0xffffff3, 28), (0xffffff4, 28),
    (0xffffff5, 28), (0xffffff6, 28), (0xffffff7, 28), (0xffffff8, 28), (0xffffff9, 28),
    (0xffffffa, 28), (0xffffffb, 28), (0x14, 6), (0x3f8, 10), (0x3f9, 10), (0xffa, 12),
    (0x1ff9, 13), (0x15, 6), (0xf8, 8), (0x7fa, 11), (0x3fa, 10), (0x3fb, 10), (0xf9, 8),
    (0x7fb, 11), (0xfa, 8), (0x16, 6), (0x17, 6), (0x18, 6), (0x0, 5), (0x1, 5), (0x2, 5),
    (0x19, 6), (0x1a, 6), (0x1b, 6), (0x1c, 6), (0x1d, 6), (0x1e, 6), (0x1f, 6), (0x5c, 7),
    (0xfb, 8), (0x7ffc, 15), (0x20, 6), (0xffb, 12), (0x3fc, 10), (0x1ffa, 13), (0x21, 6),
    (0x5d, 7), (0x5e, 7), (0x5f, 7), (0x60, 7), (0x61, 7), (0x62, 7), (0x63, 7), (0x64, 7),
    (0x65, 7), (0x66, 7), (0x67, 7), (0x68, 7), (0x69, 7), (0x6a, 7), (0x6b, 7), (0x6c, 7),
    (0x6d, 7), (0x6e, 7), (0x6f, 7), (0x70, 7), (0x71, 7), (0x72, 7), (0xfc, 8), (0x73, 7),
    (0xfd, 8), (0x1ffb, 13), (0x7fff0, 19), (0x1ffc, 13), (0x3ffc, 14), (0x22, 6), (0x7ffd, 15),
    (0x3, 5), (0x23, 6), (0x4, 5), (0x24, 6), (0x5, 5), (0x25, 6), (0x26, 6), (0x27, 6), (0x6, 5),
    (0x74, 7), (0x75, 7), (0x28, 6), (0x29, 6), (0x2a, 6), (0x7, 5), (0x2b, 6), (0x76, 7),
    (0x2c, 6), (0x8, 5), (0x9, 5), (0x2d, 6), (0x77, 7), (0x78, 7), (0x79, 7), (0x7a, 7),
    (0x7b, 7), (0x7ffe, 15), (0x7fc, 11), (0x3ffd, 14), (0x1ffd, 13), (0xffffffc, 28)]"

definition HUFFMAN_high :: "(nat \<times> nat) list" where
  "HUFFMAN_high = [
    (0xfffe6, 20), (0x3fffd2, 22), (0xfffe7, 20), (0xfffe8, 20), (0x3fffd3, 22), (0x3fffd4, 22),
    (0x3fffd5, 22), (0x7fffd9, 23), (0x3fffd6, 22), (0x7fffda, 23), (0x7fffdb, 23),
    (0x7fffdc, 23), (0x7fffdd, 23), (0x7fffde, 23), (0xffffeb, 24), (0x7fffdf, 23),
    (0xffffec, 24), (0xffffed, 24), (0x3fffd7, 22), (0x7fffe0, 23), (0xffffee, 24),
    (0x7fffe1, 23), (0x7fffe2, 23), (0x7fffe3, 23), (0x7fffe4, 23), (0x1fffdc, 21),
    (0x3fffd8, 22), (0x7fffe5, 23), (0x3fffd9, 22), (0x7fffe6, 23), (0x7fffe7, 23),
    (0xffffef, 24), (0x3fffda, 22), (0x1fffdd, 21), (0xfffe9, 20), (0x3fffdb, 22), (0x3fffdc, 22),
    (0x7fffe8, 23), (0x7fffe9, 23), (0x1fffde, 21), (0x7fffea, 23), (0x3fffdd, 22),
    (0x3fffde, 22), (0xfffff0, 24), (0x1fffdf, 21), (0x3fffdf, 22), (0x7fffeb, 23),
    (0x7fffec, 23), (0x1fffe0, 21), (0x1fffe1, 21), (0x3fffe0, 22), (0x1fffe2, 21),
    (0x7fffed, 23), (0x3fffe1, 22), (0x7fffee, 23), (0x7fffef, 23), (0xfffea, 20), (0x3fffe2, 22),
    (0x3fffe3, 22), (0x3fffe4, 22), (0x7ffff0, 23), (0x3fffe5, 22), (0x3fffe6, 22),
    (0x7ffff1, 23), (0x3ffffe0, 26), (0x3ffffe1, 26), (0xfffeb, 20), (0x7fff1, 19),
    (0x3fffe7, 22), (0x7ffff2, 23), (0x3fffe8, 22), (0x1ffffec, 25), (0x3ffffe2, 26),
    (0x3ffffe3, 26), (0x3ffffe4, 26), (0x7ffffde, 27), (0x7ffffdf, 27), (0x3ffffe5, 26),
    (0xfffff1, 24), (0x1ffffed, 25), (0x7fff2, 19), (0x1fffe3, 21), (0x3ffffe6, 26),
    (0x7ffffe0, 27), (0x7ffffe1, 27), (0x3ffffe7, 26), (0x7ffffe2, 27), (0xfffff2, 24),
    (0x1fffe4, 21), (0x1fffe5, 21), (0x3ffffe8, 26), (0x3ffffe9, 26), (0xffffffd, 28),
    (0x7ffffe3, 27), (0x7ffffe4, 27), (0x7ffffe5, 27), (0xfffec, 20), (0xfffff3, 24),
    (0xfffed, 20), (0x1fffe6, 21), (0x3fffe9, 22), (0x1fffe7, 21), (0x1fffe8, 21), (0x7ffff3, 23),
    (0x3fffea, 22), (0x3fffeb, 22), (0x1ffffee, 25), (0x1ffffef, 25), (0xfffff4, 24),
    (0xfffff5, 24), (0x3ffffea, 26), (0x7ffff4, 23), (0x3ffffeb, 26), (0x7ffffe6, 27),
    (0x3ffffec, 26), (0x3ffffed, 26), (0x7ffffe7, 27), (0x7ffffe8, 27), (0x7ffffe9, 27),
    (0x7ffffea, 27), (0x7ffffeb, 27), (0xffffffe, 28), (0x7ffffec, 27), (0x7ffffed, 27),
    (0x7ffffee, 27), (0x7ffffef, 27), (0x7fffff0, 27), (0x3ffffee, 26), (0x3fffffff, 30)]"

definition HUFFMAN :: "(nat \<times> nat) list" where
  "HUFFMAN = HUFFMAN_low @ HUFFMAN_high"

lemma length_HUFFMAN: "length HUFFMAN = 257"
  by (simp add: HUFFMAN_def HUFFMAN_low_def HUFFMAN_high_def)

section \<open>The layout of the code\<close>

text \<open>
  \<open>code_span\<close> is where the interval of a code starts, with the code's length. The intervals
  are sorted by merging, since the kernel evaluates a merge sort quickly.
\<close>

definition code_span :: "nat \<times> nat \<Rightarrow> nat \<times> nat" where
  "code_span c = (fst c * 2 ^ (30 - snd c), snd c)"

fun merge_spans :: "(nat \<times> nat) list \<Rightarrow> (nat \<times> nat) list \<Rightarrow> (nat \<times> nat) list" where
  "merge_spans [] ys = ys"
| "merge_spans (x # xs) [] = x # xs"
| "merge_spans (x # xs) (y # ys) =
     (if fst x \<le> fst y then x # merge_spans xs (y # ys) else y # merge_spans (x # xs) ys)"

fun merge_pairs :: "(nat \<times> nat) list list \<Rightarrow> (nat \<times> nat) list list" where
  "merge_pairs (xs # ys # r) = merge_spans xs ys # merge_pairs r"
| "merge_pairs r = r"

definition sorted_spans :: "(nat \<times> nat) list \<Rightarrow> (nat \<times> nat) list" where
  "sorted_spans cs = concat ((merge_pairs ^^ 9) (map (\<lambda>c. [code_span c]) cs))"

lemma mset_merge_spans: "mset (merge_spans xs ys) = mset xs + mset ys"
  by (induction xs ys rule: merge_spans.induct) simp_all

lemma mset_merge_pairs: "mset (concat (merge_pairs r)) = mset (concat r)"
  by (induction r rule: merge_pairs.induct) (simp_all add: mset_merge_spans)

lemma mset_sorted_spans: "mset (sorted_spans cs) = mset (map code_span cs)"
proof -
  have "mset (concat ((merge_pairs ^^ n) r)) = mset (concat r)" for n r
    by (induction n) (simp_all add: mset_merge_pairs)
  moreover have "concat (map (\<lambda>c. [code_span c]) cs) = map code_span cs"
    by (induction cs) simp_all
  ultimately show ?thesis by (simp add: sorted_spans_def)
qed

fun contiguous :: "nat \<Rightarrow> (nat \<times> nat) list \<Rightarrow> bool" where
  "contiguous at [] = (at = 1073741824)"
| "contiguous at (s # ss) = (fst s = at \<and> contiguous (at + 2 ^ (30 - snd s)) ss)"

definition HUFFMAN_spans :: "(nat \<times> nat) list" where
  "HUFFMAN_spans = [
    (0, 5), (33554432, 5), (67108864, 5), (100663296, 5), (134217728, 5), (167772160, 5),
    (201326592, 5), (234881024, 5), (268435456, 5), (301989888, 5), (335544320, 6),
    (352321536, 6), (369098752, 6), (385875968, 6), (402653184, 6), (419430400, 6),
    (436207616, 6), (452984832, 6), (469762048, 6), (486539264, 6), (503316480, 6),
    (520093696, 6), (536870912, 6), (553648128, 6), (570425344, 6), (587202560, 6),
    (603979776, 6), (620756992, 6), (637534208, 6), (654311424, 6), (671088640, 6),
    (687865856, 6), (704643072, 6), (721420288, 6), (738197504, 6), (754974720, 6),
    (771751936, 7), (780140544, 7), (788529152, 7), (796917760, 7), (805306368, 7),
    (813694976, 7), (822083584, 7), (830472192, 7), (838860800, 7), (847249408, 7),
    (855638016, 7), (864026624, 7), (872415232, 7), (880803840, 7), (889192448, 7),
    (897581056, 7), (905969664, 7), (914358272, 7), (922746880, 7), (931135488, 7),
    (939524096, 7), (947912704, 7), (956301312, 7), (964689920, 7), (973078528, 7),
    (981467136, 7), (989855744, 7), (998244352, 7), (1006632960, 7), (1015021568, 7),
    (1023410176, 7), (1031798784, 7), (1040187392, 8), (1044381696, 8), (1048576000, 8),
    (1052770304, 8), (1056964608, 8), (1061158912, 8), (1065353216, 10), (1066401792, 10),
    (1067450368, 10), (1068498944, 10), (1069547520, 10), (1070596096, 11), (1071120384, 11),
    (1071644672, 11), (1072168960, 12), (1072431104, 12), (1072693248, 13), (1072824320, 13),
    (1072955392, 13), (1073086464, 13), (1073217536, 13), (1073348608, 13), (1073479680, 14),
    (1073545216, 14), (1073610752, 15), (1073643520, 15), (1073676288, 15), (1073709056, 19),
    (1073711104, 19), (1073713152, 19), (1073715200, 20), (1073716224, 20), (1073717248, 20),
    (1073718272, 20), (1073719296, 20), (1073720320, 20), (1073721344, 20), (1073722368, 20),
    (1073723392, 21), (1073723904, 21), (1073724416, 21), (1073724928, 21), (1073725440, 21),
    (1073725952, 21), (1073726464, 21), (1073726976, 21), (1073727488, 21), (1073728000, 21),
    (1073728512, 21), (1073729024, 21), (1073729536, 21), (1073730048, 22), (1073730304, 22),
    (1073730560, 22), (1073730816, 22), (1073731072, 22), (1073731328, 22), (1073731584, 22),
    (1073731840, 22), (1073732096, 22), (1073732352, 22), (1073732608, 22), (1073732864, 22),
    (1073733120, 22), (1073733376, 22), (1073733632, 22), (1073733888, 22), (1073734144, 22),
    (1073734400, 22), (1073734656, 22), (1073734912, 22), (1073735168, 22), (1073735424, 22),
    (1073735680, 22), (1073735936, 22), (1073736192, 22), (1073736448, 22), (1073736704, 23),
    (1073736832, 23), (1073736960, 23), (1073737088, 23), (1073737216, 23), (1073737344, 23),
    (1073737472, 23), (1073737600, 23), (1073737728, 23), (1073737856, 23), (1073737984, 23),
    (1073738112, 23), (1073738240, 23), (1073738368, 23), (1073738496, 23), (1073738624, 23),
    (1073738752, 23), (1073738880, 23), (1073739008, 23), (1073739136, 23), (1073739264, 23),
    (1073739392, 23), (1073739520, 23), (1073739648, 23), (1073739776, 23), (1073739904, 23),
    (1073740032, 23), (1073740160, 23), (1073740288, 23), (1073740416, 24), (1073740480, 24),
    (1073740544, 24), (1073740608, 24), (1073740672, 24), (1073740736, 24), (1073740800, 24),
    (1073740864, 24), (1073740928, 24), (1073740992, 24), (1073741056, 24), (1073741120, 24),
    (1073741184, 25), (1073741216, 25), (1073741248, 25), (1073741280, 25), (1073741312, 26),
    (1073741328, 26), (1073741344, 26), (1073741360, 26), (1073741376, 26), (1073741392, 26),
    (1073741408, 26), (1073741424, 26), (1073741440, 26), (1073741456, 26), (1073741472, 26),
    (1073741488, 26), (1073741504, 26), (1073741520, 26), (1073741536, 26), (1073741552, 27),
    (1073741560, 27), (1073741568, 27), (1073741576, 27), (1073741584, 27), (1073741592, 27),
    (1073741600, 27), (1073741608, 27), (1073741616, 27), (1073741624, 27), (1073741632, 27),
    (1073741640, 27), (1073741648, 27), (1073741656, 27), (1073741664, 27), (1073741672, 27),
    (1073741680, 27), (1073741688, 27), (1073741696, 27), (1073741704, 28), (1073741708, 28),
    (1073741712, 28), (1073741716, 28), (1073741720, 28), (1073741724, 28), (1073741728, 28),
    (1073741732, 28), (1073741736, 28), (1073741740, 28), (1073741744, 28), (1073741748, 28),
    (1073741752, 28), (1073741756, 28), (1073741760, 28), (1073741764, 28), (1073741768, 28),
    (1073741772, 28), (1073741776, 28), (1073741780, 28), (1073741784, 28), (1073741788, 28),
    (1073741792, 28), (1073741796, 28), (1073741800, 28), (1073741804, 28), (1073741808, 28),
    (1073741812, 28), (1073741816, 28), (1073741820, 30), (1073741821, 30), (1073741822, 30),
    (1073741823, 30)]"

lemma sorted_spans_HUFFMAN: "sorted_spans HUFFMAN = HUFFMAN_spans"
  by code_simp

lemma contiguous_HUFFMAN: "contiguous 0 HUFFMAN_spans"
  unfolding HUFFMAN_spans_def by simp

lemma HUFFMAN_ranges:
  "c \<in> set HUFFMAN \<Longrightarrow> 5 \<le> snd c \<and> snd c \<le> 30 \<and> fst c < 2 ^ snd c"
proof -
  have "list_all (\<lambda>c. 5 \<le> snd c \<and> snd c \<le> 30 \<and> fst c < 2 ^ snd c) HUFFMAN"
    unfolding HUFFMAN_def HUFFMAN_low_def HUFFMAN_high_def by simp
  then show "c \<in> set HUFFMAN \<Longrightarrow> 5 \<le> snd c \<and> snd c \<le> 30 \<and> fst c < 2 ^ snd c"
    unfolding list_all_iff by blast
qed

lemma HUFFMAN_eos: "HUFFMAN ! 256 = (1073741823, 30)"
  unfolding HUFFMAN_def HUFFMAN_low_def HUFFMAN_high_def by (simp add: nth_append)

section \<open>Prefix freedom\<close>

text \<open>The bits of a code, most significant first, and bit lists as numbers.\<close>

definition code_bits :: "nat \<times> nat \<Rightarrow> bool list" where
  "code_bits c = map (bit (fst c)) (rev [0..<snd c])"

definition bits_value :: "bool list \<Rightarrow> nat" where
  "bits_value bs = horner_sum of_bool 2 (rev bs)"

lemma length_code_bits [simp]: "length (code_bits c) = snd c"
  by (simp add: code_bits_def)

lemma bits_value_append: "bits_value (xs @ ys) = bits_value xs * 2 ^ length ys + bits_value ys"
  by (simp add: bits_value_def horner_sum_append)

lemma bits_value_less: "bits_value bs < 2 ^ length bs"
proof (induction bs rule: rev_induct)
  case (snoc b bs)
  have "bits_value [b] \<le> 1" by (simp add: bits_value_def)
  with snoc show ?case by (simp add: bits_value_append)
qed (simp add: bits_value_def)

lemma bits_value_code: "fst c < 2 ^ snd c \<Longrightarrow> bits_value (code_bits c) = fst c"
  by (simp add: bits_value_def code_bits_def rev_map horner_sum_bit_eq_take_bit take_bit_nat_eq_self)

lemma contiguous_bound: "contiguous at ss \<Longrightarrow> s \<in> set ss \<Longrightarrow> at \<le> fst s"
  by (induction ss arbitrary: at) (auto, fastforce)

lemma contiguous_disjoint:
  "contiguous at ss \<Longrightarrow> distinct ss \<and>
     (\<forall>s \<in> set ss. \<forall>t \<in> set ss. s = t \<or> fst s + 2 ^ (30 - snd s) \<le> fst t
        \<or> fst t + 2 ^ (30 - snd t) \<le> fst s)"
proof (induction ss arbitrary: at)
  case (Cons s ss)
  from Cons.prems have s: "fst s = at" and c: "contiguous (at + 2 ^ (30 - snd s)) ss"
    by simp_all
  have b: "fst s + 2 ^ (30 - snd s) \<le> fst t" if "t \<in> set ss" for t
    using contiguous_bound [OF c that] s by simp
  have "s \<notin> set ss"
    using b [of s] by auto
  with Cons.IH [OF c] b show ?case by auto
qed simp

lemma HUFFMAN_disjoint:
  assumes "i < 257" and "j < 257" and "i \<noteq> j"
  defines "s \<equiv> code_span (HUFFMAN ! i)" and "t \<equiv> code_span (HUFFMAN ! j)"
  shows "fst s + 2 ^ (30 - snd s) \<le> fst t \<or> fst t + 2 ^ (30 - snd t) \<le> fst s"
proof -
  have m: "mset HUFFMAN_spans = mset (map code_span HUFFMAN)"
    using mset_sorted_spans [of HUFFMAN] by (simp only: sorted_spans_HUFFMAN)
  note c = contiguous_disjoint [OF contiguous_HUFFMAN]
  have d: "distinct (map code_span HUFFMAN)"
    using c mset_eq_imp_distinct_iff [OF m] by blast
  have n: "s = map code_span HUFFMAN ! i" "t = map code_span HUFFMAN ! j"
    using assms(1,2) by (simp_all add: s_def t_def length_HUFFMAN)
  have "s \<noteq> t"
    unfolding n using nth_eq_iff_index_eq [OF d, of i j] assms(1-3) by (simp add: length_HUFFMAN)
  moreover have "s \<in> set (map code_span HUFFMAN)" "t \<in> set (map code_span HUFFMAN)"
    unfolding n by (rule nth_mem, use assms(1,2) in \<open>simp add: length_HUFFMAN\<close>)+
  ultimately show ?thesis
    using c unfolding mset_eq_setD [OF m] by blast
qed

lemma HUFFMAN_prefix_free:
  assumes "i < 257" and "j < 257" and "prefix (code_bits (HUFFMAN ! i)) (code_bits (HUFFMAN ! j))"
  shows "i = j"
proof (rule ccontr)
  assume "i \<noteq> j"
  define c d where "c = HUFFMAN ! i" and "d = HUFFMAN ! j"
  from assms(1,2) have "c \<in> set HUFFMAN" "d \<in> set HUFFMAN"
    by (simp_all add: c_def d_def length_HUFFMAN)
  note rc = HUFFMAN_ranges [OF this(1)] and rd = HUFFMAN_ranges [OF this(2)]
  from assms(3) obtain x where x: "code_bits d = code_bits c @ x"
    by (auto simp: prefix_def c_def d_def)
  have l: "snd d = snd c + length x"
    using arg_cong [OF x, of length] by simp
  have v: "fst d = fst c * 2 ^ length x + bits_value x"
    using arg_cong [OF x, of bits_value] rc rd by (simp add: bits_value_append bits_value_code)
  have e: "(30::nat) - snd c = length x + (30 - snd d)"
    using l rd by simp
  have lo: "fst c * 2 ^ (30 - snd c) \<le> fst d * 2 ^ (30 - snd d)"
    unfolding v e power_add by (simp add: add_mult_distrib mult.assoc)
  have "bits_value x + 1 \<le> 2 ^ length x"
    using bits_value_less [of x] by simp
  then have "(bits_value x + 1) * 2 ^ (30 - snd d) \<le> 2 ^ length x * 2 ^ (30 - snd d)"
    by (rule mult_right_mono) simp
  then have hi: "fst d * 2 ^ (30 - snd d) + 2 ^ (30 - snd d) \<le> fst c * 2 ^ (30 - snd c) + 2 ^ (30 - snd c)"
    unfolding v e power_add by (simp add: add_mult_distrib mult.assoc)
  have p: "(0::nat) < 2 ^ (30 - snd c)" "(0::nat) < 2 ^ (30 - snd d)"
    by simp_all
  show False
    using HUFFMAN_disjoint [OF assms(1,2) \<open>i \<noteq> j\<close>, folded c_def d_def] lo hi p
    by (simp add: code_span_def)
qed

end
