(* ===== verification/Hpack_Huffman.thy ===== *)
theory Hpack_Huffman
  imports Hpack_Integer Hpack_Huffman_Table
begin

text \<open>
  Huffman string decoding, \<open>fingerprint-h2/src/hpack/huffman.rs\<close>: the decode tree with its
  slot encoding, its construction from the code table, and the bit-by-bit decoder. The locale
  \<open>prefix_code\<close> states what the construction needs of a code table; inside it the tree is
  shown to hold each code at its own terminal and nothing else.
\<close>

unbundle bit_operations_syntax

section \<open>The tree\<close>

text \<open>
  A node is a pair of \<open>i32\<close> slots: \<open>0\<close> is unset, a positive value a child index, a negative
  value a terminal carrying \<open>- (symbol + 1)\<close>. The slot index \<open>0 / 1\<close> is a bool.
\<close>

type_synonym nodes = "(int \<times> int) list"

definition node_slot :: "nodes \<Rightarrow> nat \<Rightarrow> bool \<Rightarrow> int option" where
  "node_slot nodes at b = map_option (\<lambda>n. if b then snd n else fst n) (get_at nodes at)"

definition set_slot :: "nodes \<Rightarrow> nat \<Rightarrow> bool \<Rightarrow> int \<Rightarrow> nodes" where
  "set_slot nodes at b v =
     (if at < length nodes
      then nodes[at := (if b then (fst (nodes ! at), v) else (v, snd (nodes ! at)))] else nodes)"

fun build_bit :: "nat \<Rightarrow> nat \<Rightarrow> nodes \<times> nat \<Rightarrow> nat \<Rightarrow> nodes \<times> nat" where
  "build_bit symbol code (nodes, at) i =
     (let b = bit code i in
      if i = 0 then (set_slot nodes at b (- (int symbol + 1)), at)
      else
        let next = (case node_slot nodes at b of None \<Rightarrow> 0 | Some s \<Rightarrow> s) in
        if 0 < next then (nodes, nat next)
        else
          let nodes = nodes @ [(0, 0)];
              created = length nodes - 1
          in (set_slot nodes at b (int created), created))"

fun build_symbol :: "nodes \<Rightarrow> nat \<times> (nat \<times> nat) \<Rightarrow> nodes" where
  "build_symbol nodes (symbol, (code, bits)) =
     fst (foldl (build_bit symbol code) (nodes, 0) (rev [0..<bits]))"

definition tree_build :: nodes where
  "tree_build = foldl build_symbol [(0, 0)] (enumerate 0 HUFFMAN)"

section \<open>The decoder\<close>

definition EOS :: nat where "EOS = 256"

record huff_state =
  hs_out :: bytes
  hs_at :: nat
  hs_since :: nat
  hs_ones :: bool

definition huff_start :: huff_state where
  "huff_start = \<lparr>hs_out = [], hs_at = 0, hs_since = 0, hs_ones = True\<rparr>"

definition huff_bit :: "nodes \<Rightarrow> huff_state \<Rightarrow> bool \<Rightarrow> hpack_error + huff_state" where
  "huff_bit t st b =
     (let ones = (if b then hs_ones st else False);
          since = hs_since st + 1
      in try_res (ok_or BadHuffman (node_slot t (hs_at st) b)) (\<lambda>slot.
         if slot < 0 then
           let symbol = nat (- slot - 1) in
           if symbol = EOS then Inl BadHuffman
           else Inr (st\<lparr>hs_out := hs_out st @ [of_nat symbol], hs_at := 0, hs_since := 0,
                        hs_ones := True\<rparr>)
         else if 0 < slot then Inr (st\<lparr>hs_at := nat slot, hs_since := since, hs_ones := ones\<rparr>)
         else Inl BadHuffman))"

definition huff_byte :: "nodes \<Rightarrow> huff_state \<Rightarrow> u8 \<Rightarrow> hpack_error + huff_state" where
  "huff_byte t st byte = try_fold (\<lambda>st i. huff_bit t st (bit byte i)) st (rev [0..<8])"

definition huff_decode :: "bytes \<Rightarrow> hpack_error + bytes" where
  "huff_decode input =
     try_res (try_fold (huff_byte tree_build) huff_start input) (\<lambda>st.
     if 7 < hs_since st \<or> \<not> hs_ones st then Inl BadHuffman else Inr (hs_out st))"

section \<open>Inserting a path\<close>

text \<open>The inner loop of \<open>build\<close> over the bits of one code, from a given node.\<close>

definition slot :: "nodes \<Rightarrow> nat \<Rightarrow> bool \<Rightarrow> int" where
  "slot nodes k b = (case node_slot nodes k b of None \<Rightarrow> 0 | Some s \<Rightarrow> s)"

fun insert_path :: "nodes \<Rightarrow> nat \<Rightarrow> nat \<Rightarrow> bool list \<Rightarrow> nodes" where
  "insert_path nodes at sy [] = nodes"
| "insert_path nodes at sy [b] = set_slot nodes at b (- (int sy + 1))"
| "insert_path nodes at sy (b # c # bs) =
     (if 0 < slot nodes at b then insert_path nodes (nat (slot nodes at b)) sy (c # bs)
      else insert_path (set_slot (nodes @ [(0, 0)]) at b (int (length nodes))) (length nodes) sy
             (c # bs))"

lemma build_bits_insert:
  "0 < n \<Longrightarrow> fst (foldl (build_bit sy code) (nodes, at) (rev [0..<n])) =
     insert_path nodes at sy (map (bit code) (rev [0..<n]))"
proof (induction n arbitrary: nodes at)
  case (Suc n)
  show ?case
  proof (cases n)
    case 0
    then show ?thesis by (simp add: Let_def)
  next
    case (Suc m)
    with Suc.IH show ?thesis
      by (simp add: Let_def slot_def)
  qed
qed simp

lemma build_symbol_insert:
  "0 < snd c \<Longrightarrow> build_symbol nodes (sy, c) = insert_path nodes 0 sy (code_bits c)"
  using build_bits_insert [of "snd c" sy "fst c" nodes 0]
  by (cases c) (simp add: code_bits_def)

lemma slot_set_slot:
  "at < length nodes \<Longrightarrow>
     slot (set_slot nodes at b v) k b' = (if k = at \<and> b' = b then v else slot nodes k b')"
  by (auto simp: slot_def set_slot_def node_slot_def get_at_def nth_list_update)

lemma slot_grow: "slot (nodes @ [(0, 0)]) k b = slot nodes k b"
  by (auto simp: slot_def node_slot_def get_at_def nth_append)

lemma slot_beyond: "length nodes \<le> k \<Longrightarrow> slot nodes k b = 0"
  by (simp add: slot_def node_slot_def get_at_def)

lemma length_set_slot [simp]: "length (set_slot nodes at b v) = length nodes"
  by (simp add: set_slot_def)

lemma node_slot_slot: "k < length nodes \<Longrightarrow> node_slot nodes k b = Some (slot nodes k b)"
  by (simp add: slot_def node_slot_def get_at_def)

text \<open>\<open>grows\<close>: a set slot is never changed again. \<open>node_at\<close> follows child slots.\<close>

definition grows :: "nodes \<Rightarrow> nodes \<Rightarrow> bool" where
  "grows ns ms \<longleftrightarrow> length ns \<le> length ms \<and> (\<forall>k b. slot ns k b \<noteq> 0 \<longrightarrow> slot ms k b = slot ns k b)"

fun node_at :: "nodes \<Rightarrow> nat \<Rightarrow> bool list \<Rightarrow> nat option" where
  "node_at nodes at [] = Some at"
| "node_at nodes at (b # bs) =
     (if 0 < slot nodes at b then node_at nodes (nat (slot nodes at b)) bs else None)"

lemma grows_refl [simp]: "grows ns ns"
  by (simp add: grows_def)

lemma grows_trans: "grows ns ms \<Longrightarrow> grows ms ps \<Longrightarrow> grows ns ps"
  by (fastforce simp: grows_def)

lemma node_at_grows: "grows ns ms \<Longrightarrow> node_at ns at bs = Some k \<Longrightarrow> node_at ms at bs = Some k"
  by (induction bs arbitrary: at) (auto simp: grows_def split: if_splits)

lemma node_at_append:
  "node_at ns at (xs @ ys) = Option.bind (node_at ns at xs) (\<lambda>k. node_at ns k ys)"
  by (induction xs arbitrary: at) auto

text \<open>\<open>terminal nodes at bs v\<close>: following \<open>bs\<close> from \<open>at\<close> ends in the terminal slot \<open>v\<close>.\<close>

definition terminal :: "nodes \<Rightarrow> nat \<Rightarrow> bool list \<Rightarrow> int \<Rightarrow> bool" where
  "terminal nodes at bs v \<longleftrightarrow>
     bs \<noteq> [] \<and> v < 0 \<and> (\<exists>k. node_at nodes at (butlast bs) = Some k \<and> slot nodes k (last bs) = v)"

lemma terminal_grows: "grows ns ms \<Longrightarrow> terminal ns at bs v \<Longrightarrow> terminal ms at bs v"
  using node_at_grows by (fastforce simp: terminal_def grows_def)

section \<open>Trees of prefix-free codes\<close>

locale prefix_code =
  fixes codes :: "bool list list"
  assumes code_nonempty: "i < length codes \<Longrightarrow> codes ! i \<noteq> []"
    and code_prefix_free:
      "i < length codes \<Longrightarrow> j < length codes \<Longrightarrow> prefix (codes ! i) (codes ! j) \<Longrightarrow> i = j"
begin

text \<open>
  The invariant of \<open>build\<close> after \<open>n\<close> symbols, \<open>lab\<close> naming the path to each node: child slots
  lead to the node of the longer path, which begins some code up to \<open>n\<close>; a terminal slot is
  the end of the code it names.
\<close>

definition tree_inv :: "nat \<Rightarrow> nodes \<Rightarrow> (nat \<Rightarrow> bool list) \<Rightarrow> bool" where
  "tree_inv n nodes lab \<longleftrightarrow>
     0 < length nodes \<and> lab 0 = [] \<and>
     (\<forall>k b. 0 < slot nodes k b \<longrightarrow>
        nat (slot nodes k b) < length nodes \<and> lab (nat (slot nodes k b)) = lab k @ [b] \<and>
        (\<exists>i. i \<le> n \<and> i < length codes \<and> strict_prefix (lab k @ [b]) (codes ! i))) \<and>
     (\<forall>k b. slot nodes k b < 0 \<longrightarrow>
        (\<exists>i < n. i < length codes \<and> slot nodes k b = - (int i + 1) \<and> codes ! i = lab k @ [b]))"

lemma tree_inv_free:
  assumes "tree_inv n nodes lab" and "n < length codes" and "lab k @ b # bs = codes ! n"
  shows "bs = [] \<Longrightarrow> slot nodes k b = 0" and "slot nodes k b \<ge> 0"
proof -
  show pos: "slot nodes k b \<ge> 0"
  proof (rule ccontr)
    assume "\<not> slot nodes k b \<ge> 0"
    then obtain i where "i < n" "i < length codes" "codes ! i = lab k @ [b]"
      using assms(1) unfolding tree_inv_def by (meson not_le)
    moreover from this have "prefix (codes ! i) (codes ! n)"
      using assms(3) by (metis append_Cons append_Nil append_assoc prefix_def)
    ultimately show False
      using code_prefix_free [of i n] assms(2) by simp
  qed
  assume "bs = []"
  show "slot nodes k b = 0"
  proof (rule ccontr)
    assume "slot nodes k b \<noteq> 0"
    with pos have "0 < slot nodes k b" by simp
    then obtain i where i: "i < length codes" "strict_prefix (lab k @ [b]) (codes ! i)"
      using assms(1) unfolding tree_inv_def by meson
    then have "strict_prefix (codes ! n) (codes ! i)"
      using assms(3) \<open>bs = []\<close> by simp
    with code_prefix_free [of n i] assms(2) i(1) show False
      by (auto simp: strict_prefix_def)
  qed
qed

lemma tree_inv_terminal:
  assumes inv: "tree_inv n nodes lab" and n: "n < length codes" and path: "lab k0 @ [b0] = codes ! n"
    and s: "\<And>k b. slot ms k b = (if k = k0 \<and> b = b0 then - (int n + 1) else slot nodes k b)"
    and len: "length ms = length nodes"
  shows "tree_inv (Suc n) ms lab"
  unfolding tree_inv_def
proof (intro conjI allI impI)
  show "0 < length ms" "lab 0 = []"
    using inv by (simp_all add: tree_inv_def len)
next
  fix k b assume "0 < slot ms k b"
  then have p: "0 < slot nodes k b" "slot ms k b = slot nodes k b"
    using s [of k b] by (auto split: if_splits)
  with inv show "nat (slot ms k b) < length ms" "lab (nat (slot ms k b)) = lab k @ [b]"
    by (simp_all add: tree_inv_def len)
  from inv p(1) obtain i where "i \<le> n" "i < length codes" "strict_prefix (lab k @ [b]) (codes ! i)"
    unfolding tree_inv_def by meson
  then show "\<exists>i\<le>Suc n. i < length codes \<and> strict_prefix (lab k @ [b]) (codes ! i)"
    using le_SucI by blast
next
  fix k b assume p: "slot ms k b < 0"
  show "\<exists>i<Suc n. i < length codes \<and> slot ms k b = - (int i + 1) \<and> codes ! i = lab k @ [b]"
  proof (cases "k = k0 \<and> b = b0")
    case True
    with n path s [of k b] show ?thesis
      by (intro exI [of _ n]) simp
  next
    case False
    with p have "slot nodes k b < 0" "slot ms k b = slot nodes k b"
      using s [of k b] by (auto split: if_splits)
    with inv obtain i where "i < n" "i < length codes" "slot ms k b = - (int i + 1)"
        "codes ! i = lab k @ [b]"
      unfolding tree_inv_def by metis
    then show ?thesis using less_SucI by blast
  qed
qed

lemma tree_inv_child:
  assumes inv: "tree_inv n nodes lab" and n: "n < length codes" and k0: "k0 < length nodes"
    and path: "strict_prefix (lab k0 @ [b0]) (codes ! n)"
    and s: "\<And>k b. slot ms k b = (if k = k0 \<and> b = b0 then int (length nodes) else slot nodes k b)"
    and len: "length ms = Suc (length nodes)"
  shows "tree_inv n ms (lab(length nodes := lab k0 @ [b0]))" (is "tree_inv n ms ?lab")
  unfolding tree_inv_def
proof (intro conjI allI impI)
  show "0 < length ms" "?lab 0 = []"
    using inv k0 by (auto simp: tree_inv_def len)
next
  fix k b assume p: "0 < slot ms k b"
  have "nat (slot ms k b) < length ms \<and> ?lab (nat (slot ms k b)) = ?lab k @ [b] \<and>
      (\<exists>i\<le>n. i < length codes \<and> strict_prefix (?lab k @ [b]) (codes ! i))"
  proof (cases "k = k0 \<and> b = b0")
    case True
    with k0 n path s [of k b] show ?thesis
      by (auto simp: len)
  next
    case False
    with p s [of k b] have e: "0 < slot nodes k b" "slot ms k b = slot nodes k b"
      by auto
    then have "k < length nodes"
      using slot_beyond [of nodes k b] by (cases "k < length nodes") simp_all
    moreover from e inv have "nat (slot nodes k b) < length nodes"
      "lab (nat (slot nodes k b)) = lab k @ [b]"
      "\<exists>i\<le>n. i < length codes \<and> strict_prefix (lab k @ [b]) (codes ! i)"
      unfolding tree_inv_def by blast+
    ultimately show ?thesis
      by (simp add: e(2) len)
  qed
  then show "nat (slot ms k b) < length ms" "?lab (nat (slot ms k b)) = ?lab k @ [b]"
    "\<exists>i\<le>n. i < length codes \<and> strict_prefix (?lab k @ [b]) (codes ! i)"
    by blast+
next
  fix k b assume "slot ms k b < 0"
  then have e: "slot nodes k b < 0" "slot ms k b = slot nodes k b"
    using s [of k b] by (auto split: if_splits)
  then have "k < length nodes"
    using slot_beyond [of nodes k b] by (cases "k < length nodes") simp_all
  moreover from inv e(1) have "\<exists>i<n. i < length codes \<and> slot nodes k b = - (int i + 1) \<and>
      codes ! i = lab k @ [b]"
    unfolding tree_inv_def by blast
  ultimately show "\<exists>i<n. i < length codes \<and> slot ms k b = - (int i + 1) \<and> codes ! i = ?lab k @ [b]"
    by (simp add: e(2))
qed

text \<open>The last bit of a code: its slot is set to the symbol.\<close>

lemma insert_leaf_inv:
  assumes "tree_inv n nodes lab" and "n < length codes" and "at < length nodes" and "lab at @ [b] = codes ! n"
  shows "tree_inv (Suc n) (set_slot nodes at b (- (int n + 1))) lab \<and>
    grows nodes (set_slot nodes at b (- (int n + 1))) \<and>
    terminal (set_slot nodes at b (- (int n + 1))) at [b] (- (int n + 1))"
proof -
  note free = tree_inv_free(1) [OF assms(1,2,4)]
  let ?ns = "set_slot nodes at b (- (int n + 1))"
  have s: "slot ?ns k b' = (if k = at \<and> b' = b then - (int n + 1) else slot nodes k b')" for k b'
    using assms(3) by (rule slot_set_slot)
  have "tree_inv (Suc n) ?ns lab"
    by (rule tree_inv_terminal [OF assms(1,2,4) s]) simp
  moreover have "slot ?ns k b' = slot nodes k b'" if "slot nodes k b' \<noteq> 0" for k b'
    using that free s [of k b'] by (auto split: if_splits)
  then have "grows nodes ?ns"
    by (simp add: grows_def)
  moreover have "terminal ?ns at [b] (- (int n + 1))"
    using s [of at b] by (simp add: terminal_def)
  ultimately show ?thesis by blast
qed

text \<open>An earlier bit that has no node yet: one is appended.\<close>

lemma insert_child_inv:
  assumes "tree_inv n nodes lab" and "n < length codes" and "at < length nodes"
    and "lab at @ b # c # bs = codes ! n" and "\<not> 0 < slot nodes at b"
    and "ms = set_slot (nodes @ [(0, 0)]) at b (int (length nodes))"
  shows "tree_inv n ms (lab(length nodes := lab at @ [b])) \<and> grows nodes ms \<and>
    length ms = Suc (length nodes) \<and> slot ms at b = int (length nodes) \<and> slot ms at b \<noteq> 0"
proof -
  have z: "slot nodes at b = 0"
    using tree_inv_free(2) [OF assms(1,2,4)] assms(5) by simp
  have s: "slot ms k b' = (if k = at \<and> b' = b then int (length nodes) else slot nodes k b')" for k b'
    unfolding assms(6) using assms(3) by (simp add: slot_set_slot slot_grow)
  have len: "length ms = Suc (length nodes)"
    by (simp add: assms(6))
  have sp: "strict_prefix (lab at @ [b]) (codes ! n)"
    by (rule strict_prefixI' [where z = c and zs = bs]) (use assms(4) in simp)
  have "slot ms k b' = slot nodes k b'" if "slot nodes k b' \<noteq> 0" for k b'
    using that z s [of k b'] by auto
  then have "grows nodes ms" by (simp add: grows_def len)
  with tree_inv_child [OF assms(1,2,3) sp s len] len assms(3) show ?thesis
    by (auto simp: s)
qed

lemma insert_path_inv:
  "tree_inv n nodes lab \<Longrightarrow> n < length codes \<Longrightarrow> at < length nodes \<Longrightarrow> bs \<noteq> [] \<Longrightarrow>
     lab at @ bs = codes ! n \<Longrightarrow>
     (\<exists>lab'. tree_inv (Suc n) (insert_path nodes at n bs) lab') \<and>
     grows nodes (insert_path nodes at n bs) \<and>
     terminal (insert_path nodes at n bs) at bs (- (int n + 1))"
proof (induction nodes at n bs arbitrary: lab rule: insert_path.induct)
  case (2 nodes at n b)
  from insert_leaf_inv [OF "2.prems"(1-3,5)] show ?case by auto
next
  case (3 nodes at n b c bs)
  show ?case
  proof (cases "0 < slot nodes at b")
    case True
    define k where "k = nat (slot nodes at b)"
    have k: "k < length nodes" "lab k = lab at @ [b]"
      using True "3.prems"(1) unfolding tree_inv_def k_def by blast+
    have "lab k @ c # bs = codes ! n"
      using "3.prems"(5) k(2) by simp
    note ih = "3.IH"(1) [OF True "3.prems"(1,2) k(1) [unfolded k_def] _ this [unfolded k_def],
        folded k_def]
    have ins: "insert_path nodes at n (b # c # bs) = insert_path nodes k n (c # bs)"
      using True by (simp add: k_def)
    have "slot (insert_path nodes k n (c # bs)) at b = slot nodes at b"
      using ih True by (simp add: grows_def)
    then show ?thesis using ih True unfolding ins by (auto simp: terminal_def k_def)
  next
    case False
    define ms where "ms = set_slot (nodes @ [(0, 0)]) at b (int (length nodes))"
    note c = insert_child_inv [OF "3.prems"(1,2,3,5) False ms_def]
    let ?lab = "lab(length nodes := lab at @ [b])"
    have path: "?lab (length nodes) @ c # bs = codes ! n"
      using "3.prems"(5) by simp
    have inv: "tree_inv n ms ?lab" and len: "length nodes < length ms" using c by simp_all
    note ih = "3.IH"(2) [OF False inv [unfolded ms_def] "3.prems"(2) len [unfolded ms_def] _ path,
        folded ms_def]
    have ins: "insert_path nodes at n (b # c # bs) = insert_path ms (length nodes) n (c # bs)"
      using False by (simp add: ms_def)
    from ih have g: "grows ms (insert_path ms (length nodes) n (c # bs))" by simp
    then have "slot (insert_path ms (length nodes) n (c # bs)) at b = slot ms at b"
      using c unfolding grows_def by blast
    with c have "slot (insert_path ms (length nodes) n (c # bs)) at b = int (length nodes)" by simp
    then have "terminal (insert_path ms (length nodes) n (c # bs)) at (b # c # bs) (- (int n + 1))"
      using ih "3.prems"(3) by (auto simp: terminal_def)
    moreover have "grows nodes (insert_path ms (length nodes) n (c # bs))"
      using grows_trans [OF _ g] c by blast
    ultimately show ?thesis using ih unfolding ins by simp
  qed
qed simp

definition code_tree :: "nat \<Rightarrow> nodes" where
  "code_tree n = foldl (\<lambda>ns i. insert_path ns 0 i (codes ! i)) [(0, 0)] [0..<n]"

lemma code_tree_inv:
  "n \<le> length codes \<Longrightarrow>
     (\<exists>lab. tree_inv n (code_tree n) lab) \<and>
     (\<forall>i < n. terminal (code_tree n) 0 (codes ! i) (- (int i + 1)))"
proof (induction n)
  case 0
  have "slot [(0, 0)] k b = 0" for k b
    by (cases k) (simp_all add: slot_def node_slot_def)
  then show ?case
    by (auto simp: code_tree_def tree_inv_def)
next
  case (Suc n)
  then obtain lab where lab: "tree_inv n (code_tree n) lab" by auto
  have t: "code_tree (Suc n) = insert_path (code_tree n) 0 n (codes ! n)"
    by (simp add: code_tree_def)
  have "0 < length (code_tree n)" "lab 0 @ codes ! n = codes ! n"
    using lab by (simp_all add: tree_inv_def)
  with insert_path_inv [OF lab _ this(1) code_nonempty this(2)] Suc show ?case
    unfolding t by (auto simp: less_Suc_eq intro: terminal_grows)
qed

text \<open>The finished tree.\<close>

definition full_tree :: nodes where
  "full_tree = code_tree (length codes)"

lemma full_tree_label:
  "\<exists>lab. tree_inv (length codes) full_tree lab \<and>
     (\<forall>p k. node_at full_tree 0 p = Some k \<longrightarrow> lab k = p \<and> k < length full_tree)"
proof -
  from code_tree_inv [of "length codes"] obtain lab where
      lab: "tree_inv (length codes) full_tree lab"
    by (auto simp: full_tree_def)
  have "lab k = p \<and> k < length full_tree" if "node_at full_tree 0 p = Some k" for p k
    using that
  proof (induction p arbitrary: k rule: rev_induct)
    case Nil
    with lab show ?case by (simp add: tree_inv_def)
  next
    case (snoc b p)
    from snoc.prems obtain j where j: "node_at full_tree 0 p = Some j"
        and k: "0 < slot full_tree j b" "k = nat (slot full_tree j b)"
      by (auto simp: node_at_append split: Option.bind_splits if_splits)
    from lab k have "k < length full_tree" "lab k = lab j @ [b]"
      unfolding tree_inv_def by blast+
    with snoc.IH [OF j] show ?case by simp
  qed
  with lab show ?thesis by blast
qed

lemma full_tree_terminal: "i < length codes \<Longrightarrow> terminal full_tree 0 (codes ! i) (- (int i + 1))"
  using code_tree_inv [of "length codes"] by (simp add: full_tree_def)

lemma full_tree_sound:
  assumes "node_at full_tree 0 p = Some k" and "slot full_tree k b < 0"
  shows "\<exists>i < length codes. slot full_tree k b = - (int i + 1) \<and> codes ! i = p @ [b]"
proof -
  from full_tree_label obtain lab where lab: "tree_inv (length codes) full_tree lab" "lab k = p"
    using assms(1) by blast
  with assms(2) show ?thesis
    unfolding tree_inv_def by blast
qed

lemma full_tree_range: "node_at full_tree 0 p = Some k \<Longrightarrow> k < length full_tree"
  using full_tree_label by blast

lemma full_tree_prefix:
  assumes "i < length codes" and "codes ! i = p @ b # q"
  shows "\<exists>k. node_at full_tree 0 p = Some k"
proof -
  from full_tree_terminal [OF assms(1)] obtain k where
      "node_at full_tree 0 (butlast (p @ b # q)) = Some k"
    by (auto simp: terminal_def assms(2))
  then show ?thesis
    by (auto simp: butlast_append node_at_append split: Option.bind_splits)
qed

end

section \<open>The HPACK code\<close>

definition huff_codes :: "bool list list" where
  "huff_codes = map code_bits HUFFMAN"

lemma length_huff_codes [simp]: "length huff_codes = 257"
  by (simp add: huff_codes_def length_HUFFMAN)

lemma huff_codes_nth: "i < 257 \<Longrightarrow> huff_codes ! i = code_bits (HUFFMAN ! i)"
  by (simp add: huff_codes_def length_HUFFMAN)

lemma huff_code_length: "i < 257 \<Longrightarrow> 5 \<le> length (huff_codes ! i) \<and> length (huff_codes ! i) \<le> 30"
  using HUFFMAN_ranges [of "HUFFMAN ! i"] by (simp add: huff_codes_nth length_HUFFMAN)

lemma huff_code_eos: "huff_codes ! 256 = replicate 30 True"
proof (rule nth_equalityI)
  fix i assume "i < length (huff_codes ! 256)"
  then have "i < 30"
    by (simp add: huff_codes_nth HUFFMAN_eos)
  moreover have m: "(1073741823 :: nat) = mask 30"
    by (simp add: mask_eq_exp_minus_1)
  have "bit (1073741823 :: nat) j" if "j < 30" for j
    using that unfolding m by (simp only: bit_mask_iff) simp
  ultimately show "huff_codes ! 256 ! i = replicate 30 True ! i"
    by (simp add: huff_codes_nth HUFFMAN_eos code_bits_def rev_nth)
qed (simp add: huff_codes_nth HUFFMAN_eos)

interpretation huff: prefix_code huff_codes
proof
  fix i assume "i < length huff_codes"
  then show "huff_codes ! i \<noteq> []"
    using huff_code_length [of i] by auto
next
  fix i j
  assume "i < length huff_codes" "j < length huff_codes" "prefix (huff_codes ! i) (huff_codes ! j)"
  then show "i = j"
    using HUFFMAN_prefix_free [of i j] by (simp add: huff_codes_nth)
qed

lemma tree_build_code_tree: "tree_build = huff.full_tree"
proof -
  have "foldl build_symbol ns (enumerate n cs) =
      foldl (\<lambda>ns i. insert_path ns 0 i (code_bits (cs ! (i - n)))) ns [n..<n + length cs]"
    if "\<forall>c \<in> set cs. 0 < snd c" for ns n cs
    using that
  proof (induction cs arbitrary: ns n)
    case (Cons c cs)
    have s: "(c # cs) ! (i - n) = cs ! (i - Suc n)" if "Suc n \<le> i" for i
      using that by (simp add: nth_Cons')
    have "[n..<n + length (c # cs)] = n # [Suc n..<Suc n + length cs]"
      by (simp add: upt_conv_Cons del: upt_Suc)
    moreover have "foldl (\<lambda>ns i. insert_path ns 0 i (code_bits ((c # cs) ! (i - n)))) ms
        [Suc n..<Suc n + length cs] =
      foldl (\<lambda>ns i. insert_path ns 0 i (code_bits (cs ! (i - Suc n)))) ms
        [Suc n..<Suc n + length cs]" for ms
      by (rule foldl_cong) (auto simp: s simp del: upt_Suc)
    ultimately show ?case
      using Cons.IH [of "build_symbol ns (n, c)" "Suc n"] Cons.prems
      by (simp add: build_symbol_insert del: upt_Suc)
  qed simp
  from this [of HUFFMAN "[(0, 0)]" 0] have
    "tree_build = foldl (\<lambda>ns i. insert_path ns 0 i (code_bits (HUFFMAN ! i))) [(0, 0)] [0..<257]"
    using HUFFMAN_ranges by (fastforce simp: tree_build_def length_HUFFMAN)
  also have "\<dots> = huff.full_tree"
    unfolding huff.full_tree_def huff.code_tree_def length_huff_codes
    by (rule foldl_cong) (simp_all add: huff_codes_nth)
  finally show ?thesis .
qed

section \<open>What the decoder accepts\<close>

definition byte_bits :: "u8 \<Rightarrow> bool list" where
  "byte_bits b = map (bit b) (rev [0..<8])"

definition sym_bits :: "u8 \<Rightarrow> bool list" where
  "sym_bits b = huff_codes ! unat b"

abbreviation huff_bits :: "huff_state \<Rightarrow> bool list \<Rightarrow> hpack_error + huff_state" where
  "huff_bits st bs \<equiv> try_fold (huff_bit tree_build) st bs"

lemma huff_decode_bits:
  "huff_decode input =
     try_res (huff_bits huff_start (concat (map byte_bits input))) (\<lambda>st.
       if 7 < hs_since st \<or> \<not> hs_ones st then Inl BadHuffman else Inr (hs_out st))"
proof -
  have "huff_byte tree_build = (\<lambda>st b. huff_bits st (byte_bits b))"
    by (simp add: fun_eq_iff huff_byte_def byte_bits_def try_fold_map del: upt_Suc upt_rec_numeral)
  then show ?thesis
    by (simp add: huff_decode_def try_fold_concat try_fold_map)
qed

text \<open>The state after some bits: the symbols so far, and the path into the next code.\<close>

definition huff_inv :: "bool list \<Rightarrow> huff_state \<Rightarrow> bool" where
  "huff_inv bs st \<longleftrightarrow>
     (\<exists>p. bs = concat (map sym_bits (hs_out st)) @ p \<and> node_at huff.full_tree 0 p = Some (hs_at st) \<and>
        hs_since st = length p \<and> hs_ones st = (\<forall>x \<in> set p. x))"

lemma huff_bit_inv:
  assumes "huff_inv bs st" and "huff_bit tree_build st b = Inr st'"
  shows "huff_inv (bs @ [b]) st'"
proof -
  from assms(1) obtain p where p: "bs = concat (map sym_bits (hs_out st)) @ p"
      "node_at huff.full_tree 0 p = Some (hs_at st)" "hs_since st = length p"
      "hs_ones st = (\<forall>x \<in> set p. x)"
    by (auto simp: huff_inv_def)
  define s where "s = slot huff.full_tree (hs_at st) b"
  have "node_slot tree_build (hs_at st) b = Some s"
    using huff.full_tree_range [OF p(2)] by (simp add: tree_build_code_tree node_slot_slot s_def)
  with assms(2) consider
      (symbol) "s < 0" "nat (- s - 1) \<noteq> EOS"
        "st' = st\<lparr>hs_out := hs_out st @ [of_nat (nat (- s - 1))], hs_at := 0, hs_since := 0,
                 hs_ones := True\<rparr>"
    | (child) "0 < s" "st' = st\<lparr>hs_at := nat s, hs_since := hs_since st + 1,
                               hs_ones := (if b then hs_ones st else False)\<rparr>"
    by (auto simp: huff_bit_def Let_def split: if_splits)
  then show ?thesis
  proof cases
    case symbol
    then obtain i where i: "i < 257" "s = - (int i + 1)" "huff_codes ! i = p @ [b]"
      using huff.full_tree_sound [OF p(2), of b] by (auto simp: s_def)
    then have "nat (- s - 1) = i" "i < 256"
      using symbol(2) by (auto simp: EOS_def)
    then have "sym_bits (of_nat (nat (- s - 1))) = p @ [b]"
      using i by (simp add: sym_bits_def unat_of_nat)
    then show ?thesis
      using p symbol by (simp add: huff_inv_def)
  next
    case child
    then have "node_at huff.full_tree 0 (p @ [b]) = Some (nat s)"
      using p(2) by (simp add: node_at_append s_def)
    then show ?thesis
      using p child unfolding huff_inv_def by (intro exI [of _ "p @ [b]"]) auto
  qed
qed

lemma huff_bits_sound: "huff_bits huff_start bs = Inr st \<Longrightarrow> huff_inv bs st"
proof (induction bs arbitrary: st rule: rev_induct)
  case Nil
  then show ?case by (auto simp: huff_inv_def huff_start_def)
next
  case (snoc b bs)
  from snoc.prems obtain st0 where "huff_bits huff_start bs = Inr st0" "huff_bit tree_build st0 b = Inr st"
    by (auto simp: try_fold_append res_simps)
  with snoc.IH huff_bit_inv show ?case by blast
qed

lemma huff_bits_path:
  "node_at huff.full_tree 0 p = Some k \<Longrightarrow>
     huff_bits \<lparr>hs_out = out, hs_at = 0, hs_since = 0, hs_ones = True\<rparr> p =
     Inr \<lparr>hs_out = out, hs_at = k, hs_since = length p, hs_ones = (\<forall>x \<in> set p. x)\<rparr>"
proof (induction p arbitrary: k rule: rev_induct)
  case (snoc b p)
  from snoc.prems obtain j where j: "node_at huff.full_tree 0 p = Some j"
      and k: "0 < slot huff.full_tree j b" "k = nat (slot huff.full_tree j b)"
    by (auto simp: node_at_append split: Option.bind_splits if_splits)
  have "node_slot tree_build j b = Some (slot huff.full_tree j b)"
    using huff.full_tree_range [OF j] by (simp add: tree_build_code_tree node_slot_slot)
  with snoc.IH [OF j] k show ?case
    by (simp add: try_fold_append huff_bit_def Let_def)
qed simp

lemma huff_bits_symbol:
  "huff_bits \<lparr>hs_out = out, hs_at = 0, hs_since = 0, hs_ones = True\<rparr> (sym_bits b) =
     Inr \<lparr>hs_out = out @ [b], hs_at = 0, hs_since = 0, hs_ones = True\<rparr>"
proof -
  have i: "unat b < 256" by (rule unat_u8_bound)
  have u: "\<not> uint b < - 1" "- 1 \<noteq> uint b"
    using uint_u8_bounds(1) [of b] by linarith+
  have "terminal huff.full_tree 0 (sym_bits b) (- (int (unat b) + 1))"
    using huff.full_tree_terminal [of "unat b"] i by (simp add: sym_bits_def)
  then obtain k where ne: "sym_bits b \<noteq> []"
      and k: "node_at huff.full_tree 0 (butlast (sym_bits b)) = Some k"
        "slot huff.full_tree k (last (sym_bits b)) = - (int (unat b) + 1)"
    by (auto simp: terminal_def)
  have n: "node_slot tree_build k (last (sym_bits b)) = Some (- (int (unat b) + 1))"
    using huff.full_tree_range [OF k(1)] k(2) by (simp add: tree_build_code_tree node_slot_slot)
  have "sym_bits b = butlast (sym_bits b) @ [last (sym_bits b)]"
    using ne by simp
  then have "huff_bits \<lparr>hs_out = out, hs_at = 0, hs_since = 0, hs_ones = True\<rparr> (sym_bits b) =
      huff_bits \<lparr>hs_out = out, hs_at = 0, hs_since = 0, hs_ones = True\<rparr>
        (butlast (sym_bits b) @ [last (sym_bits b)])"
    by simp
  also have "\<dots> = Inr \<lparr>hs_out = out @ [b], hs_at = 0, hs_since = 0, hs_ones = True\<rparr>"
    unfolding try_fold_append huff_bits_path [OF k(1)]
    using i u by (auto simp: huff_bit_def Let_def n EOS_def)
  finally show ?thesis .
qed

lemma huff_bits_symbols:
  "huff_bits \<lparr>hs_out = out, hs_at = 0, hs_since = 0, hs_ones = True\<rparr> (concat (map sym_bits bs)) =
     Inr \<lparr>hs_out = out @ bs, hs_at = 0, hs_since = 0, hs_ones = True\<rparr>"
  by (induction bs arbitrary: out) (simp_all add: try_fold_append huff_bits_symbol)

lemma ones_path:
  assumes "n < 30"
  shows "\<exists>k. node_at huff.full_tree 0 (replicate n True) = Some k"
proof (rule huff.full_tree_prefix [of 256 _ True "replicate (29 - n) True"])
  have "replicate 30 True = replicate (n + (1 + (29 - n))) True"
    using assms by simp
  then show "huff_codes ! 256 = replicate n True @ True # replicate (29 - n) True"
    unfolding huff_code_eos replicate_add by simp
qed simp

lemma huff_decode_iff:
  "huff_decode input = Inr out \<longleftrightarrow>
     (\<exists>n \<le> 7. concat (map byte_bits input) = concat (map sym_bits out) @ replicate n True)"
proof
  assume "huff_decode input = Inr out"
  then obtain st where st: "huff_bits huff_start (concat (map byte_bits input)) = Inr st"
      "hs_since st \<le> 7" "hs_ones st" "out = hs_out st"
    by (auto simp: huff_decode_bits res_simps)
  from huff_bits_sound [OF st(1)] obtain p where
      "concat (map byte_bits input) = concat (map sym_bits out) @ p" "length p \<le> 7" "\<forall>x \<in> set p. x"
    using st by (auto simp: huff_inv_def)
  moreover from this have "p = replicate (length p) True"
    by (intro replicate_eqI) auto
  ultimately show "\<exists>n \<le> 7. concat (map byte_bits input) = concat (map sym_bits out) @ replicate n True"
    by metis
next
  assume "\<exists>n \<le> 7. concat (map byte_bits input) = concat (map sym_bits out) @ replicate n True"
  then obtain n where n: "n \<le> 7"
      "concat (map byte_bits input) = concat (map sym_bits out) @ replicate n True"
    by blast
  then obtain k where k: "node_at huff.full_tree 0 (replicate n True) = Some k"
    using ones_path [of n] by auto
  show "huff_decode input = Inr out"
    using n(1) by (simp add: huff_decode_bits n(2) try_fold_append huff_start_def huff_bits_symbols
        huff_bits_path [OF k])
qed

text \<open>Decoding a string never runs out of input: it succeeds or reports a bad code.\<close>

lemma huff_decode_error: "huff_decode input = Inl e \<Longrightarrow> e = BadHuffman"
proof -
  have "huff_bits st bs = Inl e \<Longrightarrow> e = BadHuffman" for st bs
    by (induction bs arbitrary: st)
      (auto simp: try_res_Inl huff_bit_def ok_or_Inl Let_def split: if_splits)
  then show "huff_decode input = Inl e \<Longrightarrow> e = BadHuffman"
    by (auto simp: huff_decode_bits try_res_Inl split: if_splits)
qed

end
