(* ===== verification/Bounded_Queue.thy ===== *)
theory Bounded_Queue
  imports Fpd_Prelude
begin

text \<open>
  The contract of a bounded queue, newest item first: a push keeps the longest run of newest
  items whose cost fits the bound. Two components of the program are such queues, the HPACK
  dynamic table, whose items cost their octets, and the probe's connection log, whose items
  cost one each. The consequences are proved once, in the locale.
\<close>

fun fit :: "('a \<Rightarrow> nat) \<Rightarrow> nat \<Rightarrow> 'a list \<Rightarrow> 'a list" where
  "fit c m [] = []"
| "fit c m (x # xs) = (if c x \<le> m then x # fit c (m - c x) xs else [])"

definition total :: "('a \<Rightarrow> nat) \<Rightarrow> 'a list \<Rightarrow> nat" where
  "total c xs = sum_list (map c xs)"

lemma total_simps [simp]:
  "total c [] = 0"
  "total c (x # xs) = c x + total c xs"
  "total c (xs @ ys) = total c xs + total c ys"
  by (simp_all add: total_def)

lemma fit_prefix: "prefix (fit c m xs) xs"
  by (induction c m xs rule: fit.induct) auto

lemma fit_total: "total c (fit c m xs) \<le> m"
  by (induction c m xs rule: fit.induct) auto

lemma fit_all [simp]: "total c xs \<le> m \<Longrightarrow> fit c m xs = xs"
  by (induction c m xs rule: fit.induct) auto

lemma fit_fit: "m \<le> n \<Longrightarrow> fit c m (fit c n xs) = fit c m xs"
  by (induction c m xs arbitrary: n rule: fit.induct) auto

lemma fit_longest:
  assumes "prefix ys xs" and "total c ys \<le> m"
  shows "prefix ys (fit c m xs)"
  using assms
proof (induction c m xs arbitrary: ys rule: fit.induct)
  case (2 c m x xs)
  then show ?case by (cases ys) auto
qed simp

lemma fit_snoc: "fit c m (xs @ [x]) = (if total c (xs @ [x]) \<le> m then xs @ [x] else fit c m xs)"
  by (induction c m xs rule: fit.induct) auto

lemma fit_const: "fit (\<lambda>_. 1) m xs = take m xs"
proof (induction xs arbitrary: m)
  case (Cons x xs)
  then show ?case by (cases m) simp_all
qed simp

locale bounded_queue =
  fixes items :: "'s \<Rightarrow> 'a list"
    and bound :: "'s \<Rightarrow> nat"
    and cost :: "'a \<Rightarrow> nat"
    and push :: "'a \<Rightarrow> 's \<Rightarrow> 's"
    and ok :: "'s \<Rightarrow> bool"
  assumes items_push: "ok s \<Longrightarrow> items (push x s) = fit cost (bound s) (x # items s)"
    and bound_push: "ok s \<Longrightarrow> bound (push x s) = bound s"
    and ok_push: "ok s \<Longrightarrow> ok (push x s)"
begin

lemma push_bounded: "ok s \<Longrightarrow> total cost (items (push x s)) \<le> bound (push x s)"
  using fit_total [of cost "bound s" "x # items s"] by (simp only: items_push bound_push)

lemma push_front: "ok s \<Longrightarrow> cost x \<le> bound s \<Longrightarrow> \<exists>ys. items (push x s) = x # ys \<and> prefix ys (items s)"
  by (auto simp: items_push fit_prefix)

text \<open>After any run of pushes the queue holds the longest run of newest items that fits.\<close>

lemma items_fold:
  assumes "ok s" and "total cost (items s) \<le> bound s"
  shows "items (fold push xs s) = fit cost (bound s) (rev xs @ items s) \<and>
    bound (fold push xs s) = bound s \<and> ok (fold push xs s)"
proof (induction xs rule: rev_induct)
  case Nil
  with assms show ?case by simp
next
  case (snoc x xs)
  then have "items (fold push (xs @ [x]) s) =
      fit cost (bound s) (x # fit cost (bound s) (rev xs @ items s))"
    by (simp add: items_push)
  also have "\<dots> = fit cost (bound s) (x # rev xs @ items s)"
    by (simp add: fit_fit)
  finally show ?case
    using snoc by (simp add: bound_push ok_push)
qed

end

end
