(* ===== verification/Hpack_Table.thy ===== *)
theory Hpack_Table
  imports Hpack_Integer Bounded_Queue
begin

text \<open>
  The header tables, \<open>fingerprint-h2/src/hpack/table_static.rs\<close> and \<open>table.rs\<close>: the 61
  static entries, the dynamic table with its size accounting and eviction, and the lookup that
  runs over both. The lemmas show that the accounting is exact and that eviction keeps the
  longest run of newest entries that fits, so the table is a bounded queue.
\<close>

type_synonym header = "string \<times> string"

definition STATIC_TABLE :: "header list" where
  "STATIC_TABLE = [
   ('':authority'', ''''),
   ('':method'', ''GET''),
   ('':method'', ''POST''),
   ('':path'', ''/''),
   ('':path'', ''/index.html''),
   ('':scheme'', ''http''),
   ('':scheme'', ''https''),
   ('':status'', ''200''),
   ('':status'', ''204''),
   ('':status'', ''206''),
   ('':status'', ''304''),
   ('':status'', ''400''),
   ('':status'', ''404''),
   ('':status'', ''500''),
   (''accept-charset'', ''''),
   (''accept-encoding'', ''gzip, deflate''),
   (''accept-language'', ''''),
   (''accept-ranges'', ''''),
   (''accept'', ''''),
   (''access-control-allow-origin'', ''''),
   (''age'', ''''),
   (''allow'', ''''),
   (''authorization'', ''''),
   (''cache-control'', ''''),
   (''content-disposition'', ''''),
   (''content-encoding'', ''''),
   (''content-language'', ''''),
   (''content-length'', ''''),
   (''content-location'', ''''),
   (''content-range'', ''''),
   (''content-type'', ''''),
   (''cookie'', ''''),
   (''date'', ''''),
   (''etag'', ''''),
   (''expect'', ''''),
   (''expires'', ''''),
   (''from'', ''''),
   (''host'', ''''),
   (''if-match'', ''''),
   (''if-modified-since'', ''''),
   (''if-none-match'', ''''),
   (''if-range'', ''''),
   (''if-unmodified-since'', ''''),
   (''last-modified'', ''''),
   (''link'', ''''),
   (''location'', ''''),
   (''max-forwards'', ''''),
   (''proxy-authenticate'', ''''),
   (''proxy-authorization'', ''''),
   (''range'', ''''),
   (''referer'', ''''),
   (''refresh'', ''''),
   (''retry-after'', ''''),
   (''server'', ''''),
   (''set-cookie'', ''''),
   (''strict-transport-security'', ''''),
   (''transfer-encoding'', ''''),
   (''user-agent'', ''''),
   (''vary'', ''''),
   (''via'', ''''),
   (''www-authenticate'', '''')]"

lemma length_STATIC_TABLE [simp]: "length STATIC_TABLE = 61"
  by (simp add: STATIC_TABLE_def)

section \<open>The dynamic table\<close>

definition ENTRY_OVERHEAD :: nat where "ENTRY_OVERHEAD = 32"
definition DEFAULT_MAX_SIZE :: nat where "DEFAULT_MAX_SIZE = 4096"
definition ABSOLUTE_MAX_SIZE :: nat where "ABSOLUTE_MAX_SIZE = 1048576"

text \<open>The front of the \<open>VecDeque\<close>, the newest entry, is the head of the list.\<close>

record dynamic_table =
  dt_entries :: "header list"
  dt_size :: nat
  dt_max_size :: nat

definition table_new :: dynamic_table where
  "table_new = \<lparr>dt_entries = [], dt_size = 0, dt_max_size = DEFAULT_MAX_SIZE\<rparr>"

definition entry_size :: "header \<Rightarrow> nat" where
  "entry_size e = length (fst e) + length (snd e) + ENTRY_OVERHEAD"

function evict_to_fit :: "dynamic_table \<Rightarrow> dynamic_table" where
  "evict_to_fit t =
     (if dt_max_size t < dt_size t then
        if dt_entries t = [] then t\<lparr>dt_size := 0\<rparr>
        else evict_to_fit (t\<lparr>dt_entries := butlast (dt_entries t),
                            dt_size := dt_size t - entry_size (last (dt_entries t))\<rparr>)
      else t)"
  by pat_completeness auto
termination
  by (relation "measure (\<lambda>t. length (dt_entries t))") auto

declare evict_to_fit.simps [simp del]

definition set_max_size :: "nat \<Rightarrow> dynamic_table \<Rightarrow> dynamic_table" where
  "set_max_size sz t =
     evict_to_fit (t\<lparr>dt_max_size :=
       min (if sz \<le> usize_max then sz else ABSOLUTE_MAX_SIZE) ABSOLUTE_MAX_SIZE\<rparr>)"

definition table_insert :: "header \<Rightarrow> dynamic_table \<Rightarrow> dynamic_table" where
  "table_insert e t =
     (if dt_max_size t < entry_size e then t\<lparr>dt_entries := [], dt_size := 0\<rparr>
      else evict_to_fit (t\<lparr>dt_entries := e # dt_entries t, dt_size := dt_size t + entry_size e\<rparr>))"

definition lookup :: "nat \<Rightarrow> dynamic_table \<Rightarrow> hpack_error + header" where
  "lookup index t =
     (if index = 0 then Inl (BadIndex 0) else
      if usize_max < index then Inl (BadIndex index) else
      if index \<le> length STATIC_TABLE then ok_or (BadIndex index) (get_at STATIC_TABLE (index - 1))
      else ok_or (BadIndex index) (get_at (dt_entries t) (index - length STATIC_TABLE - 1)))"

section \<open>Accounting and eviction\<close>

text \<open>The counter is the sum of the entries' sizes, and it never exceeds the cap.\<close>

definition table_sized :: "dynamic_table \<Rightarrow> bool" where
  "table_sized t \<longleftrightarrow> dt_size t = total entry_size (dt_entries t)"

definition table_ok :: "dynamic_table \<Rightarrow> bool" where
  "table_ok t \<longleftrightarrow> table_sized t \<and> dt_size t \<le> dt_max_size t \<and> dt_max_size t \<le> ABSOLUTE_MAX_SIZE"

lemma table_ok_new: "table_ok table_new"
  by (simp add: table_ok_def table_sized_def table_new_def DEFAULT_MAX_SIZE_def ABSOLUTE_MAX_SIZE_def)

lemma evict_fit:
  assumes "table_sized t"
  shows "dt_entries (evict_to_fit t) = fit entry_size (dt_max_size t) (dt_entries t) \<and>
    dt_max_size (evict_to_fit t) = dt_max_size t \<and> table_sized (evict_to_fit t)"
  using assms
proof (induction t rule: evict_to_fit.induct)
  case (1 t)
  show ?case
  proof (cases "dt_max_size t < dt_size t")
    case False
    with "1.prems" show ?thesis
      by (simp add: evict_to_fit.simps [of t] table_sized_def)
  next
    case True
    with "1.prems" have ne: "dt_entries t \<noteq> []"
      by (auto simp: table_sized_def)
    define e es where "e = last (dt_entries t)" and "es = butlast (dt_entries t)"
    with ne have d: "dt_entries t = es @ [e]" by simp
    define t' where "t' = t\<lparr>dt_entries := es, dt_size := dt_size t - entry_size e\<rparr>"
    have s: "table_sized t'"
      using "1.prems" by (simp add: t'_def table_sized_def d)
    have ev: "evict_to_fit t = evict_to_fit t'"
      using True ne by (simp add: evict_to_fit.simps [of t] t'_def e_def es_def)
    have "\<not> total entry_size (es @ [e]) \<le> dt_max_size t"
      using True "1.prems" by (simp add: table_sized_def d)
    then have "fit entry_size (dt_max_size t) (dt_entries t) = fit entry_size (dt_max_size t) es"
      unfolding d fit_snoc by (simp only: if_False)
    with "1.IH" [OF True ne, folded e_def es_def, folded t'_def, OF s] show ?thesis
      by (simp add: ev t'_def)
  qed
qed

lemma evict_ok:
  assumes "table_sized t" and "dt_max_size t \<le> ABSOLUTE_MAX_SIZE"
  shows "table_ok (evict_to_fit t)"
  using evict_fit [OF assms(1)] fit_total [of entry_size "dt_max_size t" "dt_entries t"] assms(2)
  by (simp add: table_ok_def table_sized_def)

lemma table_insert_ok: "table_ok t \<Longrightarrow> table_ok (table_insert e t)"
  by (auto simp: table_insert_def table_ok_def table_sized_def
      intro!: evict_ok [unfolded table_ok_def table_sized_def])

lemma set_max_size_ok: "table_ok t \<Longrightarrow> table_ok (set_max_size n t)"
  unfolding set_max_size_def by (rule evict_ok) (simp_all add: table_ok_def table_sized_def)

lemma table_insert_fit:
  assumes "table_ok t"
  shows "dt_entries (table_insert e t) = fit entry_size (dt_max_size t) (e # dt_entries t) \<and>
    dt_max_size (table_insert e t) = dt_max_size t"
proof (cases "dt_max_size t < entry_size e")
  case True
  then show ?thesis by (simp add: table_insert_def)
next
  case False
  let ?t = "t\<lparr>dt_entries := e # dt_entries t, dt_size := dt_size t + entry_size e\<rparr>"
  have "table_sized ?t"
    using assms by (simp add: table_ok_def table_sized_def)
  from evict_fit [OF this] False show ?thesis
    by (simp add: table_insert_def)
qed

lemma set_max_size_fit:
  assumes "table_ok t" and "n \<le> usize_max"
  shows "dt_max_size (set_max_size n t) = min n ABSOLUTE_MAX_SIZE \<and>
    dt_entries (set_max_size n t) = fit entry_size (min n ABSOLUTE_MAX_SIZE) (dt_entries t)"
proof -
  have "table_sized (t\<lparr>dt_max_size := min n ABSOLUTE_MAX_SIZE\<rparr>)"
    using assms(1) by (simp add: table_ok_def table_sized_def)
  from evict_fit [OF this] assms(2) show ?thesis
    by (simp add: set_max_size_def)
qed

interpretation hdr: bounded_queue dt_entries dt_max_size entry_size table_insert table_ok
  by unfold_locales (simp_all add: table_insert_fit table_insert_ok)

section \<open>Lookup\<close>

lemma lookup_static: "1 \<le> i \<Longrightarrow> i \<le> 61 \<Longrightarrow> lookup i t = Inr (STATIC_TABLE ! (i - 1))"
  by (simp add: lookup_def usize_max_def get_at_def)

lemma lookup_dynamic:
  "i < length (dt_entries t) \<Longrightarrow> i + 62 \<le> usize_max \<Longrightarrow> lookup (i + 62) t = Inr (dt_entries t ! i)"
  by (simp add: lookup_def get_at_def)

lemma lookup_error: "lookup i t = Inl e \<Longrightarrow> e = BadIndex i"
  by (auto simp: lookup_def ok_or_Inl split: if_splits)

lemma lookup_newest:
  assumes "table_ok t" and "entry_size e \<le> dt_max_size t"
  shows "lookup 62 (table_insert e t) = Inr e"
proof -
  from hdr.push_front [OF assms] obtain ys where "dt_entries (table_insert e t) = e # ys"
    by blast
  then show ?thesis
    using lookup_dynamic [of 0 "table_insert e t"] by (simp add: usize_max_def)
qed

section \<open>Properties\<close>

text \<open>Any sequence of the two operations a header block can ask for.\<close>

datatype table_op = Insert_Entry header | Resize nat

fun table_do :: "table_op \<Rightarrow> dynamic_table \<Rightarrow> dynamic_table" where
  "table_do (Insert_Entry e) t = table_insert e t"
| "table_do (Resize n) t = set_max_size n t"

lemma table_run_ok: "table_ok t \<Longrightarrow> table_ok (fold table_do ops t)"
proof (induction ops arbitrary: t)
  case (Cons x ops)
  then show ?case
    by (cases x) (simp_all add: table_insert_ok set_max_size_ok)
qed simp

text \<open>
  C7. Whatever a peer sends, the dynamic table's size counter equals the sum of its entries'
  sizes, never exceeds the table's limit, and the limit never exceeds one mebibyte.
\<close>

theorem table_invariant: "table_ok (fold table_do ops table_new)"
  by (rule table_run_ok [OF table_ok_new])

text \<open>
  C15. Eviction keeps the longest run of newest entries that fits: after any insertions into a
  fresh table it holds that run of them, newest first.
\<close>

theorem table_keeps_newest:
  "dt_entries (fold table_insert es table_new) = fit entry_size 4096 (rev es)"
  using hdr.items_fold [OF table_ok_new, of es]
  by (simp add: table_new_def DEFAULT_MAX_SIZE_def)

end
