(* ===== verification/Hpack_Decoder.thy ===== *)
theory Hpack_Decoder
  imports Hpack_Huffman Hpack_Table Rust_Text
begin

text \<open>
  The HPACK decoder, \<open>fingerprint-h2/src/hpack/decoder.rs\<close>: string literals, literal header
  representations and the loop over a header block, with its five kinds of representation and
  its two bounds. The lemmas show that every step consumes input, so the loop ends, and that a
  block never yields more than 512 headers or a table above its cap.
\<close>

unbundle bit_operations_syntax

definition MAX_STRING :: nat where "MAX_STRING = 65536"
definition MAX_HEADERS :: nat where "MAX_HEADERS = 512"

text \<open>After the bound check a length fits \<open>usize\<close>, so \<open>usize::try_from\<close> cannot fail.\<close>

definition string_literal :: "bytes \<Rightarrow> hpack_error + string \<times> nat" where
  "string_literal buf =
     try_res (ok_or HTruncated (get_at buf 0)) (\<lambda>first.
     let huffman_encoded = first AND 0x80 \<noteq> 0 in
     try_res (int_decode buf 7) (\<lambda>(len, prefix_used).
     if MAX_STRING < len then Inl BadInteger else
     try_res (ok_or HTruncated (checked_add_usize prefix_used len)) (\<lambda>e.
     try_res (ok_or HTruncated (get_range buf prefix_used e)) (\<lambda>raw.
     try_res (if huffman_encoded then huff_decode raw else Inr raw) (\<lambda>bytes.
     Inr (from_utf8_lossy bytes, e))))))"

definition literal :: "bytes \<Rightarrow> nat \<Rightarrow> dynamic_table \<Rightarrow> hpack_error + string \<times> string \<times> nat" where
  "literal buf prefix_bits dynamic =
     try_res (int_decode buf prefix_bits) (\<lambda>(index, used).
     try_res
       (if index = 0 then
          try_res (ok_or HTruncated (get_from buf used)) (\<lambda>rest.
          try_res (string_literal rest) (\<lambda>(s, n).
          Inr (s, used + n)))
        else
          try_res (lookup index dynamic) (\<lambda>h.
          Inr (fst h, used))) (\<lambda>(name, used).
     try_res (ok_or HTruncated (get_from buf used)) (\<lambda>rest.
     try_res (string_literal rest) (\<lambda>(value, n).
     Inr (name, value, used + n)))))"

text \<open>The body of the \<open>while pos < block.len()\<close> loop, and the loop.\<close>

definition decode_step ::
    "bytes \<Rightarrow> dynamic_table \<times> header list \<times> nat \<Rightarrow> hpack_error + dynamic_table \<times> header list \<times> nat" where
  "decode_step block s =
     (case s of (dynamic, out, pos) \<Rightarrow>
      if MAX_HEADERS \<le> length out then Inl BadInteger else
      try_res (ok_or HTruncated (get_at block pos)) (\<lambda>first.
      try_res (ok_or HTruncated (get_from block pos)) (\<lambda>rest.
      if first AND 0x80 \<noteq> 0 then
        try_res (int_decode rest 7) (\<lambda>(index, used).
        try_res (lookup index dynamic) (\<lambda>h.
        Inr (dynamic, out @ [h], pos + used)))
      else if first AND 0xc0 = 0x40 then
        try_res (literal rest 6 dynamic) (\<lambda>(name, value, used).
        Inr (table_insert (name, value) dynamic, out @ [(name, value)], pos + used))
      else if first AND 0xe0 = 0x20 then
        try_res (int_decode rest 5) (\<lambda>(sz, used).
        Inr (set_max_size sz dynamic, out, pos + used))
      else if first AND 0xf0 = 0x10 then
        try_res (literal rest 4 dynamic) (\<lambda>(name, value, used).
        Inr (dynamic, out @ [(name, value)], pos + used))
      else
        try_res (literal rest 4 dynamic) (\<lambda>(name, value, used).
        Inr (dynamic, out @ [(name, value)], pos + used)))))"

lemma int_decode_used: "int_decode buf n = Inr (v, c) \<Longrightarrow> 1 \<le> c \<and> c \<le> length buf"
  using int_decode_sound by blast

lemma string_literal_used: "string_literal buf = Inr (s, n) \<Longrightarrow> 1 \<le> n \<and> n \<le> length buf"
  by (auto simp: string_literal_def Let_def res_simps dest!: int_decode_used)

lemma literal_used: "literal buf p t = Inr (name, value, n) \<Longrightarrow> 1 \<le> n \<and> n \<le> length buf"
  by (fastforce simp: literal_def res_simps split: if_splits
      dest!: int_decode_used string_literal_used)

lemma decode_step_progress:
  assumes "decode_step block (t, out, pos) = Inr (t', out', pos')"
  shows "pos < pos' \<and> pos' \<le> length block \<and> length out < 512 \<and>
    (out' = out \<or> (\<exists>h. out' = out @ [h]))"
proof -
  have r: "c \<le> length (drop pos block) \<Longrightarrow> 1 \<le> c \<Longrightarrow> pos < pos + c \<and> pos + c \<le> length block" for c
    by auto
  show ?thesis
    using assms unfolding decode_step_def MAX_HEADERS_def
    by (fastforce simp: res_simps split: if_splits dest!: int_decode_used literal_used dest: r)
qed

function decode_loop ::
    "bytes \<Rightarrow> dynamic_table \<times> header list \<times> nat \<Rightarrow> hpack_error + header list" where
  "decode_loop block (dynamic, out, pos) =
     (if pos < length block then
        try_res (decode_step block (dynamic, out, pos)) (\<lambda>s. decode_loop block s)
      else Inr out)"
  by pat_completeness auto
termination
  by (relation "measure (\<lambda>(block, t, out, pos). length block - pos)")
    (auto dest!: decode_step_progress)

declare decode_loop.simps [simp del]

definition hpack_decode :: "bytes \<Rightarrow> hpack_error + header list" where
  "hpack_decode block = decode_loop block (table_new, [], 0)"

section \<open>Bounds\<close>

lemma decode_step_table:
  assumes "decode_step block (t, out, pos) = Inr (t', out', pos')" and "table_ok t"
  shows "table_ok t'"
  using assms unfolding decode_step_def
  by (auto simp: res_simps table_insert_ok set_max_size_ok split: if_splits)

lemma decode_loop_bound:
  "decode_loop block (t, out, pos) = Inr hs \<Longrightarrow> length out \<le> 512 \<Longrightarrow> length hs \<le> 512"
proof (induction block "(t, out, pos)" arbitrary: t out pos rule: decode_loop.induct)
  case (1 block t out pos)
  show ?case
  proof (cases "pos < length block")
    case True
    with "1.prems"(1) obtain t' out' pos' where
        s: "decode_step block (t, out, pos) = Inr (t', out', pos')"
      and l: "decode_loop block (t', out', pos') = Inr hs"
      by (auto simp: decode_loop.simps [of block t out pos] res_simps)
    from decode_step_progress [OF s] have "length out' \<le> 512" by auto
    with "1.hyps" [OF True s l] show ?thesis by simp
  next
    case False
    with "1.prems" show ?thesis
      by (simp add: decode_loop.simps [of block t out pos])
  qed
qed

lemma hpack_decode_bound: "hpack_decode block = Inr hs \<Longrightarrow> length hs \<le> 512"
  unfolding hpack_decode_def by (auto dest: decode_loop_bound)

section \<open>The strings\<close>

definition header_wf :: "header \<Rightarrow> bool" where
  "header_wf h \<longleftrightarrow> str_wf (fst h) \<and> str_wf (snd h)"

lemma static_table_ascii:
  "list_all (\<lambda>h. list_all (\<lambda>b. b < 0x80) (as_bytes (fst h) @ as_bytes (snd h))) STATIC_TABLE"
  by code_simp

lemma static_table_wf: "list_all header_wf STATIC_TABLE"
  using static_table_ascii unfolding list_all_iff header_wf_def str_wf_def set_append
  by (simp add: utf8_valid_ascii)

lemma evict_entries: "set (dt_entries (evict_to_fit t)) \<subseteq> set (dt_entries t)"
proof (induction t rule: evict_to_fit.induct)
  case (1 t)
  show ?case
  proof (cases "dt_max_size t < dt_size t \<and> dt_entries t \<noteq> []")
    case True
    with 1 show ?thesis
      by (auto simp: evict_to_fit.simps [of t] dest: in_set_butlastD)
  next
    case False
    then show ?thesis by (simp add: evict_to_fit.simps [of t])
  qed
qed

lemma insert_entries: "set (dt_entries (table_insert e t)) \<subseteq> insert e (set (dt_entries t))"
  using evict_entries [of "t\<lparr>dt_entries := e # dt_entries t, dt_size := dt_size t + entry_size e\<rparr>"]
  by (auto simp: table_insert_def)

lemma resize_entries: "set (dt_entries (set_max_size n t)) \<subseteq> set (dt_entries t)"
  unfolding set_max_size_def by (rule subset_trans [OF evict_entries]) simp

lemma lookup_wf:
  assumes "lookup index t = Inr h" and "list_all header_wf (dt_entries t)"
  shows "header_wf h"
  using assms static_table_wf
  by (auto simp: lookup_def res_simps get_at_def list_all_length split: if_splits)

lemma string_literal_wf: "string_literal buf = Inr (s, n) \<Longrightarrow> str_wf s"
  by (auto simp: string_literal_def Let_def res_simps str_wf_lossy)

lemma literal_wf:
  "literal buf p t = Inr (name, value, n) \<Longrightarrow> list_all header_wf (dt_entries t) \<Longrightarrow> header_wf (name, value)"
  by (auto simp: literal_def res_simps header_wf_def split: if_splits
      dest!: string_literal_wf dest: lookup_wf)

lemma decode_step_wf:
  assumes "decode_step block (t, out, pos) = Inr (t', out', pos')"
    and "list_all header_wf (dt_entries t)" and "list_all header_wf out"
  shows "list_all header_wf (dt_entries t') \<and> list_all header_wf out'"
  using assms unfolding decode_step_def
  by (auto simp: res_simps list_all_iff split: if_splits
      dest: literal_wf [unfolded list_all_iff] lookup_wf [unfolded list_all_iff]
        insert_entries [THEN subsetD] resize_entries [THEN subsetD])

lemma decode_loop_wf:
  "decode_loop block (t, out, pos) = Inr hs \<Longrightarrow> list_all header_wf (dt_entries t) \<Longrightarrow>
     list_all header_wf out \<Longrightarrow> list_all header_wf hs"
proof (induction block "(t, out, pos)" arbitrary: t out pos rule: decode_loop.induct)
  case (1 block t out pos)
  show ?case
  proof (cases "pos < length block")
    case True
    with "1.prems"(1) obtain t' out' pos' where
        s: "decode_step block (t, out, pos) = Inr (t', out', pos')"
      and l: "decode_loop block (t', out', pos') = Inr hs"
      by (auto simp: decode_loop.simps [of block t out pos] res_simps)
    from decode_step_wf [OF s "1.prems"(2,3)] "1.hyps" [OF True s l] show ?thesis by blast
  next
    case False
    with "1.prems" show ?thesis
      by (simp add: decode_loop.simps [of block t out pos])
  qed
qed

section \<open>Properties\<close>

text \<open>
  C20. Every header list the decoder returns is well-typed and bounded, whatever the bytes: each name
  and value is a \<open>String\<close>, valid UTF-8, also where it came through the Huffman code or the dynamic
  table, and there are at most 512, so a small block of references cannot expand without limit.
\<close>

theorem hpack_decode_limit:
  "case hpack_decode block of Inl e \<Rightarrow> True | Inr hs \<Rightarrow> length hs \<le> 512 \<and> list_all header_wf hs"
proof (cases "hpack_decode block")
  case (Inr hs)
  then have "list_all header_wf hs"
    unfolding hpack_decode_def by (rule decode_loop_wf) (simp_all add: table_new_def)
  with Inr hpack_decode_bound [OF Inr] show ?thesis by simp
qed simp

end
