(* ===== verification/Hpack_Encode.thy ===== *)
theory Hpack_Encode
  imports Hpack_Huffman
begin

text \<open>
  Huffman encoding, \<open>encode_huffman\<close> of \<open>fingerprint-h2/src/hpack/encode.rs\<close>, with its 64-bit
  accumulator: bits above the pending ones are left in place and shifted out. The lemmas show
  that the output is the concatenation of the codes padded with ones, that decoding gives the
  input back, and that the decoder accepts nothing but encoder output.
\<close>

unbundle bit_operations_syntax

text \<open>The \<open>while bits >= 8\<close> loop.\<close>

function drain_bits :: "bytes \<Rightarrow> u64 \<Rightarrow> nat \<Rightarrow> bytes \<times> nat" where
  "drain_bits out acc bits =
     (if 8 \<le> bits then drain_bits (out @ [ucast (drop_bit (bits - 8) acc AND 0xff)]) acc (bits - 8)
      else (out, bits))"
  by pat_completeness auto
termination
  by (relation "measure (\<lambda>(out, acc, bits). bits)") auto

declare drain_bits.simps [simp del]

fun encode_huffman_byte :: "bytes \<times> u64 \<times> nat \<Rightarrow> u8 \<Rightarrow> bytes \<times> u64 \<times> nat" where
  "encode_huffman_byte (out, acc, bits) byte =
     (case get_at HUFFMAN (unat byte) of
        None \<Rightarrow> (out, acc, bits)
      | Some (code, len) \<Rightarrow>
          let acc = push_bit len acc OR of_nat code;
              (out, bits) = drain_bits out acc (bits + len)
          in (out, acc, bits))"

definition encode_huffman :: "bytes \<Rightarrow> bytes" where
  "encode_huffman input =
     (let (out, acc, bits) = foldl encode_huffman_byte ([], 0, 0) input in
      if 0 < bits then
        let pad = 8 - bits in
        out @ [ucast ((push_bit pad acc OR (push_bit pad 1 - 1)) AND 0xff)]
      else out)"

section \<open>The accumulator as bits\<close>

definition low_bits :: "nat \<Rightarrow> u64 \<Rightarrow> bool list" where
  "low_bits n w = map (bit w) (rev [0..<n])"

lemma low_bits_0 [simp]: "low_bits 0 w = []"
  by (simp add: low_bits_def)

lemma rev_upt_add: "rev [0..<m + n] = map (\<lambda>i. i + n) (rev [0..<m]) @ rev [0..<n]"
proof -
  have "[0..<m + n] = [0..<n] @ map (\<lambda>i. i + n) [0..<m]"
    using upt_add_eq_append [of 0 n m] by (simp add: map_add_upt add.commute [of m n])
  then show ?thesis by (simp add: rev_map)
qed

lemma low_bits_push:
  assumes "bits + len \<le> 64" and "code < 2 ^ len"
  shows "low_bits (bits + len) (push_bit len acc OR of_nat code) = low_bits bits acc @ code_bits (code, len)"
proof -
  have hi: "\<not> bit code i" if "len \<le> i" for i
    using assms(2) that by (metis bit_take_bit_iff not_le take_bit_nat_eq_self)
  have c: "bit (of_nat code :: u64) i \<longleftrightarrow> i < 64 \<and> bit code i" for i
    by (simp add: bit_of_nat_iff)
  show ?thesis
    unfolding low_bits_def rev_upt_add code_bits_def map_append map_map
    using assms hi by (simp add: bit_or_iff bit_push_bit_iff c rev_map comp_def)
qed

lemma byte_bits_acc:
  assumes "n + 8 \<le> 64"
  shows "low_bits (n + 8) acc = byte_bits (ucast (drop_bit n acc AND 0xff)) @ low_bits n acc"
proof -
  have "bit (ucast (drop_bit n acc AND 0xff) :: u8) i \<longleftrightarrow> bit acc (i + n)" if "i < 8" for i
  proof -
    have m: "(0xff :: u64) = mask 8" by (simp add: mask_eq_exp_minus_1)
    show ?thesis
      unfolding m using that
      by (simp only: bit_ucast_iff bit_and_iff bit_drop_bit_eq bit_mask_iff) (simp add: add.commute)
  qed
  then show ?thesis
    unfolding low_bits_def add.commute [of n 8] rev_upt_add byte_bits_def
    by (simp add: rev_map del: upt_Suc upt_rec_numeral)
qed

lemma byte_bits_pad:
  assumes "0 < bits" and "bits < 8"
  shows "byte_bits (ucast ((push_bit (8 - bits) acc OR (push_bit (8 - bits) 1 - 1)) AND 0xff)) =
    low_bits bits acc @ replicate (8 - bits) True"
proof -
  define n where "n = 8 - bits"
  have b: "bits + n = 8" using assms by (simp add: n_def)
  have p: "(push_bit n 1 - 1 :: u64) = of_nat (mask n)"
    by (simp add: mask_eq_exp_minus_1 of_nat_diff)
  have r: "code_bits (mask n, n) = replicate n True"
    by (rule nth_equalityI) (simp_all add: code_bits_def rev_nth bit_mask_iff)
  define w where "w = (push_bit n acc OR of_nat (mask n) :: u64)"
  have "low_bits (bits + n) w = low_bits bits acc @ code_bits (mask n, n)"
    unfolding w_def by (rule low_bits_push) (use b in \<open>simp_all add: mask_nat_less_exp\<close>)
  moreover have "low_bits (0 + 8) w = byte_bits (ucast (drop_bit 0 w AND 0xff)) @ low_bits 0 w"
    by (rule byte_bits_acc) simp
  ultimately show ?thesis
    unfolding n_def [symmetric] p w_def [symmetric] by (simp add: b r)
qed

section \<open>The loops\<close>

lemma drain_bits_spec:
  assumes "bits \<le> 64" and "drain_bits out acc bits = (out', bits')"
  shows "bits' < 8 \<and>
    concat (map byte_bits out') @ low_bits bits' acc = concat (map byte_bits out) @ low_bits bits acc"
  using assms
proof (induction out acc bits rule: drain_bits.induct)
  case (1 out acc bits)
  show ?case
  proof (cases "8 \<le> bits")
    case True
    with "1.prems"(1) have
      "low_bits bits acc = byte_bits (ucast (drop_bit (bits - 8) acc AND 0xff)) @ low_bits (bits - 8) acc"
      using byte_bits_acc [of "bits - 8" acc] by simp
    with True 1 show ?thesis
      by (simp add: drain_bits.simps [of out acc bits])
  next
    case False
    with "1.prems" show ?thesis
      by (simp add: drain_bits.simps [of out acc bits])
  qed
qed

lemma encode_huffman_loop:
  assumes "bits < 8" and "foldl encode_huffman_byte (out, acc, bits) input = (out', acc', bits')"
  shows "bits' < 8 \<and>
    concat (map byte_bits out') @ low_bits bits' acc' =
    (concat (map byte_bits out) @ low_bits bits acc) @ concat (map sym_bits input)"
  using assms
proof (induction input arbitrary: out acc bits)
  case (Cons b input)
  have u: "unat b < 257" using unat_u8_bound [of b] by simp
  obtain code len where c: "HUFFMAN ! unat b = (code, len)" by (cases "HUFFMAN ! unat b")
  have m: "(code, len) \<in> set HUFFMAN"
    using u nth_mem [of "unat b" HUFFMAN] by (simp add: c length_HUFFMAN)
  note r = HUFFMAN_ranges [OF m]
  define acc2 where "acc2 = (push_bit len acc OR of_nat code :: u64)"
  obtain out2 bits2 where d: "drain_bits out acc2 (bits + len) = (out2, bits2)"
    by fastforce
  have s: "encode_huffman_byte (out, acc, bits) b = (out2, acc2, bits2)"
    using u d by (simp add: get_at_def length_HUFFMAN c acc2_def Let_def)
  have "bits + len \<le> 64" using Cons.prems(1) r by simp
  note sp = drain_bits_spec [OF this d]
  have "low_bits (bits + len) acc2 = low_bits bits acc @ sym_bits b"
    using low_bits_push [OF \<open>bits + len \<le> 64\<close>, of code acc] r u
    by (simp add: acc2_def sym_bits_def huff_codes_nth c)
  with sp Cons.IH [of bits2 out2 acc2] Cons.prems(2) show ?case
    by (simp add: s del: encode_huffman_byte.simps)
qed simp

lemma encode_huffman_bits:
  "\<exists>n \<le> 7. concat (map byte_bits (encode_huffman s)) = concat (map sym_bits s) @ replicate n True"
proof -
  obtain out acc bits where f: "foldl encode_huffman_byte ([], 0, 0) s = (out, acc, bits)"
    by (cases "foldl encode_huffman_byte ([], 0, 0) s") auto
  note l = encode_huffman_loop [OF _ f]
  show ?thesis
  proof (cases "bits = 0")
    case True
    with l show ?thesis
      by (intro exI [of _ 0]) (simp add: encode_huffman_def f)
  next
    case False
    then have "concat (map byte_bits (encode_huffman s)) =
        concat (map byte_bits out) @ low_bits bits acc @ replicate (8 - bits) True"
      using l byte_bits_pad [of bits acc] by (simp add: encode_huffman_def f Let_def)
    with l False show ?thesis
      by (intro exI [of _ "8 - bits"]) simp
  qed
qed

section \<open>Encoding and decoding\<close>

lemma huff_decode_encode: "huff_decode (encode_huffman s) = Inr s"
  using encode_huffman_bits [of s] by (simp only: huff_decode_iff)

lemma byte_bits_inj: "byte_bits a = byte_bits b \<Longrightarrow> a = b"
proof (rule bit_word_eqI)
  fix n
  assume "byte_bits a = byte_bits b" and "n < LENGTH(8)"
  then have "\<forall>i \<in> set (rev [0..<8]). bit a i = bit b i"
    unfolding byte_bits_def map_eq_conv by blast
  with \<open>n < LENGTH(8)\<close> show "bit a n = bit b n"
    by simp
qed

lemma length_byte_bits [simp]: "length (byte_bits b) = 8"
  by (simp add: byte_bits_def)

lemma length_concat_byte_bits: "length (concat (map byte_bits bs)) = 8 * length bs"
  by (induction bs) simp_all

lemma concat_byte_bits_inj:
  "concat (map byte_bits as) = concat (map byte_bits bs) \<Longrightarrow> as = bs"
proof (induction as arbitrary: bs)
  case Nil
  from arg_cong [OF Nil, of length] show ?case
    unfolding length_concat_byte_bits by simp
next
  case (Cons a as)
  have "length as + 1 = length bs"
    using arg_cong [OF Cons.prems, of length] unfolding length_concat_byte_bits by simp
  then obtain b bs' where "bs = b # bs'"
    by (cases bs) auto
  with Cons byte_bits_inj [of a b] show ?case by simp
qed

lemma huff_decode_canonical:
  assumes "huff_decode input = Inr s"
  shows "input = encode_huffman s"
proof -
  from assms obtain n where n: "n \<le> 7"
      "concat (map byte_bits input) = concat (map sym_bits s) @ replicate n True"
    unfolding huff_decode_iff by blast
  from encode_huffman_bits [of s] obtain m where m: "m \<le> 7"
      "concat (map byte_bits (encode_huffman s)) = concat (map sym_bits s) @ replicate m True"
    by blast
  have "8 * length input = length (concat (map sym_bits s)) + n"
    "8 * length (encode_huffman s) = length (concat (map sym_bits s)) + m"
    using arg_cong [OF n(2), of length] arg_cong [OF m(2), of length]
    unfolding length_concat_byte_bits length_append length_replicate .
  with n(1) m(1) have "n = m" by presburger
  with n(2) m(2) have "concat (map byte_bits input) = concat (map byte_bits (encode_huffman s))"
    by (simp only:)
  then show ?thesis
    by (rule concat_byte_bits_inj)
qed

lemma length_encode_huffman: "length (encode_huffman s) \<le> 4 * length s"
proof -
  have "length (sym_bits b) \<le> 30" for b
    using huff_code_length [of "unat b"] unat_u8_bound [of b] by (simp add: sym_bits_def)
  then have b: "length (concat (map sym_bits s)) \<le> 30 * length s"
    by (induction s) (simp, fastforce intro: add_mono)
  from encode_huffman_bits [of s] obtain m where m: "m \<le> 7"
      "concat (map byte_bits (encode_huffman s)) = concat (map sym_bits s) @ replicate m True"
    by blast
  have "8 * length (encode_huffman s) = length (concat (map sym_bits s)) + m"
    using arg_cong [OF m(2), of length]
    unfolding length_concat_byte_bits length_append length_replicate .
  with b m(1) have "8 * length (encode_huffman s) \<le> 30 * length s + 7" by linarith
  moreover have "s = [] \<Longrightarrow> encode_huffman s = []"
    by (simp add: encode_huffman_def)
  ultimately show ?thesis
    by (cases s) auto
qed

section \<open>Properties\<close>

text \<open>
  C4. Huffman decoding and encoding are inverse in both directions: the decoder accepts exactly
  what the encoder writes, so each string has one accepted encoding, and padding that is too
  long, not all ones, or holds EOS is refused.
\<close>

theorem huff_decode_iff_encode: "huff_decode input = Inr s \<longleftrightarrow> input = encode_huffman s"
  using huff_decode_encode huff_decode_canonical by blast

end
