(* ===== verification/Hpack_Headers.thy ===== *)
theory Hpack_Headers
  imports Hpack_Decoder Hpack_Encode
begin

text \<open>
  Header lists, the rest of \<open>fingerprint-h2/src/hpack/encode.rs\<close>: string literals with
  Huffman coding when it is shorter, the two searches of the static table, and the encoding of
  a header list in order. The lemmas show that the decoder reads back what the encoder wrote.
\<close>

unbundle bit_operations_syntax

definition encode_string :: "string \<Rightarrow> bytes" where
  "encode_string s =
     (let raw = as_bytes s; huff = encode_huffman raw in
      if length huff < length raw then encode_integer (length huff) 7 0x80 @ huff
      else encode_integer (length raw) 7 0x00 @ raw)"

text \<open>\<open>Iterator::position\<close>.\<close>

fun position :: "('a \<Rightarrow> bool) \<Rightarrow> 'a list \<Rightarrow> nat option" where
  "position P [] = None"
| "position P (x # xs) = (if P x then Some 0 else map_option Suc (position P xs))"

definition static_index_exact :: "string \<Rightarrow> string \<Rightarrow> nat option" where
  "static_index_exact name value =
     map_option (\<lambda>i. i + 1) (position (\<lambda>(n, v). n = name \<and> v = value) STATIC_TABLE)"

definition static_index_name :: "string \<Rightarrow> nat option" where
  "static_index_name name = map_option (\<lambda>i. i + 1) (position (\<lambda>(n, v). n = name) STATIC_TABLE)"

fun encode_header :: "header \<Rightarrow> bytes" where
  "encode_header (name, value) =
     (case static_index_exact name value of
        Some idx \<Rightarrow> encode_integer idx 7 0x80
      | None \<Rightarrow>
          (case static_index_name name of
             Some idx \<Rightarrow> encode_integer idx 6 0x40 @ encode_string value
           | None \<Rightarrow> [0x40] @ encode_string name @ encode_string value))"

definition encode_headers :: "header list \<Rightarrow> bytes" where
  "encode_headers headers = concat (map encode_header headers)"

section \<open>Strings\<close>

text \<open>A header the decoder can give back: UTF-8 text within its string bound.\<close>

definition header_text :: "string \<Rightarrow> bool" where
  "header_text s \<longleftrightarrow> str_wf s \<and> length s \<le> MAX_STRING"

lemma encode_integer_first:
  "\<exists>w tl. encode_integer v n p = (p OR of_nat w) # tl \<and> w < 2 ^ n"
proof (cases "v < 2 ^ n - 1")
  case True
  then have "v < 2 ^ n" by simp
  with True show ?thesis by (auto simp: encode_integer_def Let_def)
next
  case False
  have "(2::nat) ^ n - 1 < 2 ^ n" by simp
  with False show ?thesis
    unfolding encode_integer_def Let_def by (metis (no_types, lifting))
qed

lemma top_bit_or: "((0x80 OR w :: u8) AND 0x80) = 0x80"
  by (simp add: bit.conj_disj_distrib2)

lemma low_of_nat: "w < 128 \<Longrightarrow> (of_nat w :: u8) AND 0x80 = 0"
  by (simp add: octet_top unat_of_nat)

lemma string_literal_encode:
  assumes "header_text s"
  shows "string_literal (encode_string s @ ys) = Inr (s, length (encode_string s))"
proof -
  from assms have wf: "str_wf s" and l: "length s \<le> 65536"
    by (simp_all add: header_text_def MAX_STRING_def)
  have tb: "take_bit 7 (0x80 :: u8) = 0" "take_bit 7 (0 :: u8) = 0"
    by simp_all
  define raw huff where "raw = as_bytes s" and "huff = encode_huffman raw"
  define h where "h \<longleftrightarrow> length huff < length raw"
  define body p where "body = (if h then huff else raw)" and "p = (if h then 0x80 else 0 :: u8)"
  have lr: "length raw = length s" by (simp add: raw_def)
  have e: "encode_string s = encode_integer (length body) 7 p @ body"
    by (simp add: encode_string_def Let_def body_def p_def h_def huff_def raw_def)
  have lb: "length body \<le> 65536"
    using l lr by (auto simp: body_def h_def)
  have "take_bit 7 p = 0" using tb by (simp add: p_def)
  then have dec: "int_decode (encode_integer (length body) 7 p @ body @ ys) 7 =
      Inr (length body, length (encode_integer (length body) 7 p))"
    by (intro int_decode_encode) (use lb in simp_all)
  obtain w tl where w: "encode_integer (length body) 7 p = (p OR of_nat w) # tl" "w < 2 ^ 7"
    using encode_integer_first by blast
  then have hb: "(p OR of_nat w) AND 0x80 \<noteq> 0 \<longleftrightarrow> h"
    by (simp add: p_def top_bit_or low_of_nat)
  have first: "get_at (encode_integer (length body) 7 p @ body @ ys) 0 = Some (p OR of_nat w)"
    by (simp add: w(1))
  have used: "length (encode_integer (length body) 7 p) \<le> 10"
    using int_decode_sound [OF dec] by simp
  then have add: "checked_add_usize (length (encode_integer (length body) 7 p)) (length body) =
      Some (length (encode_integer (length body) 7 p) + length body)"
    using lb by (simp add: checked_add_usize_def usize_max_def)
  have bytes: "(if h then huff_decode body else Inr body) = Inr raw"
    by (simp add: body_def huff_def huff_decode_encode)
  show ?thesis
    using lb first hb dec add
    by (simp add: string_literal_def e Let_def MAX_STRING_def get_range_append bytes raw_def
        from_utf8_lossy_as_bytes [OF wf] del: map_map)
qed

lemma encode_string_nonempty: "encode_string s \<noteq> []"
  using encode_integer_first [of _ 7] by (auto simp: encode_string_def Let_def) (metis list.distinct(1))+

section \<open>Headers\<close>

lemma position_Some: "position P xs = Some i \<Longrightarrow> i < length xs \<and> P (xs ! i)"
  by (induction xs arbitrary: i) (auto split: if_splits)

lemma static_index_exact_lookup:
  assumes "static_index_exact name value = Some i"
  shows "1 \<le> i \<and> i \<le> 61 \<and> lookup i t = Inr (name, value)"
  using assms position_Some [of "\<lambda>(n, v). n = name \<and> v = value" STATIC_TABLE "i - 1"]
  by (auto simp: static_index_exact_def lookup_static)

lemma static_index_name_lookup:
  assumes "static_index_name name = Some i"
  shows "1 \<le> i \<and> i \<le> 61 \<and> (\<exists>v. lookup i t = Inr (name, v))"
  using assms position_Some [of "\<lambda>(n, v). n = name" STATIC_TABLE "i - 1"]
  by (auto simp: static_index_name_def lookup_static split: prod.splits)

text \<open>The first octet of each representation, for every static index.\<close>

lemma indexed_octets: "\<forall>i \<in> set [1..<62]. (0x80 OR of_nat i :: u8) AND 0x80 \<noteq> 0"
  by code_simp

lemma literal_octets:
  "\<forall>i \<in> set [0..<62]. (0x40 OR of_nat i :: u8) AND 0x80 = 0 \<and> (0x40 OR of_nat i :: u8) AND 0xc0 = 0x40"
  by code_simp

lemma encode_integer_small: "v < 2 ^ n - 1 \<Longrightarrow> encode_integer v n p = [p OR of_nat v]"
  by (simp add: encode_integer_def)

lemma literal_indexed:
  assumes "static_index_name name = Some i" and "header_text value"
  shows "literal (encode_integer i 6 0x40 @ encode_string value @ ys) 6 t =
    Inr (name, value, length (encode_integer i 6 0x40 @ encode_string value))"
proof -
  from static_index_name_lookup [OF assms(1)] obtain v where i: "1 \<le> i" "i \<le> 61"
      and lk: "lookup i t = Inr (name, v)" by blast
  have "take_bit 6 (0x40 :: u8) = 0" by simp
  then have "int_decode (encode_integer i 6 0x40 @ encode_string value @ ys) 6 =
      Inr (i, length (encode_integer i 6 0x40))"
    by (intro int_decode_encode) (use i in simp_all)
  with i lk string_literal_encode [OF assms(2)] show ?thesis
    by (simp add: literal_def)
qed

lemma literal_new:
  assumes "header_text name" and "header_text value"
  shows "literal (0x40 # encode_string name @ encode_string value @ ys) 6 t =
    Inr (name, value, 1 + length (encode_string name) + length (encode_string value))"
proof -
  have "int_decode (0x40 # encode_string name @ encode_string value @ ys) 6 = Inr (0, 1)"
    by (simp add: int_decode_def)
  moreover have "get_from (0x40 # encode_string name @ encode_string value @ ys)
      (Suc (length (encode_string name))) = Some (encode_string value @ ys)"
    "get_from (0x40 # encode_string name @ encode_string value @ ys) (Suc 0) =
      Some (encode_string name @ encode_string value @ ys)"
    by (simp_all add: get_from_def)
  ultimately show ?thesis
    by (simp add: literal_def string_literal_encode assms)
qed

text \<open>One step on the octet and the value that a header of the static table has.\<close>

lemma decode_step_indexed:
  assumes "static_index_exact nm vl = Some i" and "length out < 512"
    and rest: "get_from block pos = Some (encode_header (nm, vl) @ ys)"
    and first: "get_at block pos = Some (hd (encode_header (nm, vl)))" and "pos < length block"
  shows "\<exists>t'. decode_step block (t, out, pos) =
    Inr (t', out @ [(nm, vl)], pos + length (encode_header (nm, vl)))"
proof -
  from static_index_exact_lookup [OF assms(1)] have i: "1 \<le> i" "i \<le> 61"
    and lk: "lookup i t = Inr (nm, vl)" by blast+
  have e: "encode_header (nm, vl) = [0x80 OR of_nat i]"
    using assms(1) i by (simp add: encode_integer_small)
  have "take_bit 7 (0x80 :: u8) = 0" by simp
  then have d: "int_decode (encode_header (nm, vl) @ ys) 7 = Inr (i, 1)"
    using int_decode_encode [of 7 "0x80" i ys] i assms(1) by (simp add: encode_integer_small)
  have "(0x80 OR of_nat i :: u8) AND 0x80 \<noteq> 0"
    using indexed_octets i by simp
  then show ?thesis
    using assms(2) rest first e d lk by (simp add: decode_step_def MAX_HEADERS_def)
qed

lemma decode_step_literal:
  assumes "literal (bs @ ys) 6 t = Inr (nm, vl, length bs)" and "length out < 512"
    and "get_from block pos = Some (bs @ ys)" and "get_at block pos = Some b"
    and "b AND 0x80 = 0" and "b AND 0xc0 = 0x40"
  shows "\<exists>t'. decode_step block (t, out, pos) = Inr (t', out @ [(nm, vl)], pos + length bs)"
  using assms by (simp add: decode_step_def MAX_HEADERS_def)

lemma decode_step_header:
  assumes "header_text (fst h)" and "header_text (snd h)" and "length out < 512"
    and "drop pos block = encode_header h @ ys" and "pos < length block"
  shows "\<exists>t'. decode_step block (t, out, pos) = Inr (t', out @ [h], pos + length (encode_header h))"
proof -
  obtain nm vl where h: "h = (nm, vl)" by (cases h)
  have rest: "get_from block pos = Some (encode_header h @ ys)"
    using assms(4,5) by (simp add: get_from_def)
  have first: "get_at block pos = Some b" if "encode_header h @ ys = b # tl" for b tl
    using assms(4,5) that by (simp add: get_at_def Cons_nth_drop_Suc [symmetric])
  consider (exact) i where "static_index_exact nm vl = Some i"
    | (named) i where "static_index_exact nm vl = None" "static_index_name nm = Some i"
    | (new) "static_index_exact nm vl = None" "static_index_name nm = None"
    by (cases "static_index_exact nm vl"; cases "static_index_name nm") auto
  then show ?thesis
  proof cases
    case exact
    from static_index_exact_lookup [OF exact] have i: "1 \<le> i" "i \<le> 61" by blast+
    have "encode_header h @ ys = hd (encode_header h) # tl (encode_header h) @ ys"
      using exact i by (simp add: h encode_integer_small)
    from decode_step_indexed [OF exact assms(3) rest [unfolded h] first [OF this, unfolded h] assms(5)]
    show ?thesis unfolding h .
  next
    case named
    from static_index_name_lookup [OF named(2)] have i: "1 \<le> i" "i \<le> 61" by blast+
    have e: "encode_header h = (0x40 OR of_nat i) # encode_string vl"
      using named i by (simp add: h encode_integer_small)
    have "literal (encode_header h @ ys) 6 t = Inr (nm, vl, length (encode_header h))"
      using literal_indexed [OF named(2), of vl ys t] assms(2) i e
      by (simp add: h encode_integer_small)
    from decode_step_literal [OF this assms(3) rest first] show ?thesis
      using e literal_octets i by (simp add: h)
  next
    case new
    have e: "encode_header h = 0x40 # encode_string nm @ encode_string vl"
      using new by (simp add: h)
    have "literal (encode_header h @ ys) 6 t = Inr (nm, vl, length (encode_header h))"
      using literal_new [of nm vl ys t] assms(1,2) e by (simp add: h)
    from decode_step_literal [OF this assms(3) rest first] show ?thesis
      using e by (simp add: h)
  qed
qed

lemma encode_header_nonempty: "encode_header h \<noteq> []"
proof -
  have "encode_integer v n p \<noteq> []" for v n p
    using encode_integer_first [of v n p] by auto
  then show ?thesis
    by (cases h) (auto split: option.split)
qed

lemma decode_loop_headers:
  "\<forall>h \<in> set hs. header_text (fst h) \<and> header_text (snd h) \<Longrightarrow> length out + length hs \<le> 512 \<Longrightarrow>
     drop pos block = encode_headers hs \<Longrightarrow> pos \<le> length block \<Longrightarrow>
     decode_loop block (t, out, pos) = Inr (out @ hs)"
proof (induction hs arbitrary: t out pos)
  case Nil
  then have "pos = length block" by (simp add: encode_headers_def)
  then show ?case using decode_loop.simps [of block t out pos] by simp
next
  case (Cons h hs)
  have d: "drop pos block = encode_header h @ encode_headers hs"
    using Cons.prems(3) by (simp add: encode_headers_def)
  with encode_header_nonempty [of h] have lt: "pos < length block"
    by (cases "pos < length block") auto
  from Cons.prems(1,2) obtain t' where
      s: "decode_step block (t, out, pos) = Inr (t', out @ [h], pos + length (encode_header h))"
    using decode_step_header [OF _ _ _ d lt, of out t] by auto
  have "drop (pos + length (encode_header h)) block = encode_headers hs"
    using arg_cong [OF d, of "drop (length (encode_header h))"] by (simp add: add.commute)
  moreover have "pos + length (encode_header h) \<le> length block"
    using arg_cong [OF d, of length] lt by simp
  ultimately have "decode_loop block (t', out @ [h], pos + length (encode_header h)) = Inr ((out @ [h]) @ hs)"
    using Cons.prems(1,2) by (intro Cons.IH) simp_all
  with lt s show ?case
    by (simp add: decode_loop.simps [of block t out pos])
qed

lemma hpack_decode_encode:
  assumes "\<forall>h \<in> set hs. header_text (fst h) \<and> header_text (snd h)" and "length hs \<le> 512"
  shows "hpack_decode (encode_headers hs) = Inr hs"
  using decode_loop_headers [OF assms(1), of "[]" 0 "encode_headers hs" table_new] assms(2)
  by (simp add: hpack_decode_def)

section \<open>Properties\<close>

text \<open>
  C2. The decoder reads back what the encoder wrote: every list of at most 512 headers, whose
  names and values are text of at most 64 KiB, survives encoding, in order.
\<close>

theorem hpack_round_trip:
  assumes "\<forall>h \<in> set hs. header_text (fst h) \<and> header_text (snd h)" and "length hs \<le> 512"
  shows "hpack_decode (encode_headers hs) = Inr hs"
  by (rule hpack_decode_encode [OF assms])

definition sample_headers :: "header list" where
  "sample_headers =
     [('':method'', ''GET''), ('':path'', ''/a''), (''user-agent'', ''curl/8''), (''x-b'', ''c'')]"

lemma sample_headers_text:
  "\<forall>h \<in> set sample_headers. header_text (fst h) \<and> header_text (snd h)" "length sample_headers \<le> 512"
  by code_simp+

lemma hpack_round_trip_witness: "hpack_decode (encode_headers sample_headers) = Inr sample_headers"
  by (rule hpack_round_trip [OF sample_headers_text])

end
