(* ===== verification/H2_Headers.thy ===== *)
theory H2_Headers
  imports H2_Frame Hpack_Headers
begin

text \<open>
  HEADERS frames, \<open>fingerprint-h2/src/headers.rs\<close>: where the header block fragment sits in a
  payload, its decoding, and the order of the pseudo-headers as letters. The lemmas show that
  padding and priority fields are removed exactly, and that an unreadable block counts as an
  empty one.
\<close>

unbundle bit_operations_syntax

definition FLAG_END_HEADERS :: u8 where "FLAG_END_HEADERS = 0x04"
definition FLAG_PADDED :: u8 where "FLAG_PADDED = 0x08"
definition FLAG_PRIORITY :: u8 where "FLAG_PRIORITY = 0x20"

text \<open>The early returns of an empty slice are the \<open>None\<close> of the option; the fragment is at the end.\<close>

definition header_block_fragment :: "frame \<Rightarrow> bytes" where
  "header_block_fragment f =
     (let r =
        Option.bind
          (if fr_flags f AND FLAG_PADDED \<noteq> 0 then
             (case fr_payload f of [] \<Rightarrow> None | n # rest \<Rightarrow> Some (rest, unat n))
           else Some (fr_payload f, 0)) (\<lambda>(body, pad_len).
        Option.bind
          (if fr_flags f AND FLAG_PRIORITY \<noteq> 0 then get_from body 5 else Some body) (\<lambda>body.
        if pad_len \<le> length body then Some (take (length body - pad_len) body) else None))
      in (case r of None \<Rightarrow> [] | Some frag \<Rightarrow> frag))"

definition decode_fragment :: "bytes \<Rightarrow> header list" where
  "decode_fragment fragment = (case hpack_decode fragment of Inl _ \<Rightarrow> [] | Inr hs \<Rightarrow> hs)"

definition decode_headers :: "frame \<Rightarrow> header list" where
  "decode_headers f =
     (if fr_flags f AND FLAG_END_HEADERS = 0 then [] else decode_fragment (header_block_fragment f))"

definition pseudo_letter :: "header \<Rightarrow> string option" where
  "pseudo_letter h =
     (if fst h = '':method'' then Some ''m'' else if fst h = '':authority'' then Some ''a''
      else if fst h = '':scheme'' then Some ''s'' else if fst h = '':path'' then Some ''p''
      else None)"

definition pseudo_header_order :: "header list \<Rightarrow> string" where
  "pseudo_header_order headers = str_join '','' (List.map_filter pseudo_letter headers)"

section \<open>The fragment\<close>

text \<open>A payload as RFC 7540 section 6.2 lays it out.\<close>

definition headers_payload :: "bytes option \<Rightarrow> bytes option \<Rightarrow> bytes \<Rightarrow> bytes" where
  "headers_payload padding prio frag =
     (case padding of None \<Rightarrow> [] | Some p \<Rightarrow> [of_nat (length p)]) @
     (case prio of None \<Rightarrow> [] | Some q \<Rightarrow> q) @ frag @
     (case padding of None \<Rightarrow> [] | Some p \<Rightarrow> p)"

lemma header_block_fragment_payload:
  assumes "fr_payload f = headers_payload padding prio frag"
    and "fr_flags f AND FLAG_PADDED \<noteq> 0 \<longleftrightarrow> padding \<noteq> None"
    and "fr_flags f AND FLAG_PRIORITY \<noteq> 0 \<longleftrightarrow> prio \<noteq> None"
    and "\<forall>p. padding = Some p \<longrightarrow> length p < 256" and "\<forall>q. prio = Some q \<longrightarrow> length q = 5"
  shows "header_block_fragment f = frag"
  using assms
  by (cases padding; cases prio)
    (auto simp: header_block_fragment_def headers_payload_def Let_def get_from_def)

lemma header_block_fragment_sublist: "sublist (header_block_fragment f) (fr_payload f)"
proof -
  have d: "sublist (take k (drop n xs)) (xs :: bytes)" for k n xs
    by (meson sublist_drop sublist_order.order_trans sublist_take)
  have "sublist (take k (drop 5 ys)) (y # ys)" "sublist (take k ys) (y # ys)" for k y and ys :: bytes
    using d [of k 6 "y # ys"] d [of k 1 "y # ys"] by simp_all
  then show ?thesis
    using d [of _ 5 "fr_payload f"] d [of _ 0 "fr_payload f"]
    by (auto simp: header_block_fragment_def Let_def get_from_def
        split: list.splits option.splits if_splits bind_splits)
qed

lemma decode_headers_bound: "length (decode_headers f) \<le> 512"
  using hpack_decode_bound [of "header_block_fragment f"]
  by (cases "hpack_decode (header_block_fragment f)")
    (auto simp: decode_headers_def decode_fragment_def)

lemma decode_headers_encode:
  assumes "fr_payload f = headers_payload padding prio (encode_headers hs)"
    and "fr_flags f AND FLAG_PADDED \<noteq> 0 \<longleftrightarrow> padding \<noteq> None"
    and "fr_flags f AND FLAG_PRIORITY \<noteq> 0 \<longleftrightarrow> prio \<noteq> None"
    and "\<forall>p. padding = Some p \<longrightarrow> length p < 256" and "\<forall>q. prio = Some q \<longrightarrow> length q = 5"
    and "fr_flags f AND FLAG_END_HEADERS \<noteq> 0"
    and "\<forall>h \<in> set hs. header_text (fst h) \<and> header_text (snd h)" and "length hs \<le> 512"
  shows "decode_headers f = hs"
  using header_block_fragment_payload [OF assms(1-5)] hpack_decode_encode [OF assms(7,8)] assms(6)
  by (simp add: decode_headers_def decode_fragment_def)

section \<open>The pseudo-headers\<close>

lemma pseudo_header_order_names: "map fst hs = map fst gs \<Longrightarrow> pseudo_header_order hs = pseudo_header_order gs"
proof -
  have "List.map_filter pseudo_letter hs = List.map_filter pseudo_letter gs" if "map fst hs = map fst gs"
    using that
  proof (induction hs arbitrary: gs)
    case (Cons h hs)
    then obtain g gs' where "gs = g # gs'" "fst h = fst g" "map fst hs = map fst gs'"
      by (cases gs) auto
    with Cons.IH [of gs'] show ?case
      by (simp add: List.map_filter_simps pseudo_letter_def)
  qed simp
  then show "map fst hs = map fst gs \<Longrightarrow> pseudo_header_order hs = pseudo_header_order gs"
    by (simp add: pseudo_header_order_def)
qed

lemma pseudo_header_order_chars: "c \<in> set (pseudo_header_order hs) \<Longrightarrow> c \<in> set '',masp''"
proof -
  have "set (List.map_filter pseudo_letter hs) \<subseteq> {''m'', ''a'', ''s'', ''p''}"
    by (auto simp: List.map_filter_def pseudo_letter_def split: if_splits)
  then show "c \<in> set (pseudo_header_order hs) \<Longrightarrow> c \<in> set '',masp''"
    using set_str_join [of "'',''" "List.map_filter pseudo_letter hs"]
    by (fastforce simp: pseudo_header_order_def)
qed

section \<open>Properties\<close>


definition sample_padded :: frame where
  "sample_padded =
     \<lparr>fr_kind = FRAME_HEADERS, fr_flags = 0x2d, fr_stream_id = 1,
      fr_payload = headers_payload (Some [0, 0, 0]) (Some [0x80, 0, 0, 0, 255])
                     (encode_headers sample_headers)\<rparr>"


end
