(* ===== verification/H2_Http.thy ===== *)
theory H2_Http
  imports Hpack_Table Rust_Text
begin

text \<open>
  The HTTP layer of a client's identity, \<open>fingerprint-h2/src/http.rs\<close>: the profile of a header
  list and its comparable part. The lemmas show what the profile reads: never a value but
  that of \<open>:method\<close>, never a header of the \<open>x-fp-\<close> namespace; and that what is compared does
  not change with cookies and referers.
\<close>

definition REQUEST_SCOPED :: "string list" where
  "REQUEST_SCOPED = [''cookie'', ''referer'']"

definition FP_PREFIX :: string where
  "FP_PREFIX = ''x-fp-''"

record http_profile =
  hp_header_names :: "string list"
  hp_header_count :: nat
  hp_has_accept_language :: bool
  hp_method :: "string option"
  hp_cookie_header_count :: nat
  hp_has_referer :: bool

definition is_pseudo :: "string \<Rightarrow> bool" where
  "is_pseudo name = starts_with name '':''"

text \<open>The body of the loop over the headers; the count is filled in after it.\<close>

definition http_step :: "http_profile \<Rightarrow> header \<Rightarrow> http_profile" where
  "http_step p h =
     (let lower = to_ascii_lowercase (fst h) in
      if is_pseudo lower then
        (if lower = '':method'' then p\<lparr>hp_method := Some (snd h)\<rparr> else p)
      else if starts_with lower FP_PREFIX then p
      else
        let p =
          (if lower = ''cookie'' then p\<lparr>hp_cookie_header_count := hp_cookie_header_count p + 1\<rparr>
           else if lower = ''referer'' then p\<lparr>hp_has_referer := True\<rparr>
           else if lower = ''accept-language'' then p\<lparr>hp_has_accept_language := True\<rparr>
           else p)
        in p\<lparr>hp_header_names := hp_header_names p @ [lower]\<rparr>)"

definition http_start :: http_profile where
  "http_start =
     \<lparr>hp_header_names = [], hp_header_count = 0, hp_has_accept_language = False, hp_method = None,
      hp_cookie_header_count = 0, hp_has_referer = False\<rparr>"

definition from_headers :: "header list \<Rightarrow> http_profile" where
  "from_headers headers =
     (let p = foldl http_step http_start headers in
      p\<lparr>hp_header_count :=
        length (filter (\<lambda>n. n \<notin> set REQUEST_SCOPED) (hp_header_names p))\<rparr>)"

definition comparable_headers :: "http_profile \<Rightarrow> string list" where
  "comparable_headers p = filter (\<lambda>n. n \<notin> set REQUEST_SCOPED) (hp_header_names p)"

section \<open>The profile, component by component\<close>

text \<open>A header counts when it is neither a pseudo-header nor in fpd's own namespace.\<close>

definition counted :: "header \<Rightarrow> bool" where
  "counted h \<longleftrightarrow>
     \<not> is_pseudo (to_ascii_lowercase (fst h)) \<and> \<not> starts_with (to_ascii_lowercase (fst h)) FP_PREFIX"

definition lower_name :: "header \<Rightarrow> string" where
  "lower_name h = to_ascii_lowercase (fst h)"

definition methods :: "header list \<Rightarrow> string list" where
  "methods hs = map snd (filter (\<lambda>h. lower_name h = '':method'') hs)"

lemma is_pseudo_method [simp]: "is_pseudo '':method''"
  by (simp add: is_pseudo_def)

lemma foldl_http_step:
  "foldl http_step p hs =
     \<lparr>hp_header_names = hp_header_names p @ map lower_name (filter counted hs),
      hp_header_count = hp_header_count p,
      hp_has_accept_language =
        (hp_has_accept_language p \<or> ''accept-language'' \<in> lower_name ` set (filter counted hs)),
      hp_method = (if methods hs = [] then hp_method p else Some (last (methods hs))),
      hp_cookie_header_count = hp_cookie_header_count p +
        length (filter (\<lambda>h. lower_name h = ''cookie'') (filter counted hs)),
      hp_has_referer = (hp_has_referer p \<or> ''referer'' \<in> lower_name ` set (filter counted hs))\<rparr>"
proof (induction hs arbitrary: p)
  case Nil
  then show ?case by (simp add: methods_def)
next
  case (Cons h hs)
  define l where "l = lower_name h"
  have c: "counted h \<longleftrightarrow> \<not> is_pseudo l \<and> \<not> starts_with l FP_PREFIX"
    by (simp add: counted_def l_def lower_name_def)
  have f: "\<not> starts_with '':method'' FP_PREFIX" "\<not> is_pseudo ''cookie''" "\<not> is_pseudo ''referer''"
    "\<not> is_pseudo ''accept-language''"
    by (simp_all add: FP_PREFIX_def is_pseudo_def)
  note st = http_step_def [of p h, unfolded lower_name_def [symmetric], folded l_def, unfolded Let_def]
  have m: "methods (h # hs) = (if l = '':method'' then snd h # methods hs else methods hs)"
    by (simp add: methods_def l_def)
  show ?case
  proof (cases "is_pseudo l \<or> starts_with l FP_PREFIX")
    case True
    with f show ?thesis
      by (auto simp: Cons.IH st c m)
  next
    case False
    then have "l \<noteq> '':method''" by auto
    with False show ?thesis
      by (auto simp: Cons.IH st c m simp flip: l_def)
  qed
qed

lemma from_headers_eq:
  "from_headers hs =
     \<lparr>hp_header_names = map lower_name (filter counted hs),
      hp_header_count =
        length (filter (\<lambda>n. n \<notin> set REQUEST_SCOPED) (map lower_name (filter counted hs))),
      hp_has_accept_language = (''accept-language'' \<in> lower_name ` set (filter counted hs)),
      hp_method = (if methods hs = [] then None else Some (last (methods hs))),
      hp_cookie_header_count =
        length (filter (\<lambda>h. lower_name h = ''cookie'') (filter counted hs)),
      hp_has_referer = (''referer'' \<in> lower_name ` set (filter counted hs))\<rparr>"
  by (simp add: from_headers_def foldl_http_step http_start_def Let_def)

section \<open>What the profile reads\<close>

lemma counted_names: "fst h = fst g \<Longrightarrow> counted h = counted g \<and> lower_name h = lower_name g"
  by (simp add: counted_def lower_name_def)

lemma filter_names:
  "map fst hs = map fst gs \<Longrightarrow>
     map lower_name (filter counted hs) = map lower_name (filter counted gs) \<and>
     length (filter (\<lambda>h. lower_name h = n) (filter counted hs)) =
     length (filter (\<lambda>h. lower_name h = n) (filter counted gs))"
proof (induction hs arbitrary: gs)
  case (Cons h hs)
  then obtain g gs' where "gs = g # gs'" "fst h = fst g" "map fst hs = map fst gs'"
    by (cases gs) auto
  with Cons.IH [of gs'] counted_names [of h g] show ?case by simp
qed simp

lemma from_headers_names:
  assumes "map fst hs = map fst gs" and "methods hs = methods gs"
  shows "from_headers hs = from_headers gs"
proof -
  note n = filter_names [OF assms(1)]
  have "lower_name ` set (filter counted hs) = lower_name ` set (filter counted gs)"
    using arg_cong [OF conjunct1 [OF n [of "[]"]], of set] by (simp only: set_map)
  with n assms(2) show ?thesis
    unfolding from_headers_eq by simp
qed

definition fp_header :: "header \<Rightarrow> bool" where
  "fp_header h \<longleftrightarrow> starts_with (to_ascii_lowercase (fst h)) FP_PREFIX"

lemma fp_not_pseudo: "fp_header h \<Longrightarrow> lower_name h \<noteq> '':method''"
  by (auto simp: fp_header_def lower_name_def FP_PREFIX_def prefix_def)

lemma from_headers_fp: "from_headers (filter (\<lambda>h. \<not> fp_header h) hs) = from_headers hs"
proof -
  have "filter counted (filter (\<lambda>h. \<not> fp_header h) hs) = filter counted hs"
    by (auto simp: fp_header_def counted_def intro: filter_cong)
  moreover have "methods (filter (\<lambda>h. \<not> fp_header h) hs) = methods hs"
    using fp_not_pseudo by (auto simp: methods_def intro!: arg_cong [where f = "map snd"] filter_cong)
  ultimately show ?thesis
    unfolding from_headers_eq by (simp only:)
qed

text \<open>Cookies and referers change nothing that is compared.\<close>

definition request_scoped :: "header \<Rightarrow> bool" where
  "request_scoped h \<longleftrightarrow> lower_name h \<in> set REQUEST_SCOPED"

lemma comparable_scoped:
  "comparable_headers (from_headers (filter (\<lambda>h. \<not> request_scoped h) hs)) =
     comparable_headers (from_headers hs)"
  by (induction hs) (auto simp: comparable_headers_def from_headers_eq request_scoped_def)

lemma header_count_comparable:
  "hp_header_count (from_headers hs) = length (comparable_headers (from_headers hs))"
  by (simp add: comparable_headers_def from_headers_eq)

lemma accept_language_scoped:
  "hp_has_accept_language (from_headers (filter (\<lambda>h. \<not> request_scoped h) hs)) =
     hp_has_accept_language (from_headers hs)"
proof -
  have "(\<exists>h \<in> set (filter counted (filter (\<lambda>h. \<not> request_scoped h) hs)). lower_name h = ''accept-language'') =
      (\<exists>h \<in> set (filter counted hs). lower_name h = ''accept-language'')"
    by (auto simp: request_scoped_def REQUEST_SCOPED_def simp del: split_paired_Ex)
  then show ?thesis
    by (simp add: from_headers_eq image_iff eq_commute [of "''accept-language''"]
        del: filter_filter split_paired_Ex)
qed

section \<open>Properties\<close>

text \<open>
  The HTTP profile holds no value of any header but \<open>:method\<close>: requests with the same header
  names in the same order and the same method have the same profile.
\<close>

theorem from_headers_ignores_values:
  assumes "map fst hs = map fst gs" and "methods hs = methods gs"
  shows "from_headers hs = from_headers gs"
  by (rule from_headers_names [OF assms])

lemma from_headers_ignores_values_witness:
  "from_headers [('':method'', ''GET''), (''Cookie'', ''a=1''), (''accept'', ''*'')] =
   from_headers [('':method'', ''GET''), (''Cookie'', ''secret''), (''accept'', ''text'')]"
  by (rule from_headers_ignores_values) code_simp+

text \<open>
  What a client sends under the \<open>x-fp-\<close> prefix, in any letter case, leaves no trace in the
  profile it is identified by.
\<close>

theorem from_headers_ignores_fp: "from_headers (filter (\<lambda>h. \<not> fp_header h) hs) = from_headers hs"
  by (rule from_headers_fp)

text \<open>
  What is compared with a profile does not depend on the browsing history of the request:
  removing every cookie and referer changes neither the compared names nor their count.
\<close>

theorem comparable_ignores_history:
  "comparable_headers (from_headers (filter (\<lambda>h. \<not> request_scoped h) hs)) =
     comparable_headers (from_headers hs) \<and>
   hp_header_count (from_headers (filter (\<lambda>h. \<not> request_scoped h) hs)) =
     hp_header_count (from_headers hs)"
  by (simp add: comparable_scoped header_count_comparable)

end
