(* ===== verification/Ext.thy ===== *)
theory Ext
  imports Hello Grease Rust_Text
begin

text \<open>
  Extension bodies, \<open>fingerprint-core/src/ext.rs\<close>: the lookups by extension id and the
  readers of the six bodies that the fingerprints use. A body that cannot be read counts as
  absent. The lemmas say that every reader depends only on the non-GREASE extensions, and,
  where ids are distinct, not on their order.
\<close>

definition EXT_SERVER_NAME :: u16 where "EXT_SERVER_NAME = 0x0000"
definition EXT_SUPPORTED_GROUPS :: u16 where "EXT_SUPPORTED_GROUPS = 0x000a"
definition EXT_EC_POINT_FORMATS :: u16 where "EXT_EC_POINT_FORMATS = 0x000b"
definition EXT_SIG_ALGS :: u16 where "EXT_SIG_ALGS = 0x000d"
definition EXT_ALPN :: u16 where "EXT_ALPN = 0x0010"
definition EXT_SUPPORTED_VERSIONS :: u16 where "EXT_SUPPORTED_VERSIONS = 0x002b"

lemmas ext_ids = EXT_SERVER_NAME_def EXT_SUPPORTED_GROUPS_def EXT_EC_POINT_FORMATS_def
  EXT_SIG_ALGS_def EXT_ALPN_def EXT_SUPPORTED_VERSIONS_def

definition body_of :: "raw_ext list \<Rightarrow> u16 \<Rightarrow> bytes option" where
  "body_of exts xid = map_option re_body (List.find (\<lambda>e. re_id e = xid) exts)"

definition has_sni :: "raw_ext list \<Rightarrow> bool" where
  "has_sni exts = list_ex (\<lambda>e. re_id e = EXT_SERVER_NAME) exts"

definition first_alpn :: "raw_ext list \<Rightarrow> string option" where
  "first_alpn exts =
     Option.bind (body_of exts EXT_ALPN) (\<lambda>body.
     Option.bind (res_ok (read_u16 (reader_new body))) (\<lambda>(list_len, r).
     Option.bind (res_ok (take_bytes (unat list_len) r)) (\<lambda>(b, r).
     Option.bind (res_ok (read_u8 (reader_new b))) (\<lambda>(n, list).
     Option.bind (res_ok (take_bytes (unat n) list)) (\<lambda>(bytes, list).
     from_utf8 bytes)))))"

definition u16_list :: "bytes option \<Rightarrow> u16 list" where
  "u16_list body =
     (case body of None \<Rightarrow> []
      | Some body \<Rightarrow>
          (case read_u16 (reader_new body) of Inl _ \<Rightarrow> []
           | Inr (len, r) \<Rightarrow>
               (case take_bytes (unat len) r of Inl _ \<Rightarrow> []
                | Inr (items, r) \<Rightarrow> u16_items items)))"

definition sig_algs :: "raw_ext list \<Rightarrow> u16 list" where
  "sig_algs exts = u16_list (body_of exts EXT_SIG_ALGS)"

definition supported_groups :: "raw_ext list \<Rightarrow> u16 list" where
  "supported_groups exts = u16_list (body_of exts EXT_SUPPORTED_GROUPS)"

definition ec_point_formats :: "raw_ext list \<Rightarrow> bytes" where
  "ec_point_formats exts =
     (case body_of exts EXT_EC_POINT_FORMATS of None \<Rightarrow> []
      | Some body \<Rightarrow>
          (case read_u8 (reader_new body) of Inl _ \<Rightarrow> []
           | Inr (len, r) \<Rightarrow>
               (case take_bytes (unat len) r of Inl _ \<Rightarrow> []
                | Inr (formats, r) \<Rightarrow> formats)))"

definition negotiated_version :: "raw_ext list \<Rightarrow> u16 \<Rightarrow> u16" where
  "negotiated_version exts legacy =
     (case body_of exts EXT_SUPPORTED_VERSIONS of None \<Rightarrow> legacy
      | Some body \<Rightarrow>
          (case read_u8 (reader_new body) of Inl _ \<Rightarrow> legacy
           | Inr (len, r) \<Rightarrow>
               (case take_bytes (unat len) r of Inl _ \<Rightarrow> legacy
                | Inr (items, r) \<Rightarrow>
                    (case iter_max (filter (\<lambda>v. \<not> is_grease v) (u16_items items)) of
                       None \<Rightarrow> legacy
                     | Some v \<Rightarrow> v))))"

section \<open>What the readers depend on\<close>

text \<open>
  \<open>offered_versions\<close> is the non-GREASE content of a \<open>supported_versions\<close> body, and
  \<open>ext_key\<close> what an extension contributes to a fingerprint: a browser redraws the GREASE
  value inside \<open>supported_versions\<close> for each connection.
\<close>

definition offered_versions :: "bytes \<Rightarrow> u16 list" where
  "offered_versions body =
     (case read_u8 (reader_new body) of Inl _ \<Rightarrow> []
      | Inr (len, r) \<Rightarrow>
          (case take_bytes (unat len) r of Inl _ \<Rightarrow> [] | Inr (items, r) \<Rightarrow> strip (u16_items items)))"

definition ext_key :: "raw_ext \<Rightarrow> u16 \<times> (u16 list + bytes)" where
  "ext_key e =
     (re_id e, if re_id e = EXT_SUPPORTED_VERSIONS then Inl (offered_versions (re_body e))
               else Inr (re_body e))"

definition real_exts :: "raw_ext list \<Rightarrow> raw_ext list" where
  "real_exts exts = filter (\<lambda>e. \<not> is_grease (re_id e)) exts"

lemma negotiated_version_offered:
  "negotiated_version exts legacy =
     (case body_of exts EXT_SUPPORTED_VERSIONS of None \<Rightarrow> legacy
      | Some body \<Rightarrow> (case iter_max (offered_versions body) of None \<Rightarrow> legacy | Some v \<Rightarrow> v))"
  by (simp add: negotiated_version_def offered_versions_def strip_def
      split: option.splits sum.splits prod.splits)

lemma body_of_real: "\<not> is_grease xid \<Longrightarrow> body_of exts xid = body_of (real_exts exts) xid"
  by (induction exts) (auto simp: body_of_def real_exts_def)

lemma body_of_Cons: "body_of (e # exts) xid = (if re_id e = xid then Some (re_body e) else body_of exts xid)"
  by (simp add: body_of_def)

lemma map_of_ext_key:
  "map_of (map ext_key exts) xid =
     map_option (\<lambda>b. if xid = EXT_SUPPORTED_VERSIONS then Inl (offered_versions b) else Inr b)
       (body_of exts xid)"
  by (induction exts) (auto simp: ext_key_def body_of_Cons, simp add: body_of_def)

lemma ids_of_keys: "map re_id exts = map fst (map ext_key exts)"
  by (simp add: ext_key_def comp_def)

lemma strip_ids: "strip (map re_id exts) = map re_id (real_exts exts)"
  by (simp add: strip_def real_exts_def filter_map comp_def)

lemma map_of_perm:
  assumes "mset xs = mset ys" and "distinct (map fst xs)"
  shows "map_of xs = map_of ys"
proof -
  have "mset (map fst xs) = mset (map fst ys)"
    using assms(1) by simp
  with assms(2) have "distinct (map fst ys)"
    by (metis mset_eq_imp_distinct_iff)
  moreover have "set xs = set ys"
    using assms(1) by (rule mset_eq_setD)
  ultimately show ?thesis
    using map_of_inject_set assms(2) by blast
qed

lemma not_grease_ids:
  "\<not> is_grease EXT_SERVER_NAME" "\<not> is_grease EXT_SUPPORTED_GROUPS"
  "\<not> is_grease EXT_EC_POINT_FORMATS" "\<not> is_grease EXT_SIG_ALGS" "\<not> is_grease EXT_ALPN"
  "\<not> is_grease EXT_SUPPORTED_VERSIONS"
  by (simp_all add: is_grease_iff all_grease_def ext_ids)

lemma ext_ids_distinct:
  "EXT_ALPN \<noteq> EXT_SUPPORTED_VERSIONS" "EXT_SIG_ALGS \<noteq> EXT_SUPPORTED_VERSIONS"
  "EXT_SUPPORTED_GROUPS \<noteq> EXT_SUPPORTED_VERSIONS" "EXT_EC_POINT_FORMATS \<noteq> EXT_SUPPORTED_VERSIONS"
  "EXT_SERVER_NAME \<noteq> EXT_ALPN"
  by (simp_all add: ext_ids)

text \<open>Two extension lists offer the same when their non-GREASE keys agree up to order.\<close>

definition same_exts :: "raw_ext list \<Rightarrow> raw_ext list \<Rightarrow> bool" where
  "same_exts xs ys \<longleftrightarrow>
     mset (map ext_key (real_exts xs)) = mset (map ext_key (real_exts ys)) \<and>
     distinct (map re_id (real_exts xs))"

lemma same_exts_lookup:
  assumes "same_exts xs ys" and "\<not> is_grease xid"
  shows "map_option (\<lambda>b. if xid = EXT_SUPPORTED_VERSIONS then Inl (offered_versions b) else Inr b)
       (body_of xs xid) =
     map_option (\<lambda>b. if xid = EXT_SUPPORTED_VERSIONS then Inl (offered_versions b) else Inr b)
       (body_of ys xid)"
proof -
  have "map_of (map ext_key (real_exts xs)) = map_of (map ext_key (real_exts ys))"
    using assms(1) unfolding same_exts_def ids_of_keys by (intro map_of_perm) blast+
  then have "map_of (map ext_key (real_exts xs)) xid = map_of (map ext_key (real_exts ys)) xid"
    by (rule fun_cong)
  then show ?thesis
    unfolding map_of_ext_key body_of_real [OF assms(2), of xs] body_of_real [OF assms(2), of ys] .
qed

lemma same_exts_body:
  assumes "same_exts xs ys" and "\<not> is_grease xid" and "xid \<noteq> EXT_SUPPORTED_VERSIONS"
  shows "body_of xs xid = body_of ys xid"
  using same_exts_lookup [OF assms(1,2)] assms(3)
  by (cases "body_of xs xid"; cases "body_of ys xid") simp_all

lemma same_exts_ids: "same_exts xs ys \<Longrightarrow> mset (strip (map re_id xs)) = mset (strip (map re_id ys))"
  unfolding same_exts_def strip_ids unfolding ids_of_keys mset_map [of fst] by (elim conjE) simp

lemma has_sni_ids: "has_sni exts \<longleftrightarrow> EXT_SERVER_NAME \<in> set (strip (map re_id exts))"
  using not_grease_ids(1) by (auto simp: has_sni_def list_ex_iff strip_def image_iff
      eq_commute [of EXT_SERVER_NAME])

lemma same_exts_readers:
  assumes "same_exts xs ys"
  shows "has_sni xs = has_sni ys" "first_alpn xs = first_alpn ys" "sig_algs xs = sig_algs ys"
    "supported_groups xs = supported_groups ys" "ec_point_formats xs = ec_point_formats ys"
    "negotiated_version xs legacy = negotiated_version ys legacy"
proof -
  note b = same_exts_body [OF assms]
  show "has_sni xs = has_sni ys"
    using mset_eq_setD [OF same_exts_ids [OF assms]] by (simp add: has_sni_ids)
  show "first_alpn xs = first_alpn ys" "sig_algs xs = sig_algs ys"
    "supported_groups xs = supported_groups ys" "ec_point_formats xs = ec_point_formats ys"
    unfolding first_alpn_def sig_algs_def supported_groups_def ec_point_formats_def
    using b [of EXT_ALPN] b [of EXT_SIG_ALGS] b [of EXT_SUPPORTED_GROUPS]
      b [of EXT_EC_POINT_FORMATS] not_grease_ids ext_ids_distinct by simp_all
  show "negotiated_version xs legacy = negotiated_version ys legacy"
    using same_exts_lookup [OF assms not_grease_ids(6)]
    by (cases "body_of xs EXT_SUPPORTED_VERSIONS"; cases "body_of ys EXT_SUPPORTED_VERSIONS")
      (simp_all add: negotiated_version_offered)
qed

end
