(* ===== verification/Ja.thy ===== *)
theory Ja
  imports Ext Hello_Wire
begin

text \<open>
  The two TLS fingerprints, \<open>fingerprint-core/src/ja3.rs\<close> and \<open>ja4.rs\<close>, and the report
  \<open>fingerprint\<close> builds of a raw ClientHello. The digests are third-party code: \<open>sha\<close> and
  \<open>md\<close> are parameters that map the hashed bytes to the digest's bytes. The lemmas say what
  each fingerprint depends on: JA4 ignores GREASE and the order of ciphers and extensions,
  JA3 determines the stripped lists in wire order.
\<close>

record provenance =
  pv_ciphers :: span
  pv_extensions :: span
  pv_per_extension :: "(u16 \<times> span) list"

record tls_fingerprint =
  tf_ja3 :: string
  tf_ja3_string :: string
  tf_ja4 :: string
  tf_ja4_r :: string
  tf_ciphers :: "u16 list"
  tf_extensions :: "u16 list"
  tf_grease_cipher_positions :: "nat list"
  tf_grease_ext_positions :: "nat list"
  tf_alpn :: "string option"
  tf_has_sni :: bool
  tf_provenance :: provenance

type_synonym digest = "bytes \<Rightarrow> bytes"

section \<open>JA3\<close>

definition join_u16 :: "u16 list \<Rightarrow> string" where
  "join_u16 values = str_join ''-'' (map (\<lambda>v. dec_string (unat v)) (strip values))"

definition ja3_string :: "u16 \<Rightarrow> u16 list \<Rightarrow> u16 list \<Rightarrow> u16 list \<Rightarrow> bytes \<Rightarrow> string" where
  "ja3_string legacy_version ciphers extensions curves point_formats =
     (let pf = str_join ''-'' (map (\<lambda>v. dec_string (unat v)) point_formats) in
      dec_string (unat legacy_version) @ '','' @ join_u16 ciphers @ '','' @ join_u16 extensions
        @ '','' @ join_u16 curves @ '','' @ pf)"

text \<open>\<open>format!("{:x}", digest)\<close>: two lower-case digits for each byte.\<close>

definition hex_bytes :: "bytes \<Rightarrow> string" where
  "hex_bytes bs = concat (map (\<lambda>b. pad_zero 2 (hex_string (unat b))) bs)"

definition ja3_hash :: "digest \<Rightarrow> string \<Rightarrow> string" where
  "ja3_hash md s = hex_bytes (md (as_bytes s))"

section \<open>JA4\<close>

definition EMPTY_HASH :: string where
  "EMPTY_HASH = ''000000000000''"

definition sha256_hex :: "digest \<Rightarrow> string \<Rightarrow> string" where
  "sha256_hex sha s = hex_bytes (sha (as_bytes s))"

definition count2 :: "nat \<Rightarrow> string" where
  "count2 n = pad_zero 2 (dec_string (min n 99))"

definition version_str :: "u16 \<Rightarrow> string" where
  "version_str v =
     (if v = 0x0304 then ''13'' else if v = 0x0303 then ''12'' else if v = 0x0302 then ''11''
      else if v = 0x0301 then ''10'' else if v = 0x0300 then ''s3'' else if v = 0x0002 then ''s2''
      else if v = 0xfeff then ''d1'' else if v = 0xfefd then ''d2'' else if v = 0xfefc then ''d3''
      else ''00'')"

definition is_alnum :: "u8 \<Rightarrow> bool" where
  "is_alnum b \<longleftrightarrow> (48 \<le> b \<and> b \<le> 57) \<or> (65 \<le> b \<and> b \<le> 90) \<or> (97 \<le> b \<and> b \<le> 122)"

definition alpn_chars :: "string option \<Rightarrow> string" where
  "alpn_chars alpn =
     (case alpn of None \<Rightarrow> ''00''
      | Some s \<Rightarrow>
          if s = [] then ''00'' else
          let bytes = as_bytes s; first = hd bytes; final = last bytes in
          if is_alnum first \<and> is_alnum final then [byte_char first, byte_char final]
          else hex_string (unat (drop_bit 4 first)) @ hex_string (unat (final AND 0x0f)))"

definition hex4 :: "u16 \<Rightarrow> string" where
  "hex4 v = pad_zero 4 (hex_string (unat v))"

definition hex_list :: "u16 list \<Rightarrow> string" where
  "hex_list values = str_join '','' (map hex4 values)"

definition ja4_b_string :: "u16 list \<Rightarrow> string" where
  "ja4_b_string ciphers = hex_list (sort (strip ciphers))"

text \<open>\<open>s.get(..12).unwrap_or(EMPTY_HASH)\<close>.\<close>

definition first12 :: "string \<Rightarrow> string" where
  "first12 s = (case get_range s 0 12 of None \<Rightarrow> EMPTY_HASH | Some t \<Rightarrow> t)"

definition ja4_b :: "digest \<Rightarrow> u16 list \<Rightarrow> string" where
  "ja4_b sha ciphers =
     (let s = ja4_b_string ciphers in
      if s = [] then EMPTY_HASH else first12 (sha256_hex sha s))"

definition ja4_c_string :: "u16 list \<Rightarrow> u16 list \<Rightarrow> string" where
  "ja4_c_string extensions sigs =
     (let e = filter (\<lambda>xid. xid \<noteq> EXT_SERVER_NAME \<and> xid \<noteq> EXT_ALPN) (strip extensions) in
      hex_list (sort e) @ ''_'' @ hex_list sigs)"

definition ja4_c :: "digest \<Rightarrow> u16 list \<Rightarrow> u16 list \<Rightarrow> string" where
  "ja4_c sha extensions sigs =
     (if list_all (\<lambda>xid. xid = EXT_SERVER_NAME \<or> xid = EXT_ALPN) (strip extensions) \<and> sigs = []
      then EMPTY_HASH
      else first12 (sha256_hex sha (ja4_c_string extensions sigs)))"

definition ja4_a :: "raw_hello \<Rightarrow> string" where
  "ja4_a h =
     (let ext_ids = map re_id (rh_extensions h);
          version = negotiated_version (rh_extensions h) (rh_legacy_version h);
          alpn = first_alpn (rh_extensions h)
      in ''t'' @ version_str version @ (if has_sni (rh_extensions h) then ''d'' else ''i'')
         @ count2 (length (strip (rh_ciphers h))) @ count2 (length (strip ext_ids))
         @ alpn_chars alpn)"

definition ja4_from_hello :: "digest \<Rightarrow> raw_hello \<Rightarrow> string" where
  "ja4_from_hello sha h =
     (let ext_ids = map re_id (rh_extensions h) in
      ja4_a h @ ''_'' @ ja4_b sha (rh_ciphers h) @ ''_''
        @ ja4_c sha ext_ids (sig_algs (rh_extensions h)))"

definition fingerprint :: "digest \<Rightarrow> digest \<Rightarrow> bytes \<Rightarrow> parse_error + tls_fingerprint" where
  "fingerprint sha md raw =
     try_res (parse_hello raw) (\<lambda>h.
     let exts = rh_extensions h;
         ids = map re_id exts;
         sigs = sig_algs exts;
         prov = \<lparr>pv_ciphers = rh_cipher_span h, pv_extensions = rh_extensions_span h,
                 pv_per_extension = map (\<lambda>e. (re_id e, re_span e)) exts\<rparr>;
         js = ja3_string (rh_legacy_version h) (rh_ciphers h) ids (supported_groups exts)
                (ec_point_formats exts)
     in Inr \<lparr>tf_ja3 = ja3_hash md js, tf_ja3_string = js, tf_ja4 = ja4_from_hello sha h,
             tf_ja4_r = ja4_a h @ ''_'' @ ja4_b_string (rh_ciphers h) @ ''_'' @ ja4_c_string ids sigs,
             tf_ciphers = rh_ciphers h, tf_extensions = ids,
             tf_grease_cipher_positions = positions (rh_ciphers h),
             tf_grease_ext_positions = positions ids,
             tf_alpn = first_alpn exts, tf_has_sni = has_sni exts, tf_provenance = prov\<rparr>)"

section \<open>What JA4 depends on\<close>

definition same_offer :: "raw_hello \<Rightarrow> raw_hello \<Rightarrow> bool" where
  "same_offer h h' \<longleftrightarrow>
     rh_legacy_version h = rh_legacy_version h' \<and>
     mset (strip (rh_ciphers h)) = mset (strip (rh_ciphers h')) \<and>
     same_exts (rh_extensions h) (rh_extensions h')"

lemma sort_perm: "mset xs = mset ys \<Longrightarrow> sort xs = sort (ys :: 'a::linorder list)"
  by (simp add: properties_for_sort)

lemma ja4_b_perm: "mset (strip cs) = mset (strip ds) \<Longrightarrow> ja4_b_string cs = ja4_b_string ds"
  using sort_perm [of "strip cs" "strip ds"] by (simp add: ja4_b_string_def)

lemma ja4_c_perm:
  assumes "mset (strip es) = mset (strip fs)"
  shows "ja4_c_string es sigs = ja4_c_string fs sigs" and "ja4_c sha es sigs = ja4_c sha fs sigs"
proof -
  have "mset (filter P (strip es)) = mset (filter P (strip fs))" for P
    unfolding mset_filter assms ..
  then have "sort (filter P (strip es)) = sort (filter P (strip fs))" for P
    by (rule sort_perm)
  then show s: "ja4_c_string es sigs = ja4_c_string fs sigs"
    unfolding ja4_c_string_def Let_def by (simp only:)
  have "list_all P (strip es) = list_all P (strip fs)" for P
    using mset_eq_setD [OF assms] by (simp add: list_all_iff)
  then show "ja4_c sha es sigs = ja4_c sha fs sigs"
    by (simp add: ja4_c_def s)
qed

lemma same_offer_ja4:
  assumes "same_offer h h'"
  shows "ja4_from_hello sha h = ja4_from_hello sha h'" and "ja4_a h = ja4_a h'"
    and "ja4_b_string (rh_ciphers h) = ja4_b_string (rh_ciphers h')"
    and "ja4_c_string (map re_id (rh_extensions h)) (sig_algs (rh_extensions h)) =
         ja4_c_string (map re_id (rh_extensions h')) (sig_algs (rh_extensions h'))"
proof -
  from assms have l: "rh_legacy_version h = rh_legacy_version h'"
    and c: "mset (strip (rh_ciphers h)) = mset (strip (rh_ciphers h'))"
    and e: "same_exts (rh_extensions h) (rh_extensions h')"
    by (simp_all add: same_offer_def)
  note ids = same_exts_ids [OF e] and readers = same_exts_readers [OF e]
  have len: "length (strip (rh_ciphers h)) = length (strip (rh_ciphers h'))"
    "length (strip (map re_id (rh_extensions h))) = length (strip (map re_id (rh_extensions h')))"
    using mset_eq_length [OF c] mset_eq_length [OF ids] .
  show a: "ja4_a h = ja4_a h'"
    unfolding ja4_a_def Let_def len readers l ..
  show b: "ja4_b_string (rh_ciphers h) = ja4_b_string (rh_ciphers h')"
    using c by (rule ja4_b_perm)
  show "ja4_c_string (map re_id (rh_extensions h)) (sig_algs (rh_extensions h)) =
      ja4_c_string (map re_id (rh_extensions h')) (sig_algs (rh_extensions h'))"
    unfolding readers by (rule ja4_c_perm [OF ids])
  show "ja4_from_hello sha h = ja4_from_hello sha h'"
    unfolding ja4_from_hello_def Let_def a ja4_b_def b readers ja4_c_perm(2) [OF ids] ..
qed

section \<open>Shapes\<close>

lemma length_hex_bytes: "length (hex_bytes bs) = 2 * length bs"
proof (induction bs)
  case (Cons b bs)
  have "length (pad_zero 2 (hex_string (unat b))) = 2"
    using length_hex_string_256 [of "unat b"] unat_u8_bound [of b] by (simp add: length_pad_zero)
  with Cons show ?case by (simp add: hex_bytes_def)
qed (simp add: hex_bytes_def)

lemma length_count2: "length (count2 n) = 2"
  using length_dec_string_100 [of "min n 99"] by (simp add: count2_def length_pad_zero)

lemma length_version_str: "length (version_str v) = 2"
  by (simp add: version_str_def)

lemma length_hex4: "length (hex4 v) = 4"
  using length_hex_string_65536 [of "unat v"] unat_u16_bound [of v]
  by (simp add: hex4_def length_pad_zero)

lemma nibbles: "unat (drop_bit 4 (b :: u8)) < 16" "unat ((b :: u8) AND 0x0f) < 16"
proof -
  have "unat (drop_bit 4 b) = unat b div 16"
    by (simp only: unat_drop_bit_eq) (simp add: drop_bit_eq_div)
  with unat_u8_bound [of b] show "unat (drop_bit 4 b) < 16" by simp
  have "b AND 0x0f \<le> 0x0f"
    by (rule word_and_le1)
  then have "unat (b AND 0x0f) \<le> unat (0x0f :: u8)"
    by (simp only: word_le_nat_alt)
  then show "unat (b AND 0x0f) < 16" by simp
qed

lemma length_alpn_chars: "length (alpn_chars a) = 2"
  by (simp add: alpn_chars_def Let_def length_hex_string_16 nibbles split: option.split)

lemma length_ja4_a: "length (ja4_a h) = 10"
  by (simp add: ja4_a_def Let_def length_version_str length_count2 length_alpn_chars)

lemma length_first12: "length (first12 s) = 12"
  by (simp add: first12_def EMPTY_HASH_def get_range_def)

lemma length_ja4: "length (ja4_from_hello sha h) = 36"
  by (simp add: ja4_from_hello_def Let_def length_ja4_a ja4_b_def ja4_c_def length_first12
      EMPTY_HASH_def)

section \<open>What JA3 determines\<close>

lemma unat_dec_inj: "dec_string (unat (v :: 'a::len word)) = dec_string (unat w) \<longleftrightarrow> v = w"
  by (simp add: word_unat_eq_iff)

lemma dec_join_chars:
  "c \<in> set (str_join ''-'' (map (\<lambda>v. dec_string (unat v)) vs)) \<Longrightarrow> is_digit c \<or> c = CHR ''-''"
  using set_str_join [of "''-''" "map (\<lambda>v. dec_string (unat v)) vs"] dec_string_digits by fastforce

lemma not_digit_sep [simp]: "\<not> is_digit (CHR '','')" "\<not> is_digit (CHR ''-'')" "\<not> is_digit (CHR '';'')"
  "\<not> is_digit (CHR '':'')" "\<not> is_digit (CHR ''|'')"
  by (simp_all add: is_digit_def)

lemma dec_join_inj:
  assumes "str_join ''-'' (map (\<lambda>v. dec_string (unat (v :: 'a::len word))) vs) =
           str_join ''-'' (map (\<lambda>v. dec_string (unat v)) ws)"
  shows "vs = ws"
proof -
  have "map (\<lambda>v. dec_string (unat v)) vs = map (\<lambda>v. dec_string (unat v)) ws"
    by (rule str_join_inj [OF assms]) (auto dest: dec_string_digits)
  then show ?thesis
    by (rule map_injective) (simp add: inj_def word_unat_eq_iff)
qed

lemma ja3_string_inj:
  assumes "ja3_string v cs es gs ps = ja3_string v' cs' es' gs' ps'"
  shows "v = v' \<and> strip cs = strip cs' \<and> strip es = strip es' \<and> strip gs = strip gs' \<and> ps = ps'"
proof -
  have nc: "CHR '','' \<notin> set (str_join ''-'' (map (\<lambda>v. dec_string (unat v)) vs))" for vs :: "u16 list"
    using dec_join_chars [of "CHR '',''" vs] by auto
  have nd: "CHR '','' \<notin> set (dec_string n)" for n
    using dec_string_digits [of "CHR '',''" n] by auto
  note e0 = assms [unfolded ja3_string_def Let_def join_u16_def append_Cons append_Nil]
  from sep_inj [OF e0 nd nd] have v: "v = v'" and
    e1: "str_join ''-'' (map (\<lambda>v. dec_string (unat v)) (strip cs)) @ CHR '','' #
      (str_join ''-'' (map (\<lambda>v. dec_string (unat v)) (strip es)) @ CHR '','' #
      (str_join ''-'' (map (\<lambda>v. dec_string (unat v)) (strip gs)) @ CHR '','' #
       str_join ''-'' (map (\<lambda>v. dec_string (unat v)) ps))) =
      str_join ''-'' (map (\<lambda>v. dec_string (unat v)) (strip cs')) @ CHR '','' #
      (str_join ''-'' (map (\<lambda>v. dec_string (unat v)) (strip es')) @ CHR '','' #
      (str_join ''-'' (map (\<lambda>v. dec_string (unat v)) (strip gs')) @ CHR '','' #
       str_join ''-'' (map (\<lambda>v. dec_string (unat v)) ps')))"
    by (simp_all add: word_unat_eq_iff)
  note s1 = sep_inj [OF e1 nc nc]
  note s2 = sep_inj [OF conjunct2 [OF s1] nc nc]
  note s3 = sep_inj [OF conjunct2 [OF s2] nc nc]
  show ?thesis
    using v dec_join_inj [OF conjunct1 [OF s1]] dec_join_inj [OF conjunct1 [OF s2]]
      dec_join_inj [OF conjunct1 [OF s3]] dec_join_inj [OF conjunct2 [OF s3]] by blast
qed

section \<open>Properties\<close>

lemma fingerprint_Inr:
  "fingerprint sha md raw = Inr f \<Longrightarrow> parse_hello raw = Inr h \<Longrightarrow>
     tf_ja4 f = ja4_from_hello sha h \<and>
     tf_ja4_r f = ja4_a h @ ''_'' @ ja4_b_string (rh_ciphers h) @ ''_'' @
       ja4_c_string (map re_id (rh_extensions h)) (sig_algs (rh_extensions h))"
  by (auto simp: fingerprint_def Let_def)


text \<open>The sample message with its lists reversed and other GREASE values.\<close>

definition sample_shuffled :: wire where
  "sample_shuffled = sample_wire
     \<lparr>w_ciphers := [0x1301, 0x8a8a, 0xfafa], w_exts := Some ([(0x3a3a, [0]), (0x0000, [0, 0])], [])\<rparr>"

lemma sample_shuffled_hello:
  "parse_hello (wire_bytes sample_shuffled) = Inr (wire_hello sample_shuffled)"
proof -
  have "wire_wf sample_shuffled" "length (wire_bytes sample_shuffled) \<le> usize_max"
    by code_simp+
  then show ?thesis by (rule parse_hello_complete)
qed

lemma sample_same_offer: "same_offer (wire_hello sample_wire) (wire_hello sample_shuffled)"
  by code_simp


text \<open>A JA4 fingerprint always has its fixed shape, ten, twelve and twelve characters.\<close>

theorem ja4_length: "length (ja4_from_hello sha h) = 36"
  by (rule length_ja4)

text \<open>
  The JA3 string determines what it is made of: equal strings mean the same version, the
  same cipher suites, extensions and curves in wire order with GREASE removed, and the same
  point formats.
\<close>

theorem ja3_string_determines:
  "ja3_string v cs es gs ps = ja3_string v' cs' es' gs' ps' \<longleftrightarrow>
     v = v' \<and> strip cs = strip cs' \<and> strip es = strip es' \<and> strip gs = strip gs' \<and> ps = ps'"
  using ja3_string_inj by (auto simp: ja3_string_def join_u16_def)

end
