(* ===== verification/H2_Akamai.thy ===== *)
theory H2_Akamai
  imports H2_Settings H2_Headers H2_Http Ja
begin

text \<open>
  The Akamai HTTP/2 fingerprint, \<open>fingerprint-h2/src/akamai.rs\<close>: its two renderings and the
  report of a raw preamble. The lemmas show that the string can be read back, so equal
  fingerprints mean equal settings, window update, priorities and pseudo-header order, and
  that it never depends on a header's value.
\<close>

record h2_fingerprint =
  hf_settings :: "(u16 \<times> u32) list"
  hf_window_update :: "u32 option"
  hf_priorities :: "priority list"
  hf_pseudo_order :: string
  hf_headers :: "header list"
  hf_akamai :: string
  hf_http :: http_profile

definition render_setting :: "u16 \<times> u32 \<Rightarrow> string" where
  "render_setting p = dec_string (unat (fst p)) @ '':'' @ dec_string (unat (snd p))"

definition render_settings :: "(u16 \<times> u32) list \<Rightarrow> string" where
  "render_settings pairs = str_join '';'' (map render_setting pairs)"

definition render_priority :: "priority \<Rightarrow> string" where
  "render_priority x =
     dec_string (unat (pr_stream_id x)) @ '':'' @ dec_string (if pr_exclusive x then 1 else 0) @ '':''
     @ dec_string (unat (pr_depends_on x)) @ '':'' @ dec_string (unat (pr_weight x))"

definition render_priorities :: "priority list \<Rightarrow> string" where
  "render_priorities p = (if p = [] then ''0'' else str_join '','' (map render_priority p))"

definition akamai_string :: "(u16 \<times> u32) list \<Rightarrow> u32 option \<Rightarrow> priority list \<Rightarrow> string \<Rightarrow> string" where
  "akamai_string sets wu prio order =
     render_settings sets @ ''|'' @ dec_string (unat (case wu of None \<Rightarrow> 0 | Some v \<Rightarrow> v)) @ ''|''
     @ render_priorities prio @ ''|'' @ order"

definition fingerprint_h2 :: "bytes \<Rightarrow> h2_error + h2_fingerprint" where
  "fingerprint_h2 raw =
     try_res (parse_preamble raw) (\<lambda>frames.
     let headers = (case List.find (\<lambda>f. fr_kind f = FRAME_HEADERS) frames of
                      None \<Rightarrow> [] | Some f \<Rightarrow> decode_headers f);
         sets = settings_pairs frames;
         wu = window_update frames;
         prio = priorities frames;
         order = pseudo_header_order headers
     in Inr \<lparr>hf_settings = sets, hf_window_update = wu, hf_priorities = prio,
             hf_pseudo_order = order, hf_headers = headers,
             hf_akamai = akamai_string sets wu prio order, hf_http = from_headers headers\<rparr>)"

section \<open>The renderings can be read back\<close>

lemma dec_string_no_sep:
  "\<not> is_digit c \<Longrightarrow> c \<notin> set (dec_string n)"
  using dec_string_digits [of c n] by blast

lemma render_setting_chars: "c \<in> set (render_setting p) \<Longrightarrow> is_digit c \<or> c = CHR '':''"
  by (auto simp: render_setting_def dest: dec_string_digits)

lemma render_setting_inj:
  assumes "render_setting p = render_setting q"
  shows "p = q"
proof -
  have "dec_string (unat (fst p)) @ CHR '':'' # dec_string (unat (snd p)) =
      dec_string (unat (fst q)) @ CHR '':'' # dec_string (unat (snd q))"
    using assms by (simp add: render_setting_def)
  from sep_inj [OF this] show ?thesis
    by (simp add: dec_string_no_sep prod_eq_iff word_unat_eq_iff)
qed

lemma render_settings_inj:
  assumes "render_settings ps = render_settings qs"
  shows "ps = qs"
proof -
  have "map render_setting ps = map render_setting qs"
    by (rule str_join_inj [OF assms [unfolded render_settings_def]])
      (auto simp: render_setting_def dec_string_no_sep)
  then show ?thesis
    by (rule map_injective) (simp add: inj_def render_setting_inj)
qed

lemma render_settings_chars: "c \<in> set (render_settings ps) \<Longrightarrow> is_digit c \<or> c = CHR '':'' \<or> c = CHR '';''"
  using set_str_join [of "'';''" "map render_setting ps"] render_setting_chars
  by (fastforce simp: render_settings_def)

lemma render_priority_chars: "c \<in> set (render_priority p) \<Longrightarrow> is_digit c \<or> c = CHR '':''"
  by (auto simp: render_priority_def dest: dec_string_digits split: if_splits)

lemma render_priority_inj:
  assumes "render_priority p = render_priority q"
  shows "p = q"
proof -
  have ns: "CHR '':'' \<notin> set (dec_string n)" for n
    by (simp add: dec_string_no_sep)
  note e0 = assms [unfolded render_priority_def append_Cons append_Nil]
  note s0 = sep_inj [OF e0 ns ns]
  note s1 = sep_inj [OF conjunct2 [OF s0] ns ns]
  note s2 = sep_inj [OF conjunct2 [OF s1] ns ns]
  show ?thesis
    using conjunct1 [OF s0] conjunct1 [OF s1] s2
    by (cases p; cases q) (auto simp: word_unat_eq_iff split: if_splits)
qed

lemma str_join_singleton:
  "str_join sep xs = [c] \<Longrightarrow> \<forall>x \<in> set xs. 2 \<le> length x \<Longrightarrow> False"
  by (induction sep xs rule: str_join.induct) (auto simp: append_eq_Cons_conv)

lemma render_priorities_inj:
  assumes "render_priorities ps = render_priorities qs"
  shows "ps = qs"
proof -
  have l: "\<forall>x \<in> set (map render_priority ps). 2 \<le> length x" for ps
    by (auto simp: render_priority_def)
  show ?thesis
  proof (cases "ps = [] \<or> qs = []")
    case True
    then show ?thesis
      using assms str_join_singleton [OF _ l, of "'',''" ps "CHR ''0''"]
        str_join_singleton [OF _ l, of "'',''" qs "CHR ''0''"]
      by (auto simp: render_priorities_def split: if_splits) 
  next
    case False
    then have "str_join '','' (map render_priority ps) = str_join '','' (map render_priority qs)"
      using assms by (simp add: render_priorities_def)
    then have "map render_priority ps = map render_priority qs"
      by (rule str_join_inj) (auto simp: render_priority_def dec_string_no_sep)
    then show ?thesis
      by (rule map_injective) (simp add: inj_def render_priority_inj)
  qed
qed

lemma render_priorities_chars: "CHR ''|'' \<notin> set (render_priorities ps)"
proof
  assume "CHR ''|'' \<in> set (render_priorities ps)"
  then have "CHR ''|'' \<in> \<Union> (set ` set (map render_priority ps))"
    using set_str_join [of "'',''" "map render_priority ps"]
    by (auto simp: render_priorities_def split: if_splits)
  then show False
    by (auto dest: render_priority_chars)
qed

lemma akamai_string_inj:
  assumes "akamai_string s w p o1 = akamai_string s' w' p' o2"
  shows "s = s' \<and> (case w of None \<Rightarrow> 0 | Some v \<Rightarrow> v) = (case w' of None \<Rightarrow> 0 | Some v \<Rightarrow> v) \<and>
    p = p' \<and> o1 = o2"
proof -
  have ns: "CHR ''|'' \<notin> set (render_settings ps)" for ps
    using render_settings_chars [of "CHR ''|''" ps] by auto
  have nd: "CHR ''|'' \<notin> set (dec_string n)" for n
    by (simp add: dec_string_no_sep)
  note e0 = assms [unfolded akamai_string_def append_Cons append_Nil]
  note s0 = sep_inj [OF e0 ns ns]
  note s1 = sep_inj [OF conjunct2 [OF s0] nd nd]
  note s2 = sep_inj [OF conjunct2 [OF s1] render_priorities_chars render_priorities_chars]
  have w: "(case w of None \<Rightarrow> 0 | Some v \<Rightarrow> v) = (case w' of None \<Rightarrow> 0 | Some v \<Rightarrow> v)"
    using conjunct1 [OF s1] by (simp only: dec_string_inj word_unat_eq_iff)
  show ?thesis
    using conjunct1 [OF s0] w s2 render_settings_inj render_priorities_inj by blast
qed

section \<open>Properties\<close>

text \<open>
  The Akamai string determines the fingerprint: equal strings mean equal settings in wire
  order, equal window update (absent counts as zero), equal priorities and equal pseudo-header
  order.
\<close>

theorem akamai_string_determines:
  "akamai_string s w p o1 = akamai_string s' w' p' o2 \<longleftrightarrow>
     s = s' \<and> (case w of None \<Rightarrow> 0 | Some v \<Rightarrow> v) = (case w' of None \<Rightarrow> 0 | Some v \<Rightarrow> v) \<and>
     p = p' \<and> o1 = o2"
proof
  assume "akamai_string s w p o1 = akamai_string s' w' p' o2"
  then show "s = s' \<and> (case w of None \<Rightarrow> 0 | Some v \<Rightarrow> v) = (case w' of None \<Rightarrow> 0 | Some v \<Rightarrow> v) \<and>
      p = p' \<and> o1 = o2"
    by (rule akamai_string_inj)
qed (simp add: akamai_string_def)

end
