(* ===== verification/Profile.thy ===== *)
theory Profile
  imports H2_Akamai
begin

text \<open>
  What one client looked like, \<open>ClientReport\<close> of \<open>fingerprint-probe/src/probe.rs\<close>, and the
  profiles a report is compared with, \<open>profile.rs\<close>: the stored field lists, how a profile is
  taken from a report, and the database. JSON is read by a third-party crate: the reader of a
  profile's text is the parameter \<open>parse\<close>.
\<close>

section \<open>Reports\<close>

record client_report =
  cr_tls :: tls_fingerprint
  cr_raw_hello :: bytes
  cr_h2 :: "h2_fingerprint option"
  cr_alpn :: "string option"
  cr_handshake_failed :: bool

definition MAX_RETAINED_HELLO :: nat where "MAX_RETAINED_HELLO = 8192"

definition retain :: "bytes \<Rightarrow> bytes" where
  "retain raw =
     (case get_range raw 0 (min (length raw) MAX_RETAINED_HELLO) of None \<Rightarrow> raw | Some b \<Rightarrow> b)"

lemma retain_take: "retain raw = take 8192 raw"
  by (simp add: retain_def get_range_def MAX_RETAINED_HELLO_def min_def)

section \<open>Profiles\<close>

datatype ordering = Fixed | Permuted | Unknown_Order

record equivalence =
  eq_cipher_order :: ordering
  eq_extension_order :: ordering

record tls_profile =
  tp_ja4 :: string
  tp_ciphers :: "u16 list"
  tp_extensions :: "u16 list"
  tp_grease_cipher_positions :: "nat list"
  tp_grease_ext_positions :: "nat list"
  tp_sig_algs :: "u16 list"
  tp_alpn :: "string option"
  tp_has_sni :: bool

record h2_profile =
  h2p_akamai :: string
  h2p_settings :: "(u16 \<times> u32) list"
  h2p_window_update :: "u32 option"
  h2p_pseudo_order :: string

record http_stored =
  hs_header_names :: "string list"
  hs_header_count :: nat
  hs_has_accept_language :: bool

record profile =
  pf_label :: string
  pf_family :: string
  pf_captured :: string
  pf_source :: string
  pf_session :: "string option"
  pf_equivalence :: equivalence
  pf_tls :: tls_profile
  pf_h2 :: "h2_profile option"
  pf_http :: "http_stored option"

definition EXT_PRE_SHARED_KEY :: u16 where "EXT_PRE_SHARED_KEY = 41"

definition from_report :: "client_report \<Rightarrow> string \<Rightarrow> string \<Rightarrow> profile" where
  "from_report report label captured =
     (let tls = cr_tls report in
      \<lparr>pf_label = label, pf_family = [], pf_captured = captured, pf_source = ''manual'',
       pf_session =
         (if EXT_PRE_SHARED_KEY \<in> set (tf_extensions tls) then Some ''resumed'' else None),
       pf_equivalence =
         \<lparr>eq_cipher_order = Unknown_Order, eq_extension_order = Unknown_Order\<rparr>,
       pf_tls =
         \<lparr>tp_ja4 = tf_ja4 tls, tp_ciphers = strip (tf_ciphers tls),
          tp_extensions = strip (tf_extensions tls),
          tp_grease_cipher_positions = tf_grease_cipher_positions tls,
          tp_grease_ext_positions = tf_grease_ext_positions tls,
          tp_sig_algs = [], tp_alpn = tf_alpn tls, tp_has_sni = tf_has_sni tls\<rparr>,
       pf_h2 =
         map_option (\<lambda>h. \<lparr>h2p_akamai = hf_akamai h, h2p_settings = hf_settings h,
                         h2p_window_update = hf_window_update h,
                         h2p_pseudo_order = hf_pseudo_order h\<rparr>) (cr_h2 report),
       pf_http =
         map_option (\<lambda>h. \<lparr>hs_header_names = comparable_headers (hf_http h),
                         hs_header_count = hp_header_count (hf_http h),
                         hs_has_accept_language = hp_has_accept_language (hf_http h)\<rparr>)
           (cr_h2 report)\<rparr>)"

section \<open>The database\<close>

datatype 'e profile_error = Profile_Json 'e | Profile_Unknown string string

type_synonym profile_db = "profile list"

text \<open>\<open>shipped\<close> reads the two texts compiled in; \<open>from_dir\<close> the files it finds.\<close>

definition db_from_texts ::
    "(string \<Rightarrow> 'e + profile) \<Rightarrow> string list \<Rightarrow> 'e profile_error + profile_db" where
  "db_from_texts parse texts =
     try_fold (\<lambda>profiles txt.
       try_res (map_err Profile_Json (parse txt)) (\<lambda>p. Inr (profiles @ [p]))) [] texts"

definition db_labels :: "profile_db \<Rightarrow> string list" where
  "db_labels db = map pf_label db"

definition db_get :: "profile_db \<Rightarrow> string \<Rightarrow> 'e profile_error + profile" where
  "db_get db label =
     ok_or (Profile_Unknown label (str_join '', '' (db_labels db)))
       (List.find (\<lambda>p. pf_label p = label) db)"

lemma db_get_Inr: "db_get db label = Inr p \<Longrightarrow> p \<in> set db \<and> pf_label p = label"
  by (auto simp: db_get_def res_simps find_Some_iff)

lemma db_get_Inl:
  "db_get db label = Inl e \<longleftrightarrow>
     label \<notin> set (db_labels db) \<and> e = Profile_Unknown label (str_join '', '' (db_labels db))"
  by (auto simp: db_get_def ok_or_Inl find_None_iff db_labels_def)

lemma db_get_distinct:
  assumes "distinct (db_labels db)" and "p \<in> set db"
  shows "db_get db (pf_label p) = (Inr p :: 'e profile_error + profile)"
proof -
  have "List.find (\<lambda>q. pf_label q = pf_label p) db = Some p"
    using assms
  proof (induction db)
    case (Cons q db)
    then show ?case by (cases "q = p") (auto simp: db_labels_def image_iff)
  qed simp
  then show ?thesis by (simp add: db_get_def)
qed

text \<open>Every text parses or the first failure is returned.\<close>

lemma db_from_texts_Inr:
  "db_from_texts parse texts = Inr db \<longleftrightarrow> list_all2 (\<lambda>t p. parse t = Inr p) texts db"
proof -
  have "try_fold (\<lambda>profiles txt.
      try_res (map_err Profile_Json (parse txt)) (\<lambda>p. Inr (profiles @ [p]))) acc texts = Inr db \<longleftrightarrow>
      (\<exists>ps. db = acc @ ps \<and> list_all2 (\<lambda>t p. parse t = Inr p) texts ps)" for acc
    by (induction texts arbitrary: acc)
      (auto simp: res_simps list_all2_Cons1)
  from this [of "[]"] show ?thesis by (simp add: db_from_texts_def)
qed

end
