(* ===== verification/Rust_Float.thy ===== *)
theory Rust_Float
  imports Complex_Main Rust_Text
begin

text \<open>
  The \<open>f32\<close> arithmetic the program uses: quotients and products of small numbers, rounded to
  24 significant bits, ties to even, and the fixed-point formats \<open>{:.0}\<close> and \<open>{:.2}\<close>. A value
  is the rational it denotes. The scores of the program lie between 0 and 100, so the range
  limits of the format are never met. The lemmas show that rounding is monotone, so scores
  compare as the exact fractions do, and that the fractions 0 and 1 are exact.
\<close>

text \<open>\<open>a / b\<close> rounded to the nearest integer, ties to even.\<close>

definition round_half_even :: "nat \<Rightarrow> nat \<Rightarrow> nat" where
  "round_half_even a b =
     (let q = a div b; r = a mod b in
      if 2 * r < b then q else if b < 2 * r then q + 1 else if even q then q else q + 1)"

text \<open>The scaling exponent: the least \<open>k\<close> that gives \<open>a / b\<close> 24 bits before the point.\<close>

function f32_scale :: "nat \<Rightarrow> nat \<Rightarrow> nat \<Rightarrow> nat" where
  "f32_scale a b k =
     (if a = 0 \<or> b * 2 ^ 23 \<le> a * 2 ^ k then k else f32_scale a b (k + 1))"
  by pat_completeness auto
termination
proof (relation "measure (\<lambda>(a, b, k). b * 2 ^ 23 - a * 2 ^ k)")
  fix a b k :: nat
  assume "\<not> (a = 0 \<or> b * 2 ^ 23 \<le> a * 2 ^ k)"
  then have "0 < a" "a * 2 ^ k < b * 2 ^ 23" by simp_all
  then have "0 < a * 2 ^ k" by simp
  then have "a * 2 ^ k < a * 2 ^ (k + 1)" by simp
  with \<open>a * 2 ^ k < b * 2 ^ 23\<close> have "b * 2 ^ 23 - a * 2 ^ (k + 1) < b * 2 ^ 23 - a * 2 ^ k"
    by (rule diff_less_mono2 [rotated])
  then show "((a, b, k + 1), (a, b, k)) \<in> measure (\<lambda>(a, b, k). b * 2 ^ 23 - a * 2 ^ k)"
    by (simp only: in_measure prod.case)
qed simp

declare f32_scale.simps [simp del]

definition f32_ratio :: "nat \<Rightarrow> nat \<Rightarrow> rat" where
  "f32_ratio a b =
     (let k = f32_scale a b 0 in of_nat (round_half_even (a * 2 ^ k) b) / 2 ^ k)"

definition f32_round :: "rat \<Rightarrow> rat" where
  "f32_round x = (let (p, q) = quotient_of x in f32_ratio (nat p) (nat q))"

text \<open>\<open>{:.0}\<close> and \<open>{:.2}\<close> on a value that is not negative.\<close>

definition fmt_fixed0 :: "rat \<Rightarrow> string" where
  "fmt_fixed0 x = (let (p, q) = quotient_of x in dec_string (round_half_even (nat p) (nat q)))"

definition fmt_fixed2 :: "rat \<Rightarrow> string" where
  "fmt_fixed2 x =
     (let (p, q) = quotient_of x;
          c = round_half_even (nat p * 100) (nat q)
      in dec_string (c div 100) @ ''.'' @ pad_zero 2 (dec_string (c mod 100)))"

lemma f32_ratio_0 [simp]: "f32_ratio 0 b = 0"
  by (simp add: f32_ratio_def f32_scale.simps [of 0 b 0] round_half_even_def)

section \<open>Comparing rounded quotients\<close>

lemma round_half_even_bound:
  assumes "0 < b"
  shows "\<bar>2 * (int (round_half_even a b) * int b) - 2 * int a\<bar> \<le> int b"
proof -
  define q r where "q = a div b" and "r = a mod b"
  have a: "a = q * b + r" and r: "r < b"
    using assms by (simp_all add: q_def r_def)
  have "round_half_even a b = q \<and> 2 * r \<le> b \<or> round_half_even a b = q + 1 \<and> b \<le> 2 * r"
    by (auto simp: round_half_even_def Let_def q_def [symmetric] r_def [symmetric])
  then show ?thesis
    using r by (auto simp: a algebra_simps)
qed

lemma round_half_even_scale: "0 < c \<Longrightarrow> round_half_even (c * a) (c * b) = round_half_even a b"
  by (simp add: round_half_even_def Let_def mult.left_commute [of 2 c])

lemma f32_scale_spec: "0 < a \<Longrightarrow> b * 2 ^ 23 \<le> a * 2 ^ f32_scale a b k"
  by (induction a b k rule: f32_scale.induct) (metis f32_scale.simps less_not_refl)

lemma f32_scale_scale: "0 < c \<Longrightarrow> f32_scale (c * a) (c * b) k = f32_scale a b k"
proof (induction a b k rule: f32_scale.induct)
  case (1 a b k)
  have "c * b * 2 ^ 23 \<le> c * a * 2 ^ k \<longleftrightarrow> b * 2 ^ 23 \<le> a * 2 ^ k"
    using \<open>0 < c\<close> by (simp add: mult.assoc)
  with 1 show ?case
    by (simp add: f32_scale.simps [of "c * a" "c * b" k] f32_scale.simps [of a b k])
qed

lemma f32_ratio_scale: "0 < c \<Longrightarrow> f32_ratio (c * a) (c * b) = f32_ratio a b"
  by (simp add: f32_ratio_def Let_def f32_scale_scale round_half_even_scale mult.assoc)

lemma f32_error:
  assumes "0 < a" and "0 < b"
  shows "\<bar>f32_ratio a b - of_nat a / of_nat b\<bar> \<le> of_nat a / of_nat b / 2 ^ 24"
proof -
  define k where "k = f32_scale a b 0"
  define m where "m = round_half_even (a * 2 ^ k) b"
  have pos: "(0 :: rat) < of_nat b" "(0 :: rat) < 2 ^ k"
    using assms by simp_all
  have "of_int \<bar>2 * (int m * int b) - 2 * int (a * 2 ^ k)\<bar> \<le> (of_int (int b) :: rat)"
    using round_half_even_bound [OF assms(2), of "a * 2 ^ k"] by (simp only: of_int_le_iff m_def)
  then have e: "\<bar>2 * (of_nat m * of_nat b) - 2 * (of_nat a * 2 ^ k)\<bar> \<le> (of_nat b :: rat)"
    by simp
  have "of_nat b * 2 ^ 23 \<le> (of_nat a * 2 ^ k :: rat)"
    using f32_scale_spec [OF assms(1), of b 0] unfolding k_def
    by (metis (mono_tags, lifting) of_nat_le_iff of_nat_mult of_nat_numeral of_nat_power)
  then have s: "of_nat b \<le> (of_nat a * 2 ^ k / 2 ^ 23 :: rat)"
    by (simp add: field_simps)
  have "\<bar>of_nat m * of_nat b - of_nat a * 2 ^ k\<bar> \<le> (of_nat b / 2 :: rat)"
    using e unfolding abs_le_iff by linarith
  also have "\<dots> \<le> of_nat a * 2 ^ k / 2 ^ 24"
    using s by simp
  finally have "\<bar>of_nat m * of_nat b - of_nat a * 2 ^ k\<bar> / (2 ^ k * of_nat b) \<le>
      of_nat a * 2 ^ k / 2 ^ 24 / (2 ^ k * of_nat b :: rat)"
    using pos by (intro divide_right_mono) simp_all
  moreover have "\<bar>of_nat m / 2 ^ k - of_nat a / of_nat b\<bar> =
      \<bar>of_nat m * of_nat b - of_nat a * 2 ^ k\<bar> / (2 ^ k * of_nat b :: rat)"
    using pos by (simp add: diff_divide_eq_iff divide_diff_eq_iff abs_divide abs_mult)
  ultimately show ?thesis
    using pos by (simp add: f32_ratio_def Let_def k_def [symmetric] m_def [symmetric])
qed

text \<open>Fractions of at most a thousand parts keep their order when rounded.\<close>

lemma f32_ratio_less:
  assumes "a * d < c * b" and "a \<le> b" and "c \<le> d" and "0 < b" and "0 < d" and "b \<le> 1000" and "d \<le> 1000"
  shows "f32_ratio a b < f32_ratio c d"
proof -
  define x y :: rat where "x = of_nat a / of_nat b" and "y = of_nat c / of_nat d"
  have pos: "(0 :: rat) < of_nat b" "(0 :: rat) < of_nat d"
    using assms by simp_all
  have x: "0 \<le> x" "x \<le> 1" and y: "0 \<le> y" "y \<le> 1"
    using assms pos by (simp_all add: x_def y_def)
  have c: "0 < c" using assms(1) by (cases c) simp_all
  have "(of_nat (a * d + 1) :: rat) \<le> of_nat (c * b)"
    using assms(1) by (simp only: of_nat_le_iff)
  then have "(1 :: rat) \<le> of_nat c * of_nat b - of_nat a * of_nat d"
    by simp
  then have "1 / (of_nat b * of_nat d) \<le> (of_nat c * of_nat b - of_nat a * of_nat d) / (of_nat b * of_nat d :: rat)"
    using pos by (intro divide_right_mono) simp_all
  also have "\<dots> = y - x"
    using pos by (simp add: x_def y_def field_simps)
  finally have d: "1 / (of_nat b * of_nat d) \<le> y - x" .
  have "b * d \<le> 1000 * 1000"
    using assms(6,7) by (intro mult_le_mono)
  then have "(of_nat (b * d) :: rat) \<le> of_nat (1000 * 1000)"
    by (simp only: of_nat_le_iff)
  then have "(1 :: rat) / (1000 * 1000) \<le> 1 / (of_nat b * of_nat d)"
    using pos by (intro divide_left_mono) simp_all
  with d have gap: "1 / 1000000 \<le> y - x" by simp
  have fy: "y - y / 2 ^ 24 \<le> f32_ratio c d"
    using f32_error [OF c assms(5)] unfolding y_def [symmetric] abs_le_iff by linarith
  have fx: "f32_ratio a b \<le> x + x / 2 ^ 24"
  proof (cases "a = 0")
    case True
    then show ?thesis using x by simp
  next
    case False
    then show ?thesis
      using f32_error [of a b] assms(4) unfolding x_def [symmetric] abs_le_iff by linarith
  qed
  have "x / 2 ^ 24 + y / 2 ^ 24 < 1 / 1000000"
    using x y by simp
  with gap have "x + x / 2 ^ 24 < y - y / 2 ^ 24" by linarith
  with fx fy show ?thesis by linarith
qed

lemma f32_ratio_eq:
  assumes "a * d = c * b" and "0 < b" and "0 < d"
  shows "f32_ratio a b = f32_ratio c d"
proof -
  have "f32_ratio a b = f32_ratio (d * a) (d * b)"
    using assms(3) by (simp add: f32_ratio_scale)
  also have "\<dots> = f32_ratio (b * c) (b * d)"
    using assms(1) by (simp add: mult.commute)
  also have "\<dots> = f32_ratio c d"
    using assms(2) by (simp add: f32_ratio_scale)
  finally show ?thesis .
qed

lemma f32_ratio_le_iff:
  assumes "a \<le> b" and "c \<le> d" and "0 < b" and "0 < d" and "b \<le> 1000" and "d \<le> 1000"
  shows "f32_ratio a b \<le> f32_ratio c d \<longleftrightarrow> a * d \<le> c * b"
  using f32_ratio_less [of a d c b] f32_ratio_less [of c b a d] f32_ratio_eq [of a d c b] assms
  by (cases "a * d" "c * b" rule: linorder_cases) (simp_all add: less_imp_le not_le)

lemma f32_ratio_same: "0 < b \<Longrightarrow> f32_ratio b b = 1"
proof -
  assume "0 < b"
  then have "f32_ratio (b * 1) (b * 1) = f32_ratio 1 1"
    by (rule f32_ratio_scale)
  also have "\<dots> = 1" by code_simp
  finally show ?thesis by simp
qed

section \<open>Rounding a value that is already an \<open>f32\<close>\<close>

lemma f32_scale_least: "k \<le> j \<Longrightarrow> j < f32_scale a b k \<Longrightarrow> a * 2 ^ j < b * 2 ^ 23"
proof (induction a b k rule: f32_scale.induct)
  case (1 a b k)
  show ?case
  proof (cases "a = 0 \<or> b * 2 ^ 23 \<le> a * 2 ^ k")
    case True
    with 1 show ?thesis by (simp add: f32_scale.simps [of a b k])
  next
    case False
    with 1 show ?thesis
      by (cases "j = k") (simp_all add: f32_scale.simps [of a b k])
  qed
qed

lemma f32_scale_unique:
  assumes "b * 2 ^ 23 \<le> a * 2 ^ j" and "j = 0 \<or> a * 2 ^ (j - 1) < b * 2 ^ 23" and "0 < a"
  shows "f32_scale a b 0 = j"
proof (rule antisym)
  show "f32_scale a b 0 \<le> j"
    using f32_scale_least [of 0 j a b] assms(1) by (meson leI leD zero_le)
  show "j \<le> f32_scale a b 0"
  proof (rule ccontr)
    assume "\<not> j \<le> f32_scale a b 0"
    then have "f32_scale a b 0 \<le> j - 1" "j \<noteq> 0" by simp_all
    then have "a * 2 ^ f32_scale a b 0 \<le> a * 2 ^ (j - 1)"
      by (simp add: power_increasing)
    with f32_scale_spec [OF assms(3), of b 0] assms(2) \<open>j \<noteq> 0\<close> show False by linarith
  qed
qed

lemma round_half_even_exact: "0 < b \<Longrightarrow> round_half_even (q * b) b = q"
  by (simp add: round_half_even_def)

lemma round_half_even_mono_bounds:
  assumes "0 < b" and "l * b \<le> a" and "a \<le> u * b"
  shows "l \<le> round_half_even a b" and "round_half_even a b \<le> u"
proof -
  let ?m = "round_half_even a b"
  have e: "2 * (?m * b) \<le> 2 * a + b" "2 * a \<le> 2 * (?m * b) + b"
    using round_half_even_bound [OF assms(1), of a] unfolding abs_le_iff
    by (simp_all only: of_nat_mult [symmetric]) linarith+
  have "?m * b < (u + 1) * b"
    using e(1) assms by (simp add: distrib_right)
  then show "?m \<le> u" by (simp only: mult_less_cancel2) simp
  have "l * b < (?m + 1) * b"
    using e(2) assms by (simp add: distrib_right)
  then show "l \<le> ?m" by (simp only: mult_less_cancel2) simp
qed

text \<open>A significand of 24 bits over a power of two, twice the power allowed.\<close>

lemma f32_ratio_dyadic:
  assumes "2 ^ 23 \<le> m" and "m \<le> 2 ^ 24" and "0 < k"
  shows "f32_ratio m (2 ^ k) = of_nat m / 2 ^ k"
proof (cases "m = 2 ^ 24")
  case True
  have "f32_scale m (2 ^ k) 0 = k - 1"
  proof (rule f32_scale_unique)
    show "2 ^ k * 2 ^ 23 \<le> m * 2 ^ (k - 1)"
      using assms(3) by (cases k) (simp_all add: True)
    have "2 ^ 24 * 2 ^ (k - 1 - 1) < (2 ^ k * 2 ^ 23 :: nat)" if "k \<noteq> 1"
      using assms(3) that by (cases k; cases "k - 1") simp_all
    then show "k - 1 = 0 \<or> m * 2 ^ (k - 1 - 1) < 2 ^ k * 2 ^ 23"
      using assms(3) True by (cases "k = 1") simp_all
  qed (use assms in simp)
  moreover have "m * 2 ^ (k - 1) = 2 ^ 23 * 2 ^ k"
    using assms(3) by (cases k) (simp_all add: True)
  ultimately have "f32_ratio m (2 ^ k) = of_nat (2 ^ 23) / 2 ^ (k - 1)"
    by (simp only: f32_ratio_def Let_def round_half_even_exact zero_less_power zero_less_numeral)
  then show ?thesis
    using assms(3) by (cases k) (simp_all add: True)
next
  case False
  have "f32_scale m (2 ^ k) 0 = k"
  proof (rule f32_scale_unique)
    show "2 ^ k * 2 ^ 23 \<le> m * 2 ^ k" using assms(1) by simp
    have "m * 2 ^ (k - 1) < 2 ^ 24 * 2 ^ (k - 1)" using False assms(2) by simp
    then show "k = 0 \<or> m * 2 ^ (k - 1) < 2 ^ k * 2 ^ 23"
      using assms(3) by (cases k) simp_all
  qed (use assms in simp)
  then show ?thesis
    by (simp add: f32_ratio_def round_half_even_exact)
qed

lemma f32_round_ratio:
  assumes "a \<le> b" and "0 < b"
  shows "f32_round (f32_ratio a b) = f32_ratio a b"
proof (cases "a = 0")
  case True
  then show ?thesis by (simp add: f32_round_def)
next
  case False
  define k where "k = f32_scale a b 0"
  define m where "m = round_half_even (a * 2 ^ k) b"
  have s: "b * 2 ^ 23 \<le> a * 2 ^ k"
    using f32_scale_spec [of a b 0] False by (simp add: k_def)
  have "b * 2 ^ 23 \<le> b * 2 ^ k"
    by (rule order_trans [OF s]) (use assms in simp)
  then have "(2 :: nat) ^ 23 \<le> 2 ^ k"
    using assms(2) by (simp only: nat_mult_le_cancel1)
  then have "23 \<le> k" by (rule power_le_imp_le_exp [rotated]) simp
  then have k: "0 < k" by simp
  have "a * 2 ^ (k - 1) < b * 2 ^ 23"
    using f32_scale_least [of 0 "k - 1" a b] k by (simp add: k_def)
  then have "a * 2 ^ k < b * 2 ^ 24"
    using k by (cases k) simp_all
  with s have m: "2 ^ 23 \<le> m" "m \<le> 2 ^ 24"
    using round_half_even_mono_bounds [OF assms(2), of "2 ^ 23" "a * 2 ^ k" "2 ^ 24"]
    by (simp_all add: m_def mult.commute)
  have r: "f32_ratio a b = of_nat m / 2 ^ k"
    by (simp add: f32_ratio_def Let_def k_def m_def)
  obtain p q where pq: "quotient_of (f32_ratio a b) = (p, q)" by fastforce
  have q: "0 < q" using quotient_of_denom_pos [OF pq] .
  have v: "f32_ratio a b = of_int p / of_int q" using quotient_of_div [OF pq] .
  have "0 < f32_ratio a b" using m(1) by (simp add: r)
  then have p: "0 < p" using q by (simp add: v zero_less_divide_iff)
  have "of_int (int m * q) = (of_int (p * 2 ^ k) :: rat)"
    using v q unfolding r by (simp add: field_simps)
  then have "int m * q = p * 2 ^ k" by (simp only: of_int_eq_iff)
  then have "nat (int m * q) = nat (p * 2 ^ k)" by simp
  then have "m * nat q = nat p * 2 ^ k"
    using p q by (simp add: nat_mult_distrib nat_power_eq)
  then have "f32_ratio m (2 ^ k) = f32_ratio (nat p) (nat q)"
    using q by (intro f32_ratio_eq) simp_all
  then have "f32_ratio (nat p) (nat q) = f32_ratio a b"
    using f32_ratio_dyadic [OF m k] unfolding r by simp
  then show ?thesis
    unfolding f32_round_def pq by simp
qed

end
