(* ===== verification/Diff.thy ===== *)
theory Diff
  imports Profile Rust_Float
begin

text \<open>
  Comparing an observation with a profile, \<open>fingerprint-probe/src/diff.rs\<close>: one definition per
  section of \<open>diff\<close>, the score, and the rendering of a comparison with its shortened values.
  The lemmas say what a clean comparison means field by field.
\<close>

datatype diff_verdict = Exact | Partial

record field_diff =
  fd_field :: string
  fd_ok :: bool
  fd_observed :: string
  fd_expected :: string
  fd_note :: "string option"

record diff_result =
  df_label :: string
  df_fields :: "field_diff list"

definition is_clean :: "diff_result \<Rightarrow> bool" where
  "is_clean d = list_all fd_ok (df_fields d)"

definition diff_verdict_of :: "diff_result \<Rightarrow> diff_verdict" where
  "diff_verdict_of d = (if is_clean d then Exact else Partial)"

definition ok_count :: "diff_result \<Rightarrow> nat" where
  "ok_count d = length (filter fd_ok (df_fields d))"

definition score :: "diff_result \<Rightarrow> rat" where
  "score d = (if df_fields d = [] then 0 else f32_ratio (ok_count d) (length (df_fields d)))"

section \<open>Shortened values\<close>

definition VALUE_BUDGET :: nat where "VALUE_BUDGET = 30"
definition FIELD_COLUMN :: nat where "FIELD_COLUMN = 20"

definition is_list :: "string \<Rightarrow> bool" where
  "is_list v =
     (let items = split_char (CHR '','') v in
      2 \<le> length items \<and> list_all (\<lambda>i. i \<noteq> [] \<and> CHR '' '' \<notin> set i) items)"

text \<open>The loop that counts the items kept; \<open>break\<close> returns the count so far.\<close>

fun keep_items :: "nat \<Rightarrow> nat \<Rightarrow> string list \<Rightarrow> nat" where
  "keep_items kept width [] = kept"
| "keep_items kept width (i # is) =
     (let separator = (if 0 < kept then 1 else 0);
          nxt = width + chars_count i + separator
      in if VALUE_BUDGET < nxt \<and> 0 < kept then kept else keep_items (kept + 1) nxt is)"

definition elide_list :: "string \<Rightarrow> string" where
  "elide_list v =
     (let items = split_char (CHR '','') v;
          kept = keep_items 0 0 items;
          dropped = length items - kept
      in if dropped = 0 then v
         else str_join '','' (take kept items) @ '' +'' @ dec_string dropped @ '' more'')"

definition elide :: "string \<Rightarrow> string" where
  "elide v =
     (if chars_count v \<le> VALUE_BUDGET then v
      else case split_once '': '' v of
             Some (label, rest) \<Rightarrow>
               if is_list rest then label @ '': '' @ elide_list rest
               else if is_list v then elide_list v else v
           | None \<Rightarrow> if is_list v then elide_list v else v)"

text \<open>The mark is a check mark or a cross, three bytes of UTF-8 each.\<close>

definition mark :: "bool \<Rightarrow> string" where
  "mark ok = bytes_str (if ok then [0xE2, 0x9C, 0x93] else [0xE2, 0x9C, 0x97])"

definition newline :: string where
  "newline = [char_of (10 :: nat)]"

definition show_field :: "string \<Rightarrow> field_diff \<Rightarrow> string" where
  "show_field label d =
     ''  '' @ mark (fd_ok d) @ '' '' @ pad_right 16 (fd_field d) @
     (if fd_ok d then elide (fd_observed d) @ newline
      else
        elide (fd_observed d) @
        (if fd_expected d \<noteq> [] then ''  ('' @ label @ '': '' @ elide (fd_expected d) @ '')''
         else []) @ newline @
        (case fd_note d of None \<Rightarrow> []
         | Some n \<Rightarrow> replicate FIELD_COLUMN (CHR '' '') @ elide n @ newline))"

definition show_diff :: "diff_result \<Rightarrow> string" where
  "show_diff d =
     concat (map (show_field (df_label d)) (df_fields d)) @
     (if is_clean d then ''  verdict: matches '' @ df_label d @ newline
      else ''  verdict: NOT '' @ df_label d @ '' ('' @ fmt_fixed0 (f32_round (score d * 100))
           @ ''% match)'' @ newline)"

section \<open>The comparison\<close>

definition list_u16 :: "u16 list \<Rightarrow> string" where
  "list_u16 v = str_join '','' (map (\<lambda>x. dec_string (unat x)) v)"

definition compare_ordered :: "u16 list \<Rightarrow> u16 list \<Rightarrow> ordering \<Rightarrow> bool" where
  "compare_ordered observed expected order =
     (case order of Fixed \<Rightarrow> observed = expected
      | Permuted \<Rightarrow> sort observed = sort expected
      | Unknown_Order \<Rightarrow> sort observed = sort expected)"

definition mk_field :: "string \<Rightarrow> bool \<Rightarrow> string \<Rightarrow> string \<Rightarrow> field_diff" where
  "mk_field name ok observed expected =
     \<lparr>fd_field = name, fd_ok = ok, fd_observed = observed, fd_expected = expected, fd_note = None\<rparr>"

text \<open>\<open>{:?}\<close> of an order.\<close>

definition debug_order :: "ordering \<Rightarrow> string" where
  "debug_order order =
     (case order of Fixed \<Rightarrow> ''Fixed'' | Permuted \<Rightarrow> ''Permuted'' | Unknown_Order \<Rightarrow> ''Unknown'')"

text \<open>The ciphers and the extensions section differ in their inputs only.\<close>

definition list_field :: "string \<Rightarrow> u16 list \<Rightarrow> u16 list \<Rightarrow> ordering \<Rightarrow> field_diff" where
  "list_field name obs want order =
     (let ok = compare_ordered obs want order;
          d = mk_field name ok (dec_string (length obs) @ '' '' @ name)
                (dec_string (length want) @ '' '' @ name)
      in if \<not> ok then
           d\<lparr>fd_note := Some (''order rule: '' @ debug_order order), fd_observed := list_u16 obs,
             fd_expected := list_u16 want\<rparr>
         else d)"

definition diff_ciphers :: "client_report \<Rightarrow> profile \<Rightarrow> field_diff" where
  "diff_ciphers r p =
     list_field ''ciphers'' (strip (tf_ciphers (cr_tls r))) (tp_ciphers (pf_tls p))
       (eq_cipher_order (pf_equivalence p))"

definition strip_psk :: "u16 list \<Rightarrow> u16 list" where
  "strip_psk v = filter (\<lambda>e. e \<noteq> EXT_PRE_SHARED_KEY) (strip v)"

definition diff_extensions :: "client_report \<Rightarrow> profile \<Rightarrow> field_diff" where
  "diff_extensions r p =
     list_field ''extensions'' (strip_psk (tf_extensions (cr_tls r)))
       (strip_psk (tp_extensions (pf_tls p))) (eq_extension_order (pf_equivalence p))"

definition diff_grease :: "client_report \<Rightarrow> profile \<Rightarrow> field_diff" where
  "diff_grease r p =
     (let obs_gc = length (tf_grease_cipher_positions (cr_tls r));
          exp_gc = length (tp_grease_cipher_positions (pf_tls p));
          obs_ge = length (tf_grease_ext_positions (cr_tls r));
          exp_ge = length (tp_grease_ext_positions (pf_tls p));
          ok = (obs_gc = exp_gc \<and> obs_ge = exp_ge);
          d = mk_field ''GREASE'' ok
                (dec_string obs_gc @ '' cipher, '' @ dec_string obs_ge @ '' extension'')
                (dec_string exp_gc @ '' cipher, '' @ dec_string exp_ge @ '' extension'')
      in if \<not> ok \<and> obs_gc = 0 \<and> obs_ge = 0 then
           d\<lparr>fd_note := Some ''absent entirely, no browser omits GREASE''\<rparr>
         else d)"

definition or_none :: "string option \<Rightarrow> string" where
  "or_none x = (case x of None \<Rightarrow> ''none'' | Some s \<Rightarrow> s)"

definition present :: "bool \<Rightarrow> string" where
  "present b = (if b then ''present'' else ''absent'')"

definition diff_alpn :: "client_report \<Rightarrow> profile \<Rightarrow> field_diff" where
  "diff_alpn r p =
     (let obs_alpn = or_none (tf_alpn (cr_tls r)); exp_alpn = or_none (tp_alpn (pf_tls p)) in
      mk_field ''ALPN'' (obs_alpn = exp_alpn) obs_alpn exp_alpn)"

definition diff_sni :: "client_report \<Rightarrow> profile \<Rightarrow> field_diff" where
  "diff_sni r p =
     mk_field ''SNI'' (tf_has_sni (cr_tls r) = tp_has_sni (pf_tls p))
       (present (tf_has_sni (cr_tls r))) (present (tp_has_sni (pf_tls p)))"

definition or_empty :: "u32 option \<Rightarrow> string" where
  "or_empty v = (case v of None \<Rightarrow> [] | Some v \<Rightarrow> dec_string (unat v))"

definition diff_h2 :: "client_report \<Rightarrow> profile \<Rightarrow> field_diff list" where
  "diff_h2 r p =
     (case (cr_h2 r, pf_h2 p) of
        (Some obs, Some want) \<Rightarrow>
          (let os = render_settings (hf_settings obs);
               es = render_settings (h2p_settings want);
               ok = (os = es);
               d = mk_field ''SETTINGS'' ok os es;
               obs_ids = map fst (hf_settings obs);
               exp_ids = map fst (h2p_settings want);
               d = (if \<not> ok \<and> 3 \<in> set obs_ids \<and> 3 \<notin> set exp_ids then
                      d\<lparr>fd_note := Some ''sends id 3, which no browser does''\<rparr>
                    else d)
           in [d,
               mk_field ''WINDOW_UPDATE'' (hf_window_update obs = h2p_window_update want)
                 (or_empty (hf_window_update obs)) (or_empty (h2p_window_update want)),
               mk_field ''pseudo-header'' (hf_pseudo_order obs = h2p_pseudo_order want)
                 (hf_pseudo_order obs) (h2p_pseudo_order want)])
      | (None, Some _) \<Rightarrow> [mk_field ''HTTP/2'' False ''not captured'' ''expected'']
      | _ \<Rightarrow> [])"

definition diff_http :: "client_report \<Rightarrow> profile \<Rightarrow> field_diff list" where
  "diff_http r p =
     (case (cr_h2 r, pf_http p) of
        (Some obs, Some want) \<Rightarrow>
          (let oh = comparable_headers (hf_http obs);
               ok = (oh = hs_header_names want);
               d = mk_field ''header order'' ok (dec_string (length oh) @ '' headers'')
                     (dec_string (length (hs_header_names want)) @ '' headers'');
               missing = filter (\<lambda>h. h \<notin> set oh) (hs_header_names want);
               d = (if \<not> ok then
                      d\<lparr>fd_observed := str_join '','' oh,
                        fd_expected := str_join '','' (hs_header_names want),
                        fd_note :=
                          (if missing \<noteq> [] then Some (''missing: '' @ str_join '','' missing)
                           else fd_note d)\<rparr>
                    else d)
           in [d,
               mk_field ''accept-language''
                 (hp_has_accept_language (hf_http obs) = hs_has_accept_language want)
                 (present (hp_has_accept_language (hf_http obs)))
                 (present (hs_has_accept_language want))])
      | _ \<Rightarrow> [])"

definition diff :: "client_report \<Rightarrow> profile \<Rightarrow> diff_result" where
  "diff r p =
     \<lparr>df_label = pf_label p,
      df_fields =
        [diff_ciphers r p, diff_extensions r p, diff_grease r p, diff_alpn r p, diff_sni r p]
        @ diff_h2 r p @ diff_http r p\<rparr>"

section \<open>What agreement means\<close>

lemma compare_ordered_iff:
  "compare_ordered xs ys ord \<longleftrightarrow> (case ord of Fixed \<Rightarrow> xs = ys | _ \<Rightarrow> mset xs = mset ys)"
proof -
  have "sort xs = sort ys \<longleftrightarrow> mset xs = mset ys"
    using sort_perm [of xs ys] by (metis mset_sort)
  then show ?thesis by (simp add: compare_ordered_def split: ordering.split)
qed

lemma compare_ordered_refl [simp]: "compare_ordered xs xs ord"
  by (simp add: compare_ordered_iff split: ordering.split)

lemma fd_ok_mk [simp]: "fd_ok (mk_field n ok ob ex) = ok" "fd_field (mk_field n ok ob ex) = n"
  by (simp_all add: mk_field_def)

lemma list_field_simps [simp]:
  "fd_ok (list_field n obs want ord) = compare_ordered obs want ord"
  "fd_field (list_field n obs want ord) = n"
  by (simp_all add: list_field_def Let_def)

text \<open>One statement of what each section checks.\<close>

definition tls_agrees :: "client_report \<Rightarrow> profile \<Rightarrow> bool" where
  "tls_agrees r p \<longleftrightarrow>
     compare_ordered (strip (tf_ciphers (cr_tls r))) (tp_ciphers (pf_tls p))
       (eq_cipher_order (pf_equivalence p)) \<and>
     compare_ordered (strip_psk (tf_extensions (cr_tls r))) (strip_psk (tp_extensions (pf_tls p)))
       (eq_extension_order (pf_equivalence p)) \<and>
     length (tf_grease_cipher_positions (cr_tls r)) = length (tp_grease_cipher_positions (pf_tls p)) \<and>
     length (tf_grease_ext_positions (cr_tls r)) = length (tp_grease_ext_positions (pf_tls p))"

definition h2_agrees :: "client_report \<Rightarrow> profile \<Rightarrow> bool" where
  "h2_agrees r p \<longleftrightarrow>
     (case (cr_h2 r, pf_h2 p) of
        (Some h, Some e) \<Rightarrow>
          hf_settings h = h2p_settings e \<and> hf_window_update h = h2p_window_update e \<and>
          hf_pseudo_order h = h2p_pseudo_order e
      | (None, Some e) \<Rightarrow> False | _ \<Rightarrow> True)"

definition http_agrees :: "client_report \<Rightarrow> profile \<Rightarrow> bool" where
  "http_agrees r p \<longleftrightarrow>
     (case (cr_h2 r, pf_http p) of
        (Some h, Some e) \<Rightarrow>
          comparable_headers (hf_http h) = hs_header_names e \<and>
          hp_has_accept_language (hf_http h) = hs_has_accept_language e
      | _ \<Rightarrow> True)"

lemma render_settings_eq [simp]: "render_settings a = render_settings b \<longleftrightarrow> a = b"
  using render_settings_inj by blast

lemma diff_h2_ok: "list_all fd_ok (diff_h2 r p) \<longleftrightarrow> h2_agrees r p"
  by (auto simp: diff_h2_def h2_agrees_def Let_def split: option.split)

lemma diff_http_ok: "list_all fd_ok (diff_http r p) \<longleftrightarrow> http_agrees r p"
  by (auto simp: diff_http_def http_agrees_def Let_def split: option.split)

lemma diff_grease_ok:
  "fd_ok (diff_grease r p) \<longleftrightarrow>
     length (tf_grease_cipher_positions (cr_tls r)) = length (tp_grease_cipher_positions (pf_tls p)) \<and>
     length (tf_grease_ext_positions (cr_tls r)) = length (tp_grease_ext_positions (pf_tls p))"
  "fd_field (diff_grease r p) = ''GREASE''"
  by (simp_all add: diff_grease_def Let_def)

lemma is_clean_iff:
  "is_clean (diff r p) \<longleftrightarrow>
     tls_agrees r p \<and> or_none (tf_alpn (cr_tls r)) = or_none (tp_alpn (pf_tls p)) \<and>
     tf_has_sni (cr_tls r) = tp_has_sni (pf_tls p) \<and> h2_agrees r p \<and> http_agrees r p"
  by (auto simp: is_clean_def diff_def tls_agrees_def diff_ciphers_def diff_extensions_def
      diff_alpn_def diff_sni_def diff_grease_ok Let_def diff_h2_ok diff_http_ok)

lemma strip_psk_strip [simp]: "strip_psk (strip v) = strip_psk v"
  by (simp add: strip_psk_def)

lemma diff_self_clean:
  "is_clean (diff r (from_report r label captured\<lparr>pf_equivalence := eqv\<rparr>))"
  by (auto simp: is_clean_iff tls_agrees_def h2_agrees_def http_agrees_def from_report_def Let_def
      split: option.split)

section \<open>Scores\<close>

lemma field_count_bounds: "5 \<le> length (df_fields (diff r p)) \<and> length (df_fields (diff r p)) \<le> 10"
  by (auto simp: diff_def diff_h2_def diff_http_def Let_def split: option.split)

lemma ok_count_le: "ok_count d \<le> length (df_fields d)"
  by (simp add: ok_count_def)

lemma ok_count_all: "ok_count d = length (df_fields d) \<longleftrightarrow> is_clean d"
  unfolding ok_count_def is_clean_def list_all_iff
  by (metis filter_True length_filter_less linorder_not_less order_refl)

lemma score_diff: "score (diff r p) = f32_ratio (ok_count (diff r p)) (length (df_fields (diff r p)))"
  using field_count_bounds [of r p] by (auto simp: score_def)

lemma score_le_iff:
  "score (diff r p) \<le> score (diff r q) \<longleftrightarrow>
     ok_count (diff r p) * length (df_fields (diff r q)) \<le>
     ok_count (diff r q) * length (df_fields (diff r p))"
  unfolding score_diff using field_count_bounds [of r p] field_count_bounds [of r q]
  by (intro f32_ratio_le_iff) (auto simp: ok_count_le)

lemma score_floor_iff:
  "f32_ratio 60 100 \<le> score (diff r p) \<longleftrightarrow>
     3 * length (df_fields (diff r p)) \<le> 5 * ok_count (diff r p)"
proof -
  have "f32_ratio 60 100 \<le> score (diff r p) \<longleftrightarrow>
      60 * length (df_fields (diff r p)) \<le> ok_count (diff r p) * 100"
    unfolding score_diff using field_count_bounds [of r p]
    by (intro f32_ratio_le_iff) (auto simp: ok_count_le)
  then show ?thesis by auto
qed

lemma score_one_iff: "score (diff r p) = 1 \<longleftrightarrow> is_clean (diff r p)"
proof -
  define n k where "n = length (df_fields (diff r p))" and "k = ok_count (diff r p)"
  have b: "0 < n" "n \<le> 1000" "k \<le> n"
    using field_count_bounds [of r p] ok_count_le [of "diff r p"] by (auto simp: n_def k_def)
  have "f32_ratio n n \<le> f32_ratio k n \<longleftrightarrow> n * n \<le> k * n"
    using b by (intro f32_ratio_le_iff) simp_all
  moreover have "f32_ratio k n \<le> f32_ratio n n"
    using b f32_ratio_le_iff [of k n n n] by simp
  ultimately have "f32_ratio k n = 1 \<longleftrightarrow> k = n"
    using b f32_ratio_same [of n] by auto
  then show ?thesis
    unfolding score_diff ok_count_all [symmetric] n_def k_def .
qed

section \<open>Properties\<close>


text \<open>
  Capturing a profile and comparing the same client with it is clean, whatever order rules
  the profile is later given.
\<close>

theorem captured_profile_matches:
  "is_clean (diff r (from_report r label captured\<lparr>pf_equivalence := eqv\<rparr>))"
  by (rule diff_self_clean)

text \<open>
  C32. Scores are single-precision quotients, yet they order comparisons exactly as the exact
  fractions of matching fields do.
\<close>

theorem score_exact_order:
  "score (diff r p) \<le> score (diff r q) \<longleftrightarrow>
     ok_count (diff r p) * length (df_fields (diff r q)) \<le>
     ok_count (diff r q) * length (df_fields (diff r p))"
  by (rule score_le_iff)

text \<open>A comparison scores 1 exactly when it is clean.\<close>

theorem score_one: "score (diff r p) = 1 \<longleftrightarrow> is_clean (diff r p)"
  by (rule score_one_iff)

end
