(* ===== verification/Ua.thy ===== *)
theory Ua
  imports Hpack_Table Rust_Text
begin

text \<open>
  The browser family a User-Agent claims, \<open>fingerprint-probe/src/ua.rs\<close>: non-browser clients
  by how the string starts, browsers by the most specific token it contains. The lemmas state
  the precedence the nesting of these strings requires, and that letter case never matters.
\<close>

definition USER_AGENT :: string where "USER_AGENT = ''user-agent''"

datatype family = Chrome | Firefox | Safari | Edge | Curl | Python | Go | Node | Unknown_Family

definition family_str :: "family \<Rightarrow> string" where
  "family_str f =
     (case f of Chrome \<Rightarrow> ''chrome'' | Firefox \<Rightarrow> ''firefox'' | Safari \<Rightarrow> ''safari''
      | Edge \<Rightarrow> ''edge'' | Curl \<Rightarrow> ''curl'' | Python \<Rightarrow> ''python'' | Go \<Rightarrow> ''go'' | Node \<Rightarrow> ''node''
      | Unknown_Family \<Rightarrow> ''unknown'')"

definition claimed_family :: "string \<Rightarrow> family" where
  "claimed_family ua =
     (let s = to_ascii_lowercase ua in
      if starts_with s ''curl/'' then Curl
      else if starts_with s ''python-requests/'' \<or> starts_with s ''python-urllib'' then Python
      else if starts_with s ''go-http-client/'' then Go
      else if starts_with s ''node'' \<or> starts_with s ''undici'' \<or> starts_with s ''axios/'' then Node
      else if str_contains s ''edg/'' \<or> str_contains s ''edga/'' \<or> str_contains s ''edgios/'' then Edge
      else if str_contains s ''firefox/'' \<or> str_contains s ''fxios/'' then Firefox
      else if str_contains s ''chrome/'' \<or> str_contains s ''crios/'' then Chrome
      else if str_contains s ''safari/'' \<and> str_contains s ''version/'' then Safari
      else Unknown_Family)"

definition user_agent_of :: "header list \<Rightarrow> string option" where
  "user_agent_of headers =
     map_option snd (List.find (\<lambda>h. eq_ignore_ascii_case (fst h) USER_AGENT) headers)"

lemma claimed_family_case: "to_ascii_lowercase s = to_ascii_lowercase t \<Longrightarrow> claimed_family s = claimed_family t"
  unfolding claimed_family_def by (simp only:)

lemma str_contains_append: "str_contains (u @ p @ v) p"
  by (auto simp: str_contains_iff)

text \<open>A string that starts like none of the scripted clients.\<close>

definition scripted :: "string \<Rightarrow> bool" where
  "scripted s \<longleftrightarrow>
     starts_with s ''curl/'' \<or> starts_with s ''python-requests/'' \<or> starts_with s ''python-urllib'' \<or>
     starts_with s ''go-http-client/'' \<or> starts_with s ''node'' \<or> starts_with s ''undici'' \<or>
     starts_with s ''axios/''"

lemma claimed_family_edge:
  assumes "\<not> scripted (to_ascii_lowercase ua)" and "str_contains (to_ascii_lowercase ua) ''edg/''"
  shows "claimed_family ua = Edge"
  using assms by (auto simp: claimed_family_def Let_def scripted_def)

lemma claimed_family_safari_iff:
  "claimed_family ua = Safari \<longleftrightarrow>
     (let s = to_ascii_lowercase ua in
      \<not> scripted s \<and> str_contains s ''safari/'' \<and> str_contains s ''version/'' \<and>
      list_all (\<lambda>t. \<not> str_contains s t)
        [''edg/'', ''edga/'', ''edgios/'', ''firefox/'', ''fxios/'', ''chrome/'', ''crios/''])"
  by (auto simp: claimed_family_def Let_def scripted_def)

lemma claimed_family_chrome_iff:
  "claimed_family ua = Chrome \<longleftrightarrow>
     (let s = to_ascii_lowercase ua in
      \<not> scripted s \<and> (str_contains s ''chrome/'' \<or> str_contains s ''crios/'') \<and>
      list_all (\<lambda>t. \<not> str_contains s t) [''edg/'', ''edga/'', ''edgios/'', ''firefox/'', ''fxios/''])"
  by (auto simp: claimed_family_def Let_def scripted_def)

lemma user_agent_of_Some:
  "user_agent_of hs = Some v \<Longrightarrow> \<exists>h \<in> set hs. eq_ignore_ascii_case (fst h) USER_AGENT \<and> snd h = v"
  unfolding user_agent_of_def find_Some_iff map_option_eq_Some by (metis nth_mem)

lemma user_agent_of_None:
  "user_agent_of hs = None \<longleftrightarrow> (\<forall>h \<in> set hs. \<not> eq_ignore_ascii_case (fst h) USER_AGENT)"
  by (auto simp: user_agent_of_def find_None_iff)

end
