(* ===== verification/Verdict.thy ===== *)
theory Verdict
  imports Diff Ua
begin

text \<open>
  Identifying a client against the whole database, \<open>fingerprint-probe/src/verdict.rs\<close>: ranking
  by score, the floor and the TLS gate that a named profile must pass, and the mismatch between
  what a client claims and what it is. The lemmas say when a profile is named and that every
  uncertain case declines to report a mismatch.
\<close>

definition REQUIRED_TLS_FIELDS :: "string list" where
  "REQUIRED_TLS_FIELDS = [''ciphers'', ''extensions'', ''GREASE'']"

definition MATCH_FLOOR :: rat where
  "MATCH_FLOOR = f32_ratio 60 100"

record candidate =
  cd_label :: string
  cd_score :: rat
  cd_diff :: diff_result

record claim_mismatch =
  cm_claimed :: family
  cm_observed :: family

record identification =
  id_best :: "candidate option"
  id_ranked :: "candidate list"
  id_mismatch :: "claim_mismatch option"

text \<open>True when every required field compared clean.\<close>

definition tls_layer_agrees :: "diff_result \<Rightarrow> bool" where
  "tls_layer_agrees d =
     list_all (\<lambda>name.
       case List.find (\<lambda>f. fd_field f = name) (df_fields d) of None \<Rightarrow> False | Some f \<Rightarrow> fd_ok f)
       REQUIRED_TLS_FIELDS"

definition family_from_name :: "string \<Rightarrow> family" where
  "family_from_name name =
     (if name = ''chrome'' then Chrome else if name = ''firefox'' then Firefox
      else if name = ''safari'' then Safari else if name = ''edge'' then Edge
      else if name = ''curl'' then Curl else if name = ''python'' then Python
      else if name = ''go'' then Go else if name = ''node'' then Node else Unknown_Family)"

definition detect_mismatch ::
    "client_report \<Rightarrow> candidate option \<Rightarrow> profile_db \<Rightarrow> claim_mismatch option" where
  "detect_mismatch report best db =
     Option.bind (cr_h2 report) (\<lambda>h2.
     Option.bind (user_agent_of (hf_headers h2)) (\<lambda>ua.
     let claimed = claimed_family ua in
     if claimed = Unknown_Family then None else
     Option.bind best (\<lambda>best.
     Option.bind (res_ok (db_get db (cd_label best) :: unit profile_error + profile)) (\<lambda>profile.
     let observed = family_from_name (pf_family profile) in
     if observed = Unknown_Family then None else
     if claimed \<noteq> observed then Some \<lparr>cm_claimed = claimed, cm_observed = observed\<rparr> else None))))"

text \<open>\<open>sort_by\<close> is stable and the comparison is by descending score.\<close>

definition rank :: "candidate list \<Rightarrow> candidate list" where
  "rank cs = sort_key (\<lambda>c. - cd_score c) cs"

definition candidate_of :: "client_report \<Rightarrow> profile \<Rightarrow> candidate" where
  "candidate_of report p =
     (let d = diff report p in \<lparr>cd_label = pf_label p, cd_score = score d, cd_diff = d\<rparr>)"

definition identify :: "client_report \<Rightarrow> profile_db \<Rightarrow> identification" where
  "identify report db =
     (let ranked = rank (map (candidate_of report) db);
          best = (case ranked of [] \<Rightarrow> None
                  | c # _ \<Rightarrow> if MATCH_FLOOR \<le> cd_score c \<and> tls_layer_agrees (cd_diff c) then Some c
                             else None);
          mismatch = detect_mismatch report best db
      in \<lparr>id_best = best, id_ranked = ranked, id_mismatch = mismatch\<rparr>)"

section \<open>Ranking\<close>

lemma mset_rank: "mset (rank cs) = mset cs"
  by (simp add: rank_def)

lemma rank_sorted: "sorted_wrt (\<lambda>a b. cd_score b \<le> cd_score a) (rank cs)"
  using sorted_sort_key [of "\<lambda>c. - cd_score c" cs]
  by (simp add: rank_def sorted_wrt_map)

lemma rank_head: "rank cs = c # rest \<Longrightarrow> c \<in> set cs \<and> (\<forall>d \<in> set cs. cd_score d \<le> cd_score c)"
proof -
  assume r: "rank cs = c # rest"
  have s: "set cs = set (c # rest)"
    using mset_eq_setD [OF mset_rank [of cs]] r by simp
  have "\<forall>d \<in> set rest. cd_score d \<le> cd_score c"
    using rank_sorted [of cs] r by simp
  then show ?thesis unfolding s by simp
qed

text \<open>Equal scores keep their order in the database.\<close>

lemma rank_stable: "filter (\<lambda>c. cd_score c = s) (rank cs) = filter (\<lambda>c. cd_score c = s) cs"
proof -
  have "filter (\<lambda>c. - cd_score c = - s) (rank cs) = filter (\<lambda>c. - cd_score c = - s) cs"
    unfolding rank_def by (rule sort_key_stable)
  then show ?thesis by simp
qed

section \<open>The gate\<close>

lemma tls_layer_agrees_diff: "tls_layer_agrees (diff r p) \<longleftrightarrow> tls_agrees r p"
proof -
  have f: "fd_field (diff_ciphers r p) = ''ciphers''" "fd_field (diff_extensions r p) = ''extensions''"
    by (simp_all add: diff_ciphers_def diff_extensions_def)
  show ?thesis
    by (simp add: tls_layer_agrees_def REQUIRED_TLS_FIELDS_def diff_def f diff_grease_ok
        tls_agrees_def diff_ciphers_def [symmetric] diff_extensions_def [symmetric])
      (simp add: diff_ciphers_def diff_extensions_def conj_ac)
qed

lemma identify_best:
  assumes "id_best (identify r db) = Some c"
  shows "\<exists>p \<in> set db. c = candidate_of r p \<and> tls_agrees r p \<and>
    3 * length (df_fields (diff r p)) \<le> 5 * ok_count (diff r p) \<and>
    (\<forall>q \<in> set db. score (diff r q) \<le> score (diff r p))"
proof -
  from assms obtain rest where r: "rank (map (candidate_of r) db) = c # rest"
    and g: "MATCH_FLOOR \<le> cd_score c" "tls_layer_agrees (cd_diff c)"
    by (auto simp: identify_def Let_def split: list.splits if_splits)
  from rank_head [OF r] obtain p where p: "p \<in> set db" "c = candidate_of r p"
    and m: "\<forall>q \<in> set db. score (diff r q) \<le> score (diff r p)"
    by (auto simp: candidate_of_def Let_def)
  from g have "tls_agrees r p" "3 * length (df_fields (diff r p)) \<le> 5 * ok_count (diff r p)"
    using score_floor_iff [of r p]
    by (simp_all add: p(2) candidate_of_def Let_def tls_layer_agrees_diff MATCH_FLOOR_def)
  with p m show ?thesis by blast
qed

lemma identify_clean:
  assumes "p \<in> set db" and "is_clean (diff r p)"
  shows "\<exists>c. id_best (identify r db) = Some c \<and> is_clean (cd_diff c)"
proof -
  have s1: "score (diff r p) = 1"
    using assms(2) by (simp only: score_one_iff)
  obtain c rest where r: "rank (map (candidate_of r) db) = c # rest"
    using assms(1) mset_rank [of "map (candidate_of r) db"]
    by (cases "rank (map (candidate_of r) db)") auto
  from rank_head [OF r] obtain q where q: "q \<in> set db" "c = candidate_of r q"
    and m: "\<forall>p \<in> set db. score (diff r p) \<le> score (diff r q)"
    by (auto simp: candidate_of_def Let_def)
  define n k where "n = length (df_fields (diff r q))" and "k = ok_count (diff r q)"
  have "f32_ratio n n \<le> f32_ratio k n"
  proof -
    have "0 < n" using field_count_bounds [of r q] by (auto simp: n_def)
    moreover have "1 \<le> score (diff r q)"
      using bspec [OF m assms(1)] by (simp only: s1)
    ultimately show ?thesis
      by (simp only: f32_ratio_same score_diff n_def k_def)
  qed
  then have "n * n \<le> k * n"
    using f32_ratio_le_iff [of n n k n] field_count_bounds [of r q] ok_count_le [of "diff r q"]
    by (auto simp: n_def k_def)
  then have "k = n"
    using field_count_bounds [of r q] ok_count_le [of "diff r q"] by (auto simp: n_def k_def)
  then have cl: "is_clean (diff r q)"
    unfolding k_def n_def by (simp only: ok_count_all)
  then have "tls_agrees r q"
    by (simp add: is_clean_iff)
  moreover have "MATCH_FLOOR \<le> score (diff r q)"
    using \<open>k = n\<close> by (simp add: MATCH_FLOOR_def score_floor_iff n_def k_def)
  ultimately have "id_best (identify r db) = Some c"
    by (simp add: identify_def Let_def r q(2) candidate_of_def tls_layer_agrees_diff)
  with cl q(2) show ?thesis
    by (auto simp: candidate_of_def Let_def)
qed

section \<open>Mismatches\<close>

lemma identify_mismatch_eq: "id_mismatch (identify r db) = detect_mismatch r (id_best (identify r db)) db"
  by (simp add: identify_def Let_def)

lemma detect_mismatch_Some:
  assumes "detect_mismatch r best db = Some m"
  shows "cm_claimed m \<noteq> Unknown_Family \<and> cm_observed m \<noteq> Unknown_Family \<and> cm_claimed m \<noteq> cm_observed m \<and>
    (\<exists>h2 ua c p. cr_h2 r = Some h2 \<and> user_agent_of (hf_headers h2) = Some ua \<and>
       cm_claimed m = claimed_family ua \<and> best = Some c \<and> p \<in> set db \<and> pf_label p = cd_label c \<and>
       cm_observed m = family_from_name (pf_family p))"
proof -
  from assms obtain h2 ua c p where h: "cr_h2 r = Some h2" "user_agent_of (hf_headers h2) = Some ua"
      "best = Some c" "db_get db (cd_label c) = (Inr p :: unit profile_error + profile)"
    and m: "claimed_family ua \<noteq> Unknown_Family" "family_from_name (pf_family p) \<noteq> Unknown_Family"
      "claimed_family ua \<noteq> family_from_name (pf_family p)"
      "m = \<lparr>cm_claimed = claimed_family ua, cm_observed = family_from_name (pf_family p)\<rparr>"
    by (auto simp: detect_mismatch_def Let_def bind_eq_Some_conv res_simps split: if_splits)
  with db_get_Inr [OF h(4)] show ?thesis by auto
qed

lemma family_from_name_str: "family_from_name (family_str f) = f"
  by (cases f) (simp_all add: family_from_name_def family_str_def)

section \<open>Properties\<close>

text \<open>A client that claims to be Firefox, and the profile a Chrome capture of it would give.\<close>

definition sample_report :: client_report where
  "sample_report =
     (let hs = [('':method'', ''GET''), (''user-agent'', ''Mozilla/5.0 Firefox/130.0'')] in
      \<lparr>cr_tls = \<lparr>tf_ja3 = ''a'', tf_ja3_string = ''b'', tf_ja4 = ''c'', tf_ja4_r = ''d'',
                 tf_ciphers = [0x1a1a, 0x1301], tf_extensions = [0, 10],
                 tf_grease_cipher_positions = [0], tf_grease_ext_positions = [],
                 tf_alpn = Some ''h2'', tf_has_sni = True,
                 tf_provenance = \<lparr>pv_ciphers = \<lparr>sp_start = 0, sp_len = 4\<rparr>,
                    pv_extensions = \<lparr>sp_start = 4, sp_len = 0\<rparr>, pv_per_extension = []\<rparr>\<rparr>,
       cr_raw_hello = [],
       cr_h2 = Some \<lparr>hf_settings = [(1, 65536)], hf_window_update = Some 15663105,
                     hf_priorities = [], hf_pseudo_order = ''m'', hf_headers = hs,
                     hf_akamai = ''e'', hf_http = from_headers hs\<rparr>,
       cr_alpn = Some ''h2'', cr_handshake_failed = False\<rparr>)"

definition sample_profile :: profile where
  "sample_profile = from_report sample_report ''chrome-130'' ''2024''\<lparr>pf_family := ''chrome''\<rparr>"

lemma sample_clean: "is_clean (diff sample_report sample_profile)"
proof -
  have "diff sample_report sample_profile =
      diff sample_report (from_report sample_report ''chrome-130'' ''2024''
        \<lparr>pf_equivalence := pf_equivalence sample_profile\<rparr>)"
    by (simp add: sample_profile_def from_report_def Let_def diff_def diff_ciphers_def
        diff_extensions_def diff_grease_def diff_alpn_def diff_sni_def diff_h2_def diff_http_def)
  then show ?thesis by (simp only: diff_self_clean)
qed

lemma sample_best: "\<exists>c. id_best (identify sample_report [sample_profile]) = Some c"
  using identify_clean [of sample_profile "[sample_profile]", OF _ sample_clean] by auto

text \<open>
  C29. A profile is named only when it is in the database, its TLS layer agrees, at least sixty
  percent of its fields match, and no profile scores higher.
\<close>

theorem identify_names_best:
  assumes "id_best (identify r db) = Some c"
  shows "\<exists>p \<in> set db. c = candidate_of r p \<and> tls_agrees r p \<and>
    3 * length (df_fields (diff r p)) \<le> 5 * ok_count (diff r p) \<and>
    (\<forall>q \<in> set db. score (diff r q) \<le> score (diff r p))"
  by (rule identify_best [OF assms])

lemma identify_names_best_witness:
  "id_best (identify sample_report [sample_profile]) = Some (candidate_of sample_report sample_profile) \<and>
   tls_agrees sample_report sample_profile"
proof -
  from sample_best obtain c where c: "id_best (identify sample_report [sample_profile]) = Some c"
    by blast
  from identify_names_best [OF c] show ?thesis by (simp add: c)
qed

text \<open>
  C30. A client that a profile describes without difference is always identified, and the named
  profile is one it matches in every field.
\<close>

theorem identify_clean_named:
  assumes "p \<in> set db" and "is_clean (diff r p)"
  shows "\<exists>c. id_best (identify r db) = Some c \<and> is_clean (cd_diff c)"
  by (rule identify_clean [OF assms])

lemma identify_clean_named_witness:
  "\<exists>c. id_best (identify sample_report [sample_profile]) = Some c \<and> is_clean (cd_diff c)"
  by (rule identify_clean_named [OF _ sample_clean]) simp

text \<open>
  C31. A mismatch is reported only with evidence on both sides: the client sent a User-Agent of a
  known family, a profile of another known family was named, and the two reported families are
  those.
\<close>

theorem mismatch_evidence:
  assumes "id_mismatch (identify r db) = Some m"
  shows "cm_claimed m \<noteq> Unknown_Family \<and> cm_observed m \<noteq> Unknown_Family \<and> cm_claimed m \<noteq> cm_observed m \<and>
    (\<exists>h2 ua c p. cr_h2 r = Some h2 \<and> user_agent_of (hf_headers h2) = Some ua \<and>
       cm_claimed m = claimed_family ua \<and> id_best (identify r db) = Some c \<and> p \<in> set db \<and>
       pf_label p = cd_label c \<and> cm_observed m = family_from_name (pf_family p))"
  using assms unfolding identify_mismatch_eq by (rule detect_mismatch_Some)

lemma sample_claim:
  "Option.bind (cr_h2 sample_report) (\<lambda>h. user_agent_of (hf_headers h)) = Some ''Mozilla/5.0 Firefox/130.0''"
  "claimed_family ''Mozilla/5.0 Firefox/130.0'' = Firefox"
  by code_simp+

lemma sample_mismatch:
  "id_mismatch (identify sample_report [sample_profile]) = Some \<lparr>cm_claimed = Firefox, cm_observed = Chrome\<rparr>"
proof -
  from sample_best obtain c where c: "id_best (identify sample_report [sample_profile]) = Some c"
    by blast
  from identify_best [OF c] have l: "cd_label c = ''chrome-130''"
    by (simp add: candidate_of_def Let_def sample_profile_def from_report_def)
  have "pf_family sample_profile = ''chrome''" "pf_label sample_profile = ''chrome-130''"
    by (simp_all add: sample_profile_def from_report_def Let_def)
  moreover obtain h2 where h: "cr_h2 sample_report = Some h2"
      "user_agent_of (hf_headers h2) = Some ''Mozilla/5.0 Firefox/130.0''"
    using sample_claim(1) by (cases "cr_h2 sample_report") simp_all
  ultimately show ?thesis
    unfolding identify_mismatch_eq c detect_mismatch_def h
    by (simp add: sample_claim(2) l h db_get_def family_from_name_def)
qed

lemma mismatch_evidence_witness:
  "\<exists>ua. claimed_family ua = Firefox \<and>
     Option.bind (cr_h2 sample_report) (\<lambda>h. user_agent_of (hf_headers h)) = Some ua"
  using mismatch_evidence [OF sample_mismatch] by auto

end
