(* ===== verification/Inject.thy ===== *)
theory Inject
  imports Verdict
begin

text \<open>
  The headers \<open>serve\<close> attaches, \<open>fingerprint-probe/src/inject.rs\<close>: the removal of what a client
  sends under fpd's prefix, and the headers built from a report. The lemmas say that nothing a
  client sends under the prefix survives and that the attached names are fixed.
\<close>

definition strip_inbound :: "header list \<Rightarrow> header list" where
  "strip_inbound headers =
     filter (\<lambda>h. \<not> starts_with (to_ascii_lowercase (fst h)) FP_PREFIX) headers"

definition fp_headers :: "client_report \<Rightarrow> identification \<Rightarrow> header list" where
  "fp_headers report idn =
     [(''x-fp-ja4'', tf_ja4 (cr_tls report)), (''x-fp-ja3'', tf_ja3 (cr_tls report))] @
     (case cr_h2 report of
        Some h2 \<Rightarrow>
          [(''x-fp-h2'', hf_akamai h2),
           (''x-fp-http-headers'', str_join '','' (comparable_headers (hf_http h2)))]
      | None \<Rightarrow> [(''x-fp-h2'', ''none''), (''x-fp-http-headers'', [])]) @
     (case id_best idn of
        Some best \<Rightarrow>
          [(''x-fp-verdict'', cd_label best), (''x-fp-confidence'', fmt_fixed2 (cd_score best))]
      | None \<Rightarrow> [(''x-fp-verdict'', ''unknown''), (''x-fp-confidence'', ''0.00'')]) @
     (case id_mismatch idn of
        Some m \<Rightarrow> [(''x-fp-mismatch'', ''true''), (''x-fp-claimed'', family_str (cm_claimed m))]
      | None \<Rightarrow> [(''x-fp-mismatch'', ''false'')])"

lemma strip_inbound_none: "h \<in> set (strip_inbound hs) \<Longrightarrow> \<not> fp_header h"
  by (simp add: strip_inbound_def fp_header_def)

lemma strip_inbound_keeps: "h \<in> set hs \<Longrightarrow> \<not> fp_header h \<Longrightarrow> h \<in> set (strip_inbound hs)"
  by (simp add: strip_inbound_def fp_header_def)

lemma strip_inbound_subseq: "subseq (strip_inbound hs) hs"
  by (simp add: strip_inbound_def subseq_filter_left)

text \<open>The names attached, whatever the report says.\<close>

definition fp_names :: "bool \<Rightarrow> string list" where
  "fp_names mismatch =
     [''x-fp-ja4'', ''x-fp-ja3'', ''x-fp-h2'', ''x-fp-http-headers'', ''x-fp-verdict'',
      ''x-fp-confidence'', ''x-fp-mismatch''] @ (if mismatch then [''x-fp-claimed''] else [])"

lemma fp_headers_names: "map fst (fp_headers r i) = fp_names (id_mismatch i \<noteq> None)"
  by (auto simp: fp_headers_def fp_names_def split: option.split)

lemma fp_names_prefix: "n \<in> set (fp_names b) \<Longrightarrow> fp_header (n, v)"
  by (auto simp: fp_names_def fp_header_def FP_PREFIX_def ascii_lower_char_def Let_def split: if_splits)

text \<open>
  What an upstream reads under the prefix, after the client's headers were stripped and fpd's
  appended, is exactly what fpd attached.
\<close>

lemma forwarded_fp_headers:
  assumes "\<forall>h \<in> set fp. fp_header h"
  shows "filter fp_header (strip_inbound hs @ fp) = fp"
proof -
  have "filter fp_header (strip_inbound hs) = []"
    using strip_inbound_none by (auto simp: filter_empty_conv)
  moreover have "filter fp_header fp = fp"
    using assms by (simp add: filter_id_conv)
  ultimately show ?thesis by simp
qed

lemma fp_headers_prefixed: "h \<in> set (fp_headers r i) \<Longrightarrow> fp_header h"
proof -
  assume "h \<in> set (fp_headers r i)"
  then have "fst h \<in> set (fp_names (id_mismatch i \<noteq> None))"
    unfolding fp_headers_names [of r i, symmetric] by simp
  from fp_names_prefix [OF this, of "snd h"] show ?thesis by simp
qed

section \<open>Properties\<close>

text \<open>
  No client can forge fpd's headers: of what is forwarded upstream, the headers under the
  prefix, in any letter case, are exactly those fpd attached.
\<close>

theorem forwarded_headers_genuine:
  "filter fp_header (strip_inbound hs @ fp_headers r i) = fp_headers r i"
  by (rule forwarded_fp_headers) (auto simp: fp_headers_prefixed)

end
