(* ===== verification/Conn_Log.thy ===== *)
theory Conn_Log
  imports Inject Bounded_Queue
begin

text \<open>
  The bounded history of recent connections, \<open>fingerprint-probe/src/log.rs\<close>: a record per
  connection and the ring that keeps the latest ones. Time is an argument, in nanoseconds
  from the Unix epoch, negative before it. The lemmas show that the ring is a bounded queue, so it holds the most
  recent records, and that sequence numbers are consecutive and never reused.
\<close>

record conn_record =
  lr_seq :: nat
  lr_at :: int
  lr_ip :: string
  lr_ja4 :: string
  lr_akamai :: "string option"
  lr_verdict :: string
  lr_score :: rat
  lr_mismatch :: bool
  lr_alpn :: "string option"
  lr_raw_hello :: bytes
  lr_provenance :: provenance

definition record_new :: "int \<Rightarrow> client_report \<Rightarrow> identification \<Rightarrow> string \<Rightarrow> conn_record" where
  "record_new now report idn ip =
     (let (verdict, score) =
        (case id_best idn of Some best \<Rightarrow> (cd_label best, cd_score best) | None \<Rightarrow> (''unknown'', 0))
      in \<lparr>lr_seq = 0, lr_at = now, lr_ip = ip, lr_ja4 = tf_ja4 (cr_tls report),
          lr_akamai = map_option hf_akamai (cr_h2 report), lr_verdict = verdict, lr_score = score,
          lr_mismatch = (id_mismatch idn \<noteq> None), lr_alpn = cr_alpn report,
          lr_raw_hello = cr_raw_hello report, lr_provenance = tf_provenance (cr_tls report)\<rparr>)"

text \<open>Oldest record first, as in the \<open>VecDeque\<close>.\<close>

record conn_log =
  cl_records :: "conn_record list"
  cl_capacity :: nat
  cl_next_seq :: nat

definition log_with_capacity :: "nat \<Rightarrow> conn_log" where
  "log_with_capacity capacity =
     \<lparr>cl_records = [], cl_capacity = max capacity 1, cl_next_seq = 0\<rparr>"

text \<open>\<open>while self.records.len() > self.capacity { self.records.pop_front(); }\<close>\<close>

fun evict_front :: "nat \<Rightarrow> 'a list \<Rightarrow> 'a list" where
  "evict_front capacity [] = []"
| "evict_front capacity (x # xs) =
     (if capacity < length (x # xs) then evict_front capacity xs else x # xs)"

definition log_push :: "conn_record \<Rightarrow> conn_log \<Rightarrow> nat \<times> conn_log" where
  "log_push r l =
     (let s = cl_next_seq l;
          r = r\<lparr>lr_seq := s\<rparr>;
          l = l\<lparr>cl_next_seq := cl_next_seq l + 1\<rparr>
      in (s, l\<lparr>cl_records := evict_front (cl_capacity l) (cl_records l @ [r])\<rparr>))"

definition log_snapshot :: "conn_log \<Rightarrow> conn_record list" where
  "log_snapshot l = cl_records l"

section \<open>The ring\<close>

lemma evict_front_drop: "evict_front n xs = drop (length xs - n) xs"
proof (induction n xs rule: evict_front.induct)
  case (2 n x xs)
  show ?case
  proof (cases "n < length (x # xs)")
    case True
    then have "length (x # xs) - n = Suc (length xs - n)" by simp
    with 2 True show ?thesis by simp
  next
    case False
    then show ?thesis by simp
  qed
qed simp

lemma rev_last: "rev (drop (length (xs @ [x]) - n) (xs @ [x])) = take n (x # rev xs)"
proof -
  have "rev (drop (length ys - n) ys) = take n (rev ys)" for ys :: "'a list"
    by (cases "n \<le> length ys") (simp_all add: rev_drop)
  from this [of "xs @ [x]"] show ?thesis by (simp only: rev.simps rev_append append.simps)
qed

definition log_newest :: "conn_log \<Rightarrow> conn_record list" where
  "log_newest l = rev (cl_records l)"

text \<open>A push is given its number by the log; as a queue the item is the numbered record.\<close>

definition log_store :: "conn_record \<Rightarrow> conn_log \<Rightarrow> conn_log" where
  "log_store r l = l\<lparr>cl_records := evict_front (cl_capacity l) (cl_records l @ [r])\<rparr>"

interpretation ring: bounded_queue log_newest cl_capacity "\<lambda>_. 1" log_store "\<lambda>_. True"
proof
  fix l :: conn_log and r :: conn_record
  show "log_newest (log_store r l) = fit (\<lambda>_. 1) (cl_capacity l) (r # log_newest l)"
    unfolding fit_const log_newest_def log_store_def evict_front_drop
    by (cases l) (simp only: conn_log.simps rev_last)
qed (simp_all add: log_store_def)

lemma log_push_store:
  "log_push r l = (cl_next_seq l, log_store (r\<lparr>lr_seq := cl_next_seq l\<rparr>) (l\<lparr>cl_next_seq := cl_next_seq l + 1\<rparr>))"
  by (simp add: log_push_def log_store_def Let_def)

text \<open>The log after a run of pushes, and the numbered records it was given.\<close>

definition push_all :: "conn_record list \<Rightarrow> conn_log \<Rightarrow> conn_log" where
  "push_all rs l = fold (\<lambda>r l. snd (log_push r l)) rs l"

definition numbered :: "nat \<Rightarrow> conn_record list \<Rightarrow> conn_record list" where
  "numbered n rs = map (\<lambda>(i, r). r\<lparr>lr_seq := i\<rparr>) (enumerate n rs)"

lemma numbered_simps [simp]:
  "numbered n [] = []"
  "numbered n (r # rs) = r\<lparr>lr_seq := n\<rparr> # numbered (Suc n) rs"
  by (simp_all add: numbered_def)

lemma length_numbered [simp]: "length (numbered n rs) = length rs"
  by (simp add: numbered_def)

lemma numbered_append: "numbered n (rs @ qs) = numbered n rs @ numbered (n + length rs) qs"
  by (simp add: numbered_def enumerate_append_eq)

lemma seqs_numbered: "map lr_seq (numbered n rs) = [n..<n + length rs]"
  by (induction rs arbitrary: n) (simp_all add: upt_conv_Cons del: upt_Suc)

lemma push_all_eq:
  "push_all rs l =
     (fold log_store (numbered (cl_next_seq l) rs) l)\<lparr>cl_next_seq := cl_next_seq l + length rs\<rparr>"
proof (induction rs arbitrary: l)
  case (Cons r rs)
  have s: "log_store x (m\<lparr>cl_next_seq := k\<rparr>) = (log_store x m)\<lparr>cl_next_seq := k\<rparr>" for x m k
    by (simp add: log_store_def)
  have c: "fold log_store xs (m\<lparr>cl_next_seq := k\<rparr>) = (fold log_store xs m)\<lparr>cl_next_seq := k\<rparr>" for xs m k
    by (induction xs arbitrary: m) (simp_all add: s)
  show ?case
    using Cons.IH [of "snd (log_push r l)"]
    by (simp add: push_all_def log_push_store c s)
qed (simp add: push_all_def)

lemma push_all_records:
  assumes "length (cl_records l) \<le> cl_capacity l"
  shows "cl_records (push_all rs l) =
      (let all = cl_records l @ numbered (cl_next_seq l) rs in drop (length all - cl_capacity l) all)"
    and "cl_capacity (push_all rs l) = cl_capacity l"
    and "cl_next_seq (push_all rs l) = cl_next_seq l + length rs"
proof -
  have t: "total (\<lambda>_. 1) (log_newest l) \<le> cl_capacity l"
    using assms by (simp add: log_newest_def total_def sum_list_triv)
  note f = ring.items_fold [OF TrueI t, of "numbered (cl_next_seq l) rs", unfolded fit_const]
  have "cl_records (push_all rs l) = rev (log_newest (push_all rs l))"
    by (simp add: log_newest_def)
  also have "log_newest (push_all rs l) =
      take (cl_capacity l) (rev (numbered (cl_next_seq l) rs) @ log_newest l)"
    using f by (simp add: push_all_eq log_newest_def)
  also have "rev \<dots> = (let all = cl_records l @ numbered (cl_next_seq l) rs in
      drop (length all - cl_capacity l) all)"
    by (simp add: log_newest_def Let_def rev_take flip: rev_append)
  finally show "cl_records (push_all rs l) =
      (let all = cl_records l @ numbered (cl_next_seq l) rs in drop (length all - cl_capacity l) all)" .
  show "cl_capacity (push_all rs l) = cl_capacity l"
    "cl_next_seq (push_all rs l) = cl_next_seq l + length rs"
    using f by (simp_all add: push_all_eq)
qed

text \<open>From an empty log: the last \<open>capacity\<close> connections, numbered from zero, oldest first.\<close>

lemma push_all_new:
  "log_snapshot (push_all rs (log_with_capacity n)) =
     drop (length rs - max n 1) (numbered 0 rs)"
  using push_all_records(1) [of "log_with_capacity n" rs]
  by (simp add: log_snapshot_def log_with_capacity_def Let_def)

lemma snapshot_seqs:
  "map lr_seq (log_snapshot (push_all rs (log_with_capacity n))) =
     [length rs - max n 1..<length rs]"
  using seqs_numbered [of 0 rs] by (simp add: push_all_new drop_map [symmetric] drop_upt)

text \<open>The record carries no header of the client: of the headers it keeps only derived strings.\<close>

lemma record_new_headers:
  assumes "cr_h2 r = Some h" and "cr_h2 r' = Some h'" and "hf_akamai h = hf_akamai h'"
    and "cr_tls r = cr_tls r'" and "cr_raw_hello r = cr_raw_hello r'" and "cr_alpn r = cr_alpn r'"
  shows "record_new now r i ip = record_new now r' i ip"
  using assms by (simp add: record_new_def)

section \<open>Properties\<close>

text \<open>
  The log holds the most recent connections: after any run of pushes a snapshot is the last
  \<open>capacity\<close> of them, at least one, in order and numbered by arrival, so no number repeats.
\<close>

theorem log_keeps_latest:
  "log_snapshot (push_all rs (log_with_capacity n)) = drop (length rs - max n 1) (numbered 0 rs) \<and>
   map lr_seq (log_snapshot (push_all rs (log_with_capacity n))) = [length rs - max n 1..<length rs]"
  using push_all_new [of rs n] snapshot_seqs [of rs n] by (rule conjI)

end
