(* ===== verification/Base64.thy ===== *)
theory Base64
  imports Rust_Text
begin

text \<open>
  Base64, RFC 4648 section 4, written out twice in the program: \<open>base64\<close> of
  \<open>fingerprint-probe/src/admin.rs\<close> encodes the hello of a record, \<open>decode_base64\<close> of
  \<open>fpd/src/tui/source.rs\<close> reads it in the viewer. The lemmas show that the viewer gets back
  the bytes the server sent.
\<close>

unbundle bit_operations_syntax

definition B64 :: string where
  "B64 = ''ABCDEFGHIJKLMNOPQRSTUVWXYZabcdefghijklmnopqrstuvwxyz0123456789+/''"

text \<open>\<open>slice.chunks(n)\<close>: the last chunk may be short.\<close>

function chunks :: "nat \<Rightarrow> 'a list \<Rightarrow> 'a list list" where
  "chunks n xs = (if xs = [] \<or> n = 0 then [] else take n xs # chunks n (drop n xs))"
  by pat_completeness auto
termination
  by (relation "measure (\<lambda>(n, xs). length xs)") auto

declare chunks.simps [simp del]

definition get_or_0 :: "bytes \<Rightarrow> nat \<Rightarrow> u8" where
  "get_or_0 xs i = (case get_at xs i of None \<Rightarrow> 0 | Some b \<Rightarrow> b)"

definition b64_word :: "bytes \<Rightarrow> u32" where
  "b64_word chunk =
     push_bit 16 (ucast (get_or_0 chunk 0)) OR push_bit 8 (ucast (get_or_0 chunk 1))
       OR ucast (get_or_0 chunk 2)"

definition b64_chunk :: "bytes \<Rightarrow> string" where
  "b64_chunk chunk =
     (let n = b64_word chunk;
          idx = (\<lambda>shift. unat (drop_bit shift n AND 0x3f))
      in [B64 ! idx 18, B64 ! idx 12,
          if 1 < length chunk then B64 ! idx 6 else CHR ''='',
          if 2 < length chunk then B64 ! idx 0 else CHR ''=''])"

definition base64 :: "bytes \<Rightarrow> string" where
  "base64 input = concat (map b64_chunk (chunks 3 input))"

text \<open>The body of the decoder's loop; a byte outside the alphabet is skipped.\<close>

fun position_in :: "char \<Rightarrow> string \<Rightarrow> nat option" where
  "position_in c [] = None"
| "position_in c (x # xs) = (if x = c then Some 0 else map_option Suc (position_in c xs))"

fun b64_step :: "u32 \<times> nat \<times> bytes \<Rightarrow> char \<Rightarrow> u32 \<times> nat \<times> bytes" where
  "b64_step (acc, bits, out) c =
     (case position_in c B64 of
        None \<Rightarrow> (acc, bits, out)
      | Some v \<Rightarrow>
          let acc = push_bit 6 acc OR of_nat v;
              bits = bits + 6
          in if 8 \<le> bits then
               let bits = bits - 8 in (acc, bits, out @ [ucast (drop_bit bits acc AND 0xff)])
             else (acc, bits, out))"

definition decode_base64 :: "string \<Rightarrow> bytes" where
  "decode_base64 s =
     (let (acc, bits, out) = foldl b64_step (0, 0, []) (filter (\<lambda>c. c \<noteq> CHR ''='') s) in out)"

section \<open>The alphabet\<close>

lemma B64_table:
  "\<forall>i \<in> set [0..<64]. position_in (B64 ! i) B64 = Some i \<and> B64 ! i \<noteq> CHR ''=''"
  by code_simp

lemma sextet_less: "unat ((w :: u32) AND 0x3f) < 64"
proof -
  have "w AND 0x3f = take_bit 6 w"
    using take_bit_eq_mask [of 6 w] by (simp add: mask_eq_exp_minus_1)
  then have "unat (w AND 0x3f) = take_bit 6 (unat w)"
    by (simp only: unsigned_take_bit_eq)
  then show ?thesis by (simp add: take_bit_eq_mod)
qed

lemma B64_sextet:
  "position_in (B64 ! unat ((w :: u32) AND 0x3f)) B64 = Some (unat (w AND 0x3f))"
  "B64 ! unat (w AND 0x3f) \<noteq> CHR ''=''"
  using B64_table sextet_less [of w] by auto

lemma b64_step_sextet:
  "b64_step (acc, bits, out) (B64 ! unat ((w :: u32) AND 0x3f)) =
     (let acc = push_bit 6 acc OR (w AND 0x3f); bits = bits + 6
      in if 8 \<le> bits then (acc, bits - 8, out @ [ucast (drop_bit (bits - 8) acc AND 0xff)])
         else (acc, bits, out))"
  by (simp add: B64_sextet Let_def)

section \<open>Round trip\<close>

text \<open>The bits of a word of three bytes, of a sextet of it, and of an accumulator one step on.\<close>

definition pack3 :: "u8 \<Rightarrow> u8 \<Rightarrow> u8 \<Rightarrow> u32" where
  "pack3 b0 b1 b2 = push_bit 16 (ucast b0) OR push_bit 8 (ucast b1) OR ucast b2"

definition sextet :: "nat \<Rightarrow> u32 \<Rightarrow> u32" where
  "sextet k n = drop_bit k n AND 0x3f"

definition shift_in :: "u32 \<Rightarrow> u32 \<Rightarrow> u32" where
  "shift_in acc v = push_bit 6 acc OR v"

lemma bit_pack3:
  "bit (pack3 b0 b1 b2) j \<longleftrightarrow>
     (if j < 8 then bit b2 j else if j < 16 then bit b1 (j - 8) else j < 24 \<and> bit b0 (j - 16))"
proof -
  have "bit b2 j \<Longrightarrow> j < 8" "8 \<le> j \<Longrightarrow> bit b1 (j - 8) \<Longrightarrow> j < 16" "16 \<le> j \<Longrightarrow> bit b0 (j - 16) \<Longrightarrow> j < 24"
    using bit_imp_le_length [of b2 j] bit_imp_le_length [of b1 "j - 8"]
      bit_imp_le_length [of b0 "j - 16"] by auto
  then show ?thesis
    by (auto simp: pack3_def bit_or_iff bit_push_bit_iff bit_ucast_iff)
qed

lemma bit_sextet: "bit (sextet k n) j \<longleftrightarrow> j < 6 \<and> bit n (k + j)"
proof -
  have m: "(0x3f :: u32) = mask 6" by (simp add: mask_eq_exp_minus_1)
  show ?thesis
    unfolding sextet_def m by (auto simp: bit_and_iff bit_drop_bit_eq bit_mask_iff)
qed

lemma bit_shift_in:
  "j < 32 \<Longrightarrow> bit (shift_in acc (sextet k n)) j \<longleftrightarrow> (if j < 6 then bit n (k + j) else bit acc (j - 6))"
  by (auto simp: shift_in_def bit_or_iff bit_push_bit_iff bit_sextet)

lemma bit_low_byte: "bit (ucast (drop_bit k (a :: u32) AND 0xff) :: u8) j \<longleftrightarrow> j < 8 \<and> bit a (k + j)"
proof -
  have m: "(0xff :: u32) = mask 8" by (simp add: mask_eq_exp_minus_1)
  show ?thesis
    unfolding m by (auto simp: bit_ucast_iff bit_and_iff bit_drop_bit_eq bit_mask_iff)
qed

lemma sextet_bytes:
  fixes acc :: u32 and b0 b1 b2 :: u8
  defines "n \<equiv> pack3 b0 b1 b2"
  defines "a2 \<equiv> shift_in (shift_in acc (sextet 18 n)) (sextet 12 n)"
  defines "a3 \<equiv> shift_in a2 (sextet 6 n)"
  defines "a4 \<equiv> shift_in a3 (sextet 0 n)"
  shows "(ucast (drop_bit 4 a2 AND 0xff) :: u8) = b0"
    and "(ucast (drop_bit 2 a3 AND 0xff) :: u8) = b1"
    and "(ucast (drop_bit 0 a4 AND 0xff) :: u8) = b2"
proof -
  have two: "bit a2 j \<longleftrightarrow> (if j < 12 then bit n (12 + j) else bit acc (j - 12))" if "j < 32" for j
  proof -
    have "j - 6 < 6 \<longleftrightarrow> j < 12" by linarith
    with that show ?thesis by (simp add: a2_def bit_shift_in)
  qed
  have three: "bit a3 j \<longleftrightarrow> (if j < 6 then bit n (6 + j) else bit a2 (j - 6))" if "j < 32" for j
    using that by (simp add: a3_def bit_shift_in)
  have four: "bit a4 j \<longleftrightarrow> bit n j" if "j < 8" for j
  proof -
    have "j - 6 < 6" using that by linarith
    with that three [of "j - 6"] show ?thesis by (simp add: a4_def bit_shift_in)
  qed
  show "(ucast (drop_bit 4 a2 AND 0xff) :: u8) = b0"
    by (rule bit_word_eqI) (simp add: bit_low_byte two n_def bit_pack3)
  show "(ucast (drop_bit 2 a3 AND 0xff) :: u8) = b1"
    by (rule bit_word_eqI) (auto simp: bit_low_byte two three n_def bit_pack3)
  show "(ucast (drop_bit 0 a4 AND 0xff) :: u8) = b2"
    unfolding drop_bit_0 id_apply
    by (rule bit_word_eqI) (simp add: bit_low_byte [of 0 a4, simplified] four n_def bit_pack3)
qed

section \<open>Decoding an encoding\<close>

definition b64_run :: "u32 \<times> nat \<times> bytes \<Rightarrow> string \<Rightarrow> u32 \<times> nat \<times> bytes" where
  "b64_run st s = foldl b64_step st (filter (\<lambda>c. c \<noteq> CHR ''='') s)"

lemma b64_run_append: "b64_run st (s @ t) = b64_run (b64_run st s) t"
  by (simp add: b64_run_def)

lemma decode_base64_run: "decode_base64 s = snd (snd (b64_run (0, 0, []) s))"
  by (simp add: decode_base64_def b64_run_def split_def)

lemma b64_chunk_sextets:
  "b64_chunk c =
     (let n = pack3 (get_or_0 c 0) (get_or_0 c 1) (get_or_0 c 2) in
      [B64 ! unat (sextet 18 n), B64 ! unat (sextet 12 n),
       if 1 < length c then B64 ! unat (sextet 6 n) else CHR ''='',
       if 2 < length c then B64 ! unat (sextet 0 n) else CHR ''=''])"
  by (simp add: b64_chunk_def b64_word_def pack3_def sextet_def Let_def)

lemma b64_step_in:
  "b64_step (acc, bits, out) (B64 ! unat (sextet k n)) =
     (let acc = shift_in acc (sextet k n); bits = bits + 6
      in if 8 \<le> bits then (acc, bits - 8, out @ [ucast (drop_bit (bits - 8) acc AND 0xff)])
         else (acc, bits, out))"
  unfolding sextet_def shift_in_def by (rule b64_step_sextet)

lemma B64_sextet_not_pad: "B64 ! unat (sextet k n) \<noteq> CHR ''=''"
  unfolding sextet_def by (rule B64_sextet)

declare b64_step.simps [simp del]

lemma b64_run_chunk:
  assumes "c \<noteq> []" and "length c \<le> 3"
  shows "snd (snd (b64_run (acc, 0, out) (b64_chunk c))) = out @ c \<and>
    (length c = 3 \<longrightarrow> fst (snd (b64_run (acc, 0, out) (b64_chunk c))) = 0)"
proof -
  define n where "n = pack3 (get_or_0 c 0) (get_or_0 c 1) (get_or_0 c 2)"
  note bytes = sextet_bytes [where acc = acc and ?b0.0 = "get_or_0 c 0" and ?b1.0 = "get_or_0 c 1"
      and ?b2.0 = "get_or_0 c 2", folded n_def]
  have "length c = 1 \<or> length c = 2 \<or> length c = 3"
    using assms by (metis One_nat_def le_Suc_eq le_zero_eq length_0_conv numeral_2_eq_2 numeral_3_eq_3)
  then consider x where "c = [x]" | x y where "c = [x, y]" | x y z where "c = [x, y, z]"
    by (auto simp: numeral_2_eq_2 numeral_3_eq_3 length_Suc_conv)
  then show ?thesis
    unfolding b64_chunk_sextets b64_run_def Let_def n_def [symmetric]
    by cases (use bytes in \<open>simp_all add: Let_def b64_step_in B64_sextet_not_pad get_or_0_def get_at_def\<close>)
qed

lemma b64_run_chunks:
  "snd (snd (b64_run (acc, 0, out) (concat (map b64_chunk (chunks 3 xs))))) = out @ xs"
proof (induction "3 :: nat" xs arbitrary: acc out rule: chunks.induct)
  case (1 xs)
  show ?case
  proof (cases "xs = []")
    case True
    then show ?thesis by (simp add: chunks.simps [of 3 "[]"] b64_run_def)
  next
    case False
    let ?st = "b64_run (acc, 0, out) (b64_chunk (take 3 xs))"
    have c: "snd (snd ?st) = out @ take 3 xs" "length (take 3 xs) = 3 \<longrightarrow> fst (snd ?st) = 0"
      using b64_run_chunk [of "take 3 xs" acc out] False by simp_all
    have e: "b64_run (acc, 0, out) (concat (map b64_chunk (chunks 3 xs))) =
        b64_run ?st (concat (map b64_chunk (chunks 3 (drop 3 xs))))"
      using False by (simp add: chunks.simps [of 3 xs] b64_run_append)
    show ?thesis
    proof (cases "length xs < 3")
      case True
      then show ?thesis
        using c(1) unfolding e by (simp add: chunks.simps [of 3 "[]"] b64_run_def)
    next
      case full: False
      then have "?st = (fst ?st, 0, out @ take 3 xs)"
        using c by (simp add: prod_eq_iff)
      then have "snd (snd (b64_run ?st (concat (map b64_chunk (chunks 3 (drop 3 xs)))))) =
          (out @ take 3 xs) @ drop 3 xs"
        using "1" [of "fst ?st" "out @ take 3 xs"] False by simp
      then show ?thesis unfolding e by simp
    qed
  qed
qed

lemma b64_chunk_chars: "set (b64_chunk c) \<subseteq> set B64 \<union> {CHR ''=''}"
proof -
  have "B64 ! unat (sextet k n) \<in> set B64" for k n
    by (rule nth_mem) (use sextet_less [of "drop_bit k n"] in \<open>simp add: sextet_def B64_def\<close>)
  then show ?thesis by (auto simp: b64_chunk_sextets Let_def)
qed

lemma decode_encoded: "decode_base64 (base64 bs) = bs"
  unfolding decode_base64_run base64_def by (simp add: b64_run_chunks)

section \<open>Properties\<close>

text \<open>
  The viewer gets the bytes of the hello back: its base64 reader inverts the server's base64
  writer on every input, whatever the padding.
\<close>

theorem base64_round_trip: "decode_base64 (base64 bs) = bs"
  by (rule decode_encoded)



end
