(* ===== verification/Json.thy ===== *)
theory Json
  imports Rust_Float
begin

text \<open>
  JSON values, as the program builds them with \<open>json!\<close> and reads them with indexing and the
  \<open>as_*\<close> accessors of the JSON library. How a value is printed and read is that library's
  business and a parameter wherever text is involved; only the values and the accessors the
  program calls are here. A number keeps the form it was built in.
\<close>

datatype json =
    JNull
  | JBool bool
  | JUInt nat
  | JInt int
  | JFloat rat
  | JStr string
  | JArr "json list"
  | JObj "(string \<times> json) list"

text \<open>Indexing an absent key, or a value that is no object, gives null.\<close>

definition json_get :: "json \<Rightarrow> string \<Rightarrow> json" where
  "json_get v k =
     (case v of JObj kvs \<Rightarrow> (case map_of kvs k of None \<Rightarrow> JNull | Some x \<Rightarrow> x) | _ \<Rightarrow> JNull)"

definition json_nth :: "json \<Rightarrow> nat \<Rightarrow> json" where
  "json_nth v i = (case v of JArr xs \<Rightarrow> if i < length xs then xs ! i else JNull | _ \<Rightarrow> JNull)"

definition as_u64 :: "json \<Rightarrow> nat option" where
  "as_u64 v = (case v of JUInt n \<Rightarrow> Some n | _ \<Rightarrow> None)"

definition as_f64 :: "json \<Rightarrow> rat option" where
  "as_f64 v = (case v of JUInt n \<Rightarrow> Some (of_nat n) | JInt i \<Rightarrow> Some (of_int i)
               | JFloat x \<Rightarrow> Some x | _ \<Rightarrow> None)"

definition as_bool :: "json \<Rightarrow> bool option" where
  "as_bool v = (case v of JBool b \<Rightarrow> Some b | _ \<Rightarrow> None)"

definition as_str :: "json \<Rightarrow> string option" where
  "as_str v = (case v of JStr s \<Rightarrow> Some s | _ \<Rightarrow> None)"

definition as_array :: "json \<Rightarrow> json list option" where
  "as_array v = (case v of JArr xs \<Rightarrow> Some xs | _ \<Rightarrow> None)"

definition json_opt_str :: "string option \<Rightarrow> json" where
  "json_opt_str x = (case x of None \<Rightarrow> JNull | Some s \<Rightarrow> JStr s)"

lemma json_accessors [simp]:
  "json_get (JObj kvs) k = (case map_of kvs k of None \<Rightarrow> JNull | Some x \<Rightarrow> x)"
  "json_nth (JArr xs) i = (if i < length xs then xs ! i else JNull)"
  "as_u64 (JUInt n) = Some n" "as_f64 (JFloat x) = Some x" "as_bool (JBool b) = Some b"
  "as_str (JStr s) = Some s" "as_array (JArr xs) = Some xs"
  by (simp_all add: json_get_def json_nth_def as_u64_def as_f64_def as_bool_def as_str_def as_array_def)

lemma as_str_opt [simp]: "as_str (json_opt_str x) = x"
  by (cases x) (simp_all add: json_opt_str_def as_str_def)

end
