(* ===== verification/Admin.thy ===== *)
theory Admin
  imports Conn_Log Base64 Json
begin

text \<open>
  The admin socket, \<open>fingerprint-probe/src/admin.rs\<close>: the publisher, the viewer task with its
  history and live phases, and the lines it writes. A push stores its record under the log's
  lock and sends it on the broadcast channel after the lock is released, so the step relation
  has the two as separate steps. The broadcast channel is third-party code; what is used of it
  is its documented contract: a receiver is given every record sent after it subscribed, in the
  order of the sends, and one that falls more than the channel's depth behind loses the oldest.
\<close>

section \<open>Publishing\<close>

definition BROADCAST_DEPTH :: nat where "BROADCAST_DEPTH = 256"

text \<open>The first half of \<open>push\<close>, under the lock; a poisoned lock drops the record.\<close>

definition publisher_store :: "bool \<Rightarrow> conn_record \<Rightarrow> conn_log \<Rightarrow> (conn_record \<times> conn_log) option" where
  "publisher_store poisoned r l =
     (if poisoned then None
      else let (s, l) = log_push r l in Some (r\<lparr>lr_seq := s\<rparr>, l))"

definition publisher_snapshot :: "bool \<Rightarrow> conn_log \<Rightarrow> conn_record list" where
  "publisher_snapshot poisoned l = (if poisoned then [] else log_snapshot l)"

text \<open>The second half: one receiver's share of a send, and whether it lagged.\<close>

definition broadcast_send :: "conn_record \<Rightarrow> conn_record list \<Rightarrow> conn_record list \<times> bool" where
  "broadcast_send r q =
     (if length q < BROADCAST_DEPTH then (q @ [r], False) else (tl q @ [r], True))"

section \<open>The viewer task\<close>

datatype admin_line = Record_Line conn_record | End_Line nat

record viewer =
  vw_highest :: "nat option"
  vw_lines :: "admin_line list"

text \<open>The history phase: the loop over the snapshot, then the marker.\<close>

definition viewer_start :: "conn_record list \<Rightarrow> viewer" where
  "viewer_start snapshot =
     (let highest = fold (\<lambda>r h. Some (lr_seq r)) snapshot None
      in \<lparr>vw_highest = highest,
          vw_lines = map Record_Line snapshot
            @ [End_Line (case highest of None \<Rightarrow> 0 | Some h \<Rightarrow> h)]\<rparr>)"

text \<open>One received record: already covered, or written.\<close>

definition viewer_recv :: "conn_record \<Rightarrow> viewer \<Rightarrow> viewer" where
  "viewer_recv r v =
     (if (case vw_highest v of None \<Rightarrow> False | Some h \<Rightarrow> lr_seq r \<le> h) then v
      else v\<lparr>vw_highest := Some (lr_seq r), vw_lines := vw_lines v @ [Record_Line r]\<rparr>)"

text \<open>The live phase, given what the channel's \<open>recv\<close> returns.\<close>

datatype recv_result = Received conn_record | Lagged nat | Closed

fun viewer_loop :: "recv_result list \<Rightarrow> viewer \<Rightarrow> viewer" where
  "viewer_loop [] v = v"
| "viewer_loop (Received r # es) v = viewer_loop es (viewer_recv r v)"
| "viewer_loop (Lagged n # es) v = viewer_loop es v"
| "viewer_loop (Closed # es) v = v"

definition handle_client :: "conn_record list \<Rightarrow> recv_result list \<Rightarrow> admin_line list" where
  "handle_client snapshot events = vw_lines (viewer_loop events (viewer_start snapshot))"

section \<open>Lines\<close>

definition epoch_ms :: "int \<Rightarrow> nat" where
  "epoch_ms t = (if t < 0 then 0 else nat t div 1000000 mod 2 ^ 64)"

definition span_json :: "span \<Rightarrow> json" where
  "span_json s = JObj [(''start'', JUInt (sp_start s)), (''len'', JUInt (sp_len s))]"

definition record_json :: "conn_record \<Rightarrow> json" where
  "record_json r =
     JObj [(''type'', JStr ''record''),
           (''seq'', JUInt (lr_seq r)),
           (''at_ms'', JUInt (epoch_ms (lr_at r))),
           (''ip'', JStr (lr_ip r)),
           (''ja4'', JStr (lr_ja4 r)),
           (''akamai'', json_opt_str (lr_akamai r)),
           (''verdict'', JStr (lr_verdict r)),
           (''score'', JFloat (lr_score r)),
           (''mismatch'', JBool (lr_mismatch r)),
           (''alpn'', json_opt_str (lr_alpn r)),
           (''raw_hello'', JStr (base64 (lr_raw_hello r))),
           (''provenance'', JObj [
              (''ciphers'', span_json (pv_ciphers (lr_provenance r))),
              (''extensions'', span_json (pv_extensions (lr_provenance r))),
              (''per_extension'',
                JArr (map (\<lambda>(xid, sp). JArr [JUInt (unat xid), span_json sp])
                  (pv_per_extension (lr_provenance r))))])]"

text \<open>What \<open>write_line\<close> puts on the socket; \<open>print\<close> is the JSON library's printer.\<close>

definition write_line :: "string \<Rightarrow> string" where
  "write_line l = l @ [char_of (10 :: nat)]"

definition line_text :: "(json \<Rightarrow> string) \<Rightarrow> admin_line \<Rightarrow> string" where
  "line_text print l = write_line (case l of
       Record_Line r \<Rightarrow> print (record_json r)
     | End_Line n \<Rightarrow> ''{\"type\":\"snapshot_end\",\"seq\":'' @ dec_string n @ ''}'')"

section \<open>Publishers and a viewer, interleaved\<close>

text \<open>
  \<open>ad_pending\<close> are the records stored but not yet sent, \<open>ad_queue\<close> the viewer's receiver once
  it has subscribed. \<open>ad_history\<close>, every record ever stored, and \<open>ad_lagged\<close> are for stating
  properties only. With \<open>ordered\<close> the sends happen in the order of the stores, as when no two
  connections end at the same time.
\<close>

record admin_state =
  ad_log :: conn_log
  ad_pending :: "conn_record list"
  ad_queue :: "conn_record list option"
  ad_viewer :: "viewer option"
  ad_history :: "conn_record list"
  ad_lagged :: bool

definition admin_start :: "nat \<Rightarrow> admin_state" where
  "admin_start capacity =
     \<lparr>ad_log = log_with_capacity capacity, ad_pending = [], ad_queue = None, ad_viewer = None,
      ad_history = [], ad_lagged = False\<rparr>"

inductive admin_step :: "bool \<Rightarrow> admin_state \<Rightarrow> admin_state \<Rightarrow> bool" for ordered where
  store: "publisher_store False r (ad_log s) = Some (stored, l) \<Longrightarrow>
    admin_step ordered s (s\<lparr>ad_log := l, ad_pending := ad_pending s @ [stored],
                           ad_history := ad_history s @ [stored]\<rparr>)"
| send_unheard: "ad_pending s = xs @ r # ys \<Longrightarrow> (ordered \<Longrightarrow> xs = []) \<Longrightarrow> ad_queue s = None \<Longrightarrow>
    admin_step ordered s (s\<lparr>ad_pending := xs @ ys\<rparr>)"
| send: "ad_pending s = xs @ r # ys \<Longrightarrow> (ordered \<Longrightarrow> xs = []) \<Longrightarrow> ad_queue s = Some q \<Longrightarrow>
    broadcast_send r q = (q', lag) \<Longrightarrow>
    admin_step ordered s (s\<lparr>ad_pending := xs @ ys, ad_queue := Some q',
                           ad_lagged := (ad_lagged s \<or> lag)\<rparr>)"
| subscribe: "ad_queue s = None \<Longrightarrow> admin_step ordered s (s\<lparr>ad_queue := Some []\<rparr>)"
| snapshot: "ad_queue s = Some q \<Longrightarrow> ad_viewer s = None \<Longrightarrow>
    admin_step ordered s (s\<lparr>ad_viewer := Some (viewer_start (publisher_snapshot False (ad_log s)))\<rparr>)"
| recv: "ad_queue s = Some (r # q) \<Longrightarrow> ad_viewer s = Some v \<Longrightarrow>
    admin_step ordered s (s\<lparr>ad_queue := Some q, ad_viewer := Some (viewer_recv r v)\<rparr>)"

inductive_cases admin_stepE: "admin_step ordered s s'"

abbreviation admin_run :: "bool \<Rightarrow> admin_state \<Rightarrow> admin_state \<Rightarrow> bool" where
  "admin_run ordered \<equiv> (admin_step ordered)\<^sup>*\<^sup>*"

text \<open>The records among the lines written.\<close>

definition written :: "viewer \<Rightarrow> conn_record list" where
  "written v = List.map_filter (\<lambda>l. case l of Record_Line r \<Rightarrow> Some r | End_Line n \<Rightarrow> None) (vw_lines v)"

section \<open>The viewer on its own\<close>

definition uncovered :: "nat option \<Rightarrow> conn_record list \<Rightarrow> conn_record list" where
  "uncovered h rs = filter (\<lambda>r. case h of None \<Rightarrow> True | Some k \<Rightarrow> k < lr_seq r) rs"

lemma uncovered_simps [simp]:
  "uncovered h [] = []"
  "uncovered h (xs @ ys) = uncovered h xs @ uncovered h ys"
  "uncovered None rs = rs"
  by (simp_all add: uncovered_def)

definition last_seq :: "conn_record list \<Rightarrow> nat option" where
  "last_seq rs = (if rs = [] then None else Some (lr_seq (last rs)))"

lemma fold_last_seq: "fold (\<lambda>r h. Some (lr_seq r)) rs h = (if rs = [] then h else last_seq rs)"
  by (induction rs arbitrary: h) (simp_all add: last_seq_def)

lemma written_simps [simp]:
  "written \<lparr>vw_highest = h, vw_lines = ls @ [Record_Line r]\<rparr> =
     written \<lparr>vw_highest = h, vw_lines = ls\<rparr> @ [r]"
  by (simp add: written_def map_filter_def)

lemma written_start:
  "written (viewer_start rs) = rs \<and> vw_highest (viewer_start rs) = last_seq rs"
proof -
  have "List.map_filter (\<lambda>l. case l of Record_Line r \<Rightarrow> Some r | End_Line n \<Rightarrow> None)
      (map Record_Line rs @ [End_Line n]) = rs" for n
    by (induction rs) (simp_all add: map_filter_simps)
  then show ?thesis
    by (simp add: viewer_start_def written_def fold_last_seq Let_def) (simp add: last_seq_def)
qed

lemma written_recv:
  "written (viewer_recv r v) = written v @ uncovered (vw_highest v) [r]"
  "vw_highest (viewer_recv r v) =
     (if uncovered (vw_highest v) [r] = [] then vw_highest v else Some (lr_seq r))"
  by (auto simp: viewer_recv_def uncovered_def written_def map_filter_def split: option.splits)

definition viewer_ok :: "viewer \<Rightarrow> bool" where
  "viewer_ok v \<longleftrightarrow>
     sorted_wrt (<) (map lr_seq (written v)) \<and> vw_highest v = last_seq (written v)"

lemma viewer_ok_start: "sorted_wrt (<) (map lr_seq rs) \<Longrightarrow> viewer_ok (viewer_start rs)"
  by (simp add: viewer_ok_def written_start)

lemma sorted_snoc:
  assumes "sorted_wrt (<) (map lr_seq rs)" and "uncovered (last_seq rs) [r] \<noteq> []"
  shows "sorted_wrt (<) (map lr_seq (rs @ [r]))"
proof (cases rs rule: rev_cases)
  case (snoc xs x)
  then have "lr_seq x < lr_seq r" and "\<forall>y \<in> set xs. lr_seq y < lr_seq x"
    using assms by (simp_all add: uncovered_def last_seq_def sorted_wrt_append split: if_splits)
  then have "\<forall>y \<in> set rs. lr_seq y < lr_seq r"
    using snoc order.strict_trans by auto
  with assms(1) show ?thesis
    by (simp add: sorted_wrt_append)
qed simp

lemma viewer_ok_recv: "viewer_ok v \<Longrightarrow> viewer_ok (viewer_recv r v)"
proof (cases "uncovered (vw_highest v) [r] = []")
  case False
  then have "uncovered (vw_highest v) [r] = [r]"
    by (auto simp: uncovered_def split: if_splits)
  moreover assume "viewer_ok v"
  ultimately show ?thesis
    using sorted_snoc [of "written v" r] by (simp add: viewer_ok_def written_recv last_seq_def)
qed (simp add: viewer_ok_def written_recv)

lemma viewer_ok_loop: "viewer_ok v \<Longrightarrow> viewer_ok (viewer_loop es v)"
  by (induction es v rule: viewer_loop.induct) (simp_all add: viewer_ok_recv)

section \<open>Every interleaving\<close>

lemma publisher_store_Some:
  "publisher_store p r l = Some (r', l') \<longleftrightarrow>
     \<not> p \<and> r' = r\<lparr>lr_seq := cl_next_seq l\<rparr> \<and> l' = log_store r' (l\<lparr>cl_next_seq := Suc (cl_next_seq l)\<rparr>)"
  by (auto simp: publisher_store_def log_push_store Let_def)

definition history_ok :: "admin_state \<Rightarrow> bool" where
  "history_ok s \<longleftrightarrow>
     map lr_seq (ad_history s) = [0..<cl_next_seq (ad_log s)] \<and>
     suffix (cl_records (ad_log s)) (ad_history s) \<and> 0 < cl_capacity (ad_log s) \<and>
     (ad_history s \<noteq> [] \<longrightarrow> cl_records (ad_log s) \<noteq> [])"

lemma history_ok_start: "history_ok (admin_start n)"
  by (simp add: history_ok_def admin_start_def log_with_capacity_def)

lemma history_ok_step:
  assumes "admin_step ord s s'" and "history_ok s"
  shows "history_ok s'"
  using assms
proof cases
  case (store r stored l)
  let ?n = "cl_next_seq (ad_log s)"
  have l: "l = log_store stored (ad_log s\<lparr>cl_next_seq := Suc ?n\<rparr>)" and st: "lr_seq stored = ?n"
    using store(2) by (auto simp: publisher_store_Some)
  let ?rs = "cl_records (ad_log s) @ [stored]"
  have r: "cl_records l = drop (length ?rs - cl_capacity (ad_log s)) ?rs"
    by (simp add: l log_store_def evict_front_drop)
  have "suffix ?rs (ad_history s @ [stored])"
    using assms(2) by (auto simp: history_ok_def suffix_def)
  then have "suffix (cl_records l) (ad_history s @ [stored])"
    unfolding r using suffix_drop suffix_order.trans by blast
  moreover have "cl_records l \<noteq> []"
    using assms(2) unfolding r by (simp add: history_ok_def)
  ultimately show ?thesis
    using assms(2) store(1) st by (simp add: history_ok_def l log_store_def)
qed (auto simp: history_ok_def)

lemma history_sorted: "history_ok s \<Longrightarrow> sorted_wrt (<) (map lr_seq (ad_history s))"
  by (simp add: history_ok_def strict_sorted_iff)

lemma suffix_sorted:
  "suffix xs ys \<Longrightarrow> sorted_wrt (<) (map lr_seq ys) \<Longrightarrow> sorted_wrt (<) (map lr_seq xs)"
  by (auto simp: suffix_def sorted_wrt_append)

definition viewers_ok :: "admin_state \<Rightarrow> bool" where
  "viewers_ok s \<longleftrightarrow> history_ok s \<and> (\<forall>v. ad_viewer s = Some v \<longrightarrow> viewer_ok v)"

lemma viewers_ok_step:
  assumes "admin_step ord s s'" and "viewers_ok s"
  shows "viewers_ok s'"
proof -
  have h: "history_ok s'"
    using history_ok_step [OF assms(1)] assms(2) by (simp add: viewers_ok_def)
  from assms(1) have "\<forall>v. ad_viewer s' = Some v \<longrightarrow> viewer_ok v"
  proof cases
    case (snapshot q)
    have "sorted_wrt (<) (map lr_seq (cl_records (ad_log s)))"
      using assms(2) suffix_sorted [OF _ history_sorted [of s]]
      by (simp add: viewers_ok_def history_ok_def)
    then show ?thesis
      by (simp add: snapshot publisher_snapshot_def log_snapshot_def viewer_ok_start)
  next
    case (recv r q v)
    then show ?thesis
      using assms(2) viewer_ok_recv by (simp add: viewers_ok_def)
  qed (use assms(2) in \<open>simp_all add: viewers_ok_def\<close>)
  with h show ?thesis by (simp add: viewers_ok_def)
qed

lemma viewers_ok_run: "admin_run ord (admin_start n) s \<Longrightarrow> viewers_ok s"
proof (induction rule: rtranclp_induct)
  case base
  then show ?case using history_ok_start by (simp add: viewers_ok_def admin_start_def)
next
  case (step s s')
  then show ?case using viewers_ok_step by blast
qed

section \<open>Sends in the order of the stores\<close>

text \<open>
  While nothing lagged, what the receiver and the unsent records hold is the latest part of the
  history, and with what the viewer has written it makes a contiguous part of it.
\<close>

definition delivery_ok :: "admin_state \<Rightarrow> bool" where
  "delivery_ok s \<longleftrightarrow>
     (let q = (case ad_queue s of None \<Rightarrow> [] | Some q \<Rightarrow> q) in
      suffix (q @ ad_pending s) (ad_history s) \<and>
      (case ad_viewer s of None \<Rightarrow> True
       | Some v \<Rightarrow> suffix (written v @ uncovered (vw_highest v) (q @ ad_pending s)) (ad_history s) \<and>
           (\<forall>k. vw_highest v = Some k \<longrightarrow> k < cl_next_seq (ad_log s))))"

definition delivery :: "admin_state \<Rightarrow> bool" where
  "delivery s \<longleftrightarrow> viewers_ok s \<and> (ad_viewer s \<noteq> None \<longrightarrow> ad_queue s \<noteq> None) \<and>
     (\<not> ad_lagged s \<longrightarrow> delivery_ok s)"

lemmas delivery_defs = delivery_def delivery_ok_def Let_def

lemma suffix_snoc: "suffix xs ys \<Longrightarrow> suffix (xs @ [x]) (ys @ [x])"
  by (auto simp: suffix_def)

lemma delivery_store:
  assumes "publisher_store False r (ad_log s) = Some (stored, l)" and "delivery_ok s"
  shows "delivery_ok (s\<lparr>ad_log := l, ad_pending := ad_pending s @ [stored],
    ad_history := ad_history s @ [stored]\<rparr>)"
proof -
  have st: "lr_seq stored = cl_next_seq (ad_log s)" "cl_next_seq l = Suc (cl_next_seq (ad_log s))"
    using assms(1) by (auto simp: publisher_store_Some log_store_def)
  have u: "uncovered h [stored] = [stored]" if "\<forall>k. h = Some k \<longrightarrow> k < cl_next_seq (ad_log s)" for h
    using that st(1) by (cases h) (simp_all add: uncovered_def)
  show ?thesis
    using assms(2) st(2) u suffix_snoc [where x = stored]
    by (auto simp: delivery_ok_def Let_def simp flip: append_assoc split: option.splits
        intro: less_SucI)
qed

lemma delivery_snapshot:
  assumes "viewers_ok s" and "delivery_ok s" and "ad_queue s = Some q"
  shows "delivery_ok (s\<lparr>ad_viewer := Some (viewer_start (publisher_snapshot False (ad_log s)))\<rparr>)"
proof -
  let ?rs = "cl_records (ad_log s)" and ?h = "ad_history s"
  have h: "map lr_seq ?h = [0..<cl_next_seq (ad_log s)]" "suffix ?rs ?h" "?h \<noteq> [] \<longrightarrow> ?rs \<noteq> []"
    using assms(1) by (simp_all add: viewers_ok_def history_ok_def)
  have w: "written (viewer_start (publisher_snapshot False (ad_log s))) = ?rs"
    "vw_highest (viewer_start (publisher_snapshot False (ad_log s))) = last_seq ?rs"
    by (simp_all add: written_start publisher_snapshot_def log_snapshot_def)
  have q: "suffix (q @ ad_pending s) ?h"
    using assms(2,3) by (simp add: delivery_ok_def Let_def)
  have l: "lr_seq r < cl_next_seq (ad_log s)" if "r \<in> set ?h" for r
    using that h(1) by (metis atLeastLessThan_iff image_eqI set_map set_upt)
  have "uncovered (last_seq ?rs) (q @ ad_pending s) = []"
  proof (cases "?h = []")
    case True
    with q show ?thesis by simp
  next
    case False
    with h(2,3) have "last ?rs = last ?h"
      by (auto simp: suffix_def)
    with False have "lr_seq (last ?rs) = last (map lr_seq ?h)"
      by (simp add: last_map)
    also have "\<dots> = cl_next_seq (ad_log s) - 1"
      using False h(1) by (metis last_upt map_is_Nil_conv upt_eq_Nil_conv not_gr_zero)
    finally have e: "lr_seq (last ?rs) = cl_next_seq (ad_log s) - 1" .
    have "set (q @ ad_pending s) \<subseteq> set ?h"
      using q set_mono_suffix by blast
    then have "lr_seq r \<le> lr_seq (last ?rs)" if "r \<in> set (q @ ad_pending s)" for r
      using that l unfolding e by (metis Suc_pred' le_simps(2) less_nat_zero_code not_gr_zero subsetD)
    with h(3) False show ?thesis
      by (auto simp: uncovered_def last_seq_def filter_empty_conv not_less)
  qed
  moreover have "k < cl_next_seq (ad_log s)" if "last_seq ?rs = Some k" for k
    using that h(2) l by (auto simp: last_seq_def suffix_def split: if_splits)
  ultimately show ?thesis
    using q h(2) assms(3) by (simp add: delivery_ok_def Let_def w)
qed

text \<open>A record above everything a viewer has seen leaves the later ones uncovered.\<close>

lemma uncovered_above:
  assumes "\<forall>x \<in> set rs. lr_seq r < lr_seq x" and "uncovered h [r] = [r]"
  shows "uncovered (Some (lr_seq r)) rs = rs" and "uncovered h rs = rs"
    and "uncovered h (r # rs) = r # rs"
proof -
  show "uncovered (Some (lr_seq r)) rs = rs"
    using assms(1) by (auto simp: uncovered_def filter_id_conv)
  show e: "uncovered h rs = rs"
  proof (cases h)
    case None
    then show ?thesis by (simp add: uncovered_def)
  next
    case (Some k)
    with assms(2) have "k < lr_seq r"
      by (simp add: uncovered_def split: if_splits)
    with assms(1) Some show ?thesis
      unfolding uncovered_def filter_id_conv by (auto intro: order.strict_trans)
  qed
  have "uncovered h (r # rs) = uncovered h [r] @ uncovered h rs"
    by (simp add: uncovered_def)
  then show "uncovered h (r # rs) = r # rs"
    by (simp add: e assms(2))
qed

lemma delivery_recv:
  assumes "viewers_ok s" and "delivery_ok s" and "ad_queue s = Some (r # q)" and "ad_viewer s = Some v"
  shows "delivery_ok (s\<lparr>ad_queue := Some q, ad_viewer := Some (viewer_recv r v)\<rparr>)"
proof -
  let ?rest = "q @ ad_pending s"
  have s: "suffix (r # ?rest) (ad_history s)" "suffix (written v @ uncovered (vw_highest v) (r # ?rest)) (ad_history s)"
    "\<forall>k. vw_highest v = Some k \<longrightarrow> k < cl_next_seq (ad_log s)"
    using assms(2-4) by (auto simp: delivery_ok_def Let_def uncovered_def split: if_splits)
  have "sorted_wrt (<) (map lr_seq (r # ?rest))"
    using suffix_sorted [OF s(1)] history_sorted assms(1) by (simp add: viewers_ok_def)
  then have gt: "\<forall>x \<in> set ?rest. lr_seq r < lr_seq x"
    by auto
  have rn: "lr_seq r < cl_next_seq (ad_log s)"
  proof -
    have "r \<in> set (ad_history s)" using s(1) by (auto simp: suffix_def)
    moreover have "set (map lr_seq (ad_history s)) = {0..<cl_next_seq (ad_log s)}"
      using assms(1) by (simp add: viewers_ok_def history_ok_def)
    ultimately show ?thesis by auto
  qed
  have rest: "suffix ?rest (ad_history s)"
    using s(1) by (auto simp: suffix_def)
  show ?thesis
  proof (cases "uncovered (vw_highest v) [r] = []")
    case True
    have e: "uncovered (vw_highest v) (r # ?rest) = uncovered (vw_highest v) ?rest"
      using True by (simp add: uncovered_def split: if_splits)
    have "suffix (written v @ uncovered (vw_highest v) ?rest) (ad_history s)"
      using s(2) unfolding e .
    then show ?thesis
      using rest s(3) True by (simp add: delivery_ok_def Let_def written_recv)
  next
    case False
    then have r: "uncovered (vw_highest v) [r] = [r]"
      by (auto simp: uncovered_def split: if_splits)
    from uncovered_above [OF gt r] show ?thesis
      using rest s(2) rn r by (simp add: delivery_ok_def Let_def written_recv)
  qed
qed

lemma delivery_step:
  assumes "admin_step True s s'" and "delivery s"
  shows "delivery s'"
proof -
  have v: "viewers_ok s'"
    using viewers_ok_step [OF assms(1)] assms(2) by (simp add: delivery_def)
  have s: "viewers_ok s" "ad_viewer s \<noteq> None \<longrightarrow> ad_queue s \<noteq> None" "\<not> ad_lagged s \<longrightarrow> delivery_ok s"
    using assms(2) by (simp_all add: delivery_def)
  from assms(1) have "(ad_viewer s' \<noteq> None \<longrightarrow> ad_queue s' \<noteq> None) \<and> (\<not> ad_lagged s' \<longrightarrow> delivery_ok s')"
  proof cases
    case (store r stored l)
    with s delivery_store [OF store(2)] show ?thesis by simp
  next
    case (send_unheard xs r ys)
    with s have "ad_viewer s = None" "xs = []" by auto
    with send_unheard s show ?thesis
      by (auto simp: delivery_ok_def Let_def suffix_def)
  next
    case (send xs r ys q q' lag)
    then have "xs = []" by simp
    moreover from send(5) have "\<not> lag \<Longrightarrow> q' = q @ [r]"
      by (simp add: broadcast_send_def split: if_splits)
    ultimately show ?thesis
      using send s by (auto simp: delivery_ok_def Let_def split: option.splits)
  next
    case subscribe
    with s show ?thesis
      by (auto simp: delivery_ok_def Let_def split: option.splits)
  next
    case (snapshot q)
    with s delivery_snapshot show ?thesis by simp
  next
    case (recv r q v)
    with s delivery_recv show ?thesis by simp
  qed
  with v show ?thesis by (simp add: delivery_def)
qed

lemma delivery_run: "admin_run True (admin_start n) s \<Longrightarrow> delivery s"
proof (induction rule: rtranclp_induct)
  case base
  have "viewers_ok (admin_start n)"
    using viewers_ok_run by blast
  then show ?case by (simp add: delivery_def delivery_ok_def admin_start_def Let_def)
next
  case (step s s')
  then show ?case using delivery_step by blast
qed

section \<open>Properties\<close>

text \<open>
  A viewer is never told of a connection twice nor out of order: whatever the history it
  is given and whatever the channel delivers, drops or repeats, the sequence numbers of the
  records it is written strictly increase, when the history's do.
\<close>

theorem viewer_lines_increase:
  assumes "sorted_wrt (<) (map lr_seq snapshot)"
  shows "sorted_wrt (<) (map lr_seq (List.map_filter
    (\<lambda>l. case l of Record_Line r \<Rightarrow> Some r | End_Line n \<Rightarrow> None) (handle_client snapshot events)))"
  using viewer_ok_loop [OF viewer_ok_start [OF assms]]
  by (simp add: viewer_ok_def handle_client_def written_def)

definition sample_record :: conn_record where
  "sample_record =
     \<lparr>lr_seq = 0, lr_at = 5, lr_ip = ''-'', lr_ja4 = ''a'', lr_akamai = None, lr_verdict = ''b'',
      lr_score = 0, lr_mismatch = False, lr_alpn = Some ''h2'', lr_raw_hello = [1, 2],
      lr_provenance = \<lparr>pv_ciphers = \<lparr>sp_start = 1, sp_len = 4\<rparr>,
        pv_extensions = \<lparr>sp_start = 9, sp_len = 0\<rparr>, pv_per_extension = [(0x2a2a, \<lparr>sp_start = 9, sp_len = 4\<rparr>)]\<rparr>\<rparr>"

definition nth_record :: "nat \<Rightarrow> conn_record" where
  "nth_record n = sample_record\<lparr>lr_seq := n\<rparr>"

lemma nth_record_simps [simp]: "lr_seq (nth_record n) = n" "sample_record\<lparr>lr_seq := n\<rparr> = nth_record n"
  by (simp_all add: nth_record_def)

lemma viewer_lines_increase_witness:
  "sorted_wrt (<) (map lr_seq (List.map_filter
     (\<lambda>l. case l of Record_Line r \<Rightarrow> Some r | End_Line n \<Rightarrow> None)
     (handle_client [nth_record 3] [Received (nth_record 3), Received (nth_record 9), Received (nth_record 4)])))"
  by (rule viewer_lines_increase) simp


text \<open>The state after each step of a run, written as a function of the steps taken.\<close>

definition store_next :: "admin_state \<Rightarrow> admin_state" where
  "store_next s =
     (let r = nth_record (cl_next_seq (ad_log s)) in
      s\<lparr>ad_log := log_store r (ad_log s\<lparr>cl_next_seq := Suc (cl_next_seq (ad_log s))\<rparr>),
        ad_pending := ad_pending s @ [r], ad_history := ad_history s @ [r]\<rparr>)"

lemma store_next_step: "admin_step ord s (store_next s)"
proof -
  have "publisher_store False sample_record (ad_log s) =
      Some (nth_record (cl_next_seq (ad_log s)), ad_log (store_next s))"
    by (simp add: publisher_store_Some store_next_def Let_def)
  from admin_step.store [OF this, of ord] show ?thesis
    by (simp add: store_next_def Let_def)
qed

lemma quiet_run:
  fixes s :: admin_state
  assumes "ad_pending s = [r]" and "ad_queue s = Some []" and "ad_viewer s = Some v"
  shows "admin_run ord s (s\<lparr>ad_pending := [], ad_queue := Some [], ad_viewer := Some (viewer_recv r v)\<rparr>)"
proof -
  let ?t = "s\<lparr>ad_pending := [], ad_queue := Some [r], ad_lagged := ad_lagged s\<rparr>"
  have "admin_step ord s ?t"
    using admin_step.send [of s "[]" r "[]" ord "[]" "[r]" False] assms
    by (simp add: broadcast_send_def BROADCAST_DEPTH_def)
  moreover have "admin_step ord ?t (?t\<lparr>ad_queue := Some [], ad_viewer := Some (viewer_recv r v)\<rparr>)"
    by (rule admin_step.recv) (simp_all add: assms)
  ultimately show ?thesis
    by (auto intro: converse_rtranclp_into_rtranclp)
qed

definition watching :: "nat \<Rightarrow> admin_state" where
  "watching n = (admin_start n)\<lparr>ad_queue := Some [], ad_viewer := Some (viewer_start [])\<rparr>"

lemma watching_run: "admin_run ord (admin_start n) (watching n)"
proof -
  have "admin_step ord (admin_start n) ((admin_start n)\<lparr>ad_queue := Some []\<rparr>)"
    by (rule admin_step.subscribe) (simp add: admin_start_def)
  moreover have "admin_step ord ((admin_start n)\<lparr>ad_queue := Some []\<rparr>) (watching n)"
    using admin_step.snapshot [of "(admin_start n)\<lparr>ad_queue := Some []\<rparr>" "[]" ord]
    by (simp add: watching_def admin_start_def publisher_snapshot_def log_snapshot_def log_with_capacity_def)
  ultimately show ?thesis by (auto intro: converse_rtranclp_into_rtranclp)
qed


text \<open>
  Overlapping pushes can lose a record for a viewer that is keeping up: two connections end
  together, the second's send overtakes the first's, and the viewer drops the first for good
  as already covered, though nothing lagged and it subscribed before either was stored.
\<close>

theorem overtaken_record_lost:
  "\<exists>s v. admin_run False (admin_start n) s \<and> ad_pending s = [] \<and> ad_queue s = Some [] \<and>
     \<not> ad_lagged s \<and> ad_viewer s = Some v \<and> map lr_seq (ad_history s) = [0, 1] \<and>
     map lr_seq (written v) = [1]"
proof -
  let ?a = "nth_record 0" and ?b = "nth_record 1"
  let ?s2 = "store_next (store_next (watching n))"
  have 2: "ad_pending ?s2 = [?a, ?b]" "ad_queue ?s2 = Some []" "ad_viewer ?s2 = Some (viewer_start [])"
    "ad_history ?s2 = [?a, ?b]" "\<not> ad_lagged ?s2"
    by (simp_all add: store_next_def watching_def admin_start_def log_with_capacity_def log_store_def Let_def)
  let ?s3 = "?s2\<lparr>ad_pending := [?a], ad_queue := Some [?b], ad_lagged := ad_lagged ?s2\<rparr>"
  have 3: "admin_step False ?s2 ?s3"
    using admin_step.send [of ?s2 "[?a]" ?b "[]" False "[]" "[?b]" False] 2
    by (simp add: broadcast_send_def BROADCAST_DEPTH_def)
  let ?v4 = "viewer_recv ?b (viewer_start [])"
  let ?s4 = "?s3\<lparr>ad_queue := Some [], ad_viewer := Some ?v4\<rparr>"
  have 4: "admin_step False ?s3 ?s4"
    by (rule admin_step.recv) (simp_all add: 2)
  let ?s5 = "?s4\<lparr>ad_pending := [], ad_queue := Some [], ad_viewer := Some (viewer_recv ?a ?v4)\<rparr>"
  have 5: "admin_run False ?s4 ?s5"
    by (rule quiet_run) (simp_all add: 2)
  have "admin_run False (admin_start n) ?s2"
    using watching_run [of False n] store_next_step [of False] rtranclp.rtrancl_into_rtrancl by metis
  then have "admin_run False (admin_start n) ?s5"
    using 3 4 5 by (meson rtranclp.rtrancl_into_rtrancl rtranclp_trans)
  moreover have "map lr_seq (written (viewer_recv ?a ?v4)) = [1]"
    by (simp add: written_recv written_start last_seq_def uncovered_def)
  ultimately show ?thesis
    using 2 by (intro exI [of _ ?s5] exI [of _ "viewer_recv ?a ?v4"]) simp
qed

end
