(* ===== verification/Tui_Source.thy ===== *)
theory Tui_Source
  imports Admin
begin

text \<open>
  Where the viewer's rows come from, \<open>fpd/src/tui/source.rs\<close>: the rows, the reader of one line of
  the admin protocol, and the two sources, attaching to a server and listening in process. The
  reader of JSON text is the parameter \<open>parse\<close>. The lemmas show that the two sources describe
  a connection alike.
\<close>

record row =
  rw_seq :: nat
  rw_at_ms :: nat
  rw_ip :: string
  rw_ja4 :: string
  rw_verdict :: string
  rw_score :: rat
  rw_mismatch :: bool
  rw_alpn :: "string option"
  rw_akamai :: "string option"
  rw_raw :: bytes
  rw_ciphers :: span
  rw_extensions :: span
  rw_cipher_count :: nat
  rw_ext_count :: nat
  rw_grease_ext :: "span list"

datatype tui_frame = Record_Frame row | SnapshotEnd

definition unwrap_or :: "'a \<Rightarrow> 'a option \<Rightarrow> 'a" where
  "unwrap_or d x = (case x of None \<Rightarrow> d | Some v \<Rightarrow> v)"

definition span_of :: "json \<Rightarrow> span" where
  "span_of v =
     \<lparr>sp_start = unwrap_or 0 (as_u64 (json_get v ''start'')),
      sp_len = unwrap_or 0 (as_u64 (json_get v ''len''))\<rparr>"

text \<open>\<open>id as u16\<close> keeps the low sixteen bits.\<close>

definition grease_entry :: "json \<Rightarrow> bool" where
  "grease_entry e = (case as_u64 (json_nth e 0) of None \<Rightarrow> False | Some n \<Rightarrow> is_grease (of_nat n))"

definition parse_record :: "json \<Rightarrow> row option" where
  "parse_record v =
     (let prov = json_get v ''provenance'';
          per_ext = as_array (json_get prov ''per_extension'');
          grease_ext = unwrap_or [] (map_option (\<lambda>items.
            map (\<lambda>e. span_of (json_nth e 1)) (filter grease_entry items)) per_ext)
      in Option.bind (as_u64 (json_get v ''seq'')) (\<lambda>s.
         Some \<lparr>rw_seq = s,
               rw_at_ms = unwrap_or 0 (as_u64 (json_get v ''at_ms'')),
               rw_ip = unwrap_or ''-'' (as_str (json_get v ''ip'')),
               rw_ja4 = unwrap_or [] (as_str (json_get v ''ja4'')),
               rw_verdict = unwrap_or ''unknown'' (as_str (json_get v ''verdict'')),
               rw_score = f32_round (unwrap_or 0 (as_f64 (json_get v ''score''))),
               rw_mismatch = unwrap_or False (as_bool (json_get v ''mismatch'')),
               rw_alpn = as_str (json_get v ''alpn''),
               rw_akamai = as_str (json_get v ''akamai''),
               rw_raw = decode_base64 (unwrap_or [] (as_str (json_get v ''raw_hello''))),
               rw_ciphers = span_of (json_get prov ''ciphers''),
               rw_extensions = span_of (json_get prov ''extensions''),
               rw_cipher_count = 0,
               rw_ext_count = unwrap_or 0 (map_option length per_ext),
               rw_grease_ext = grease_ext\<rparr>))"

definition parse_frame :: "(string \<Rightarrow> json option) \<Rightarrow> string \<Rightarrow> tui_frame option" where
  "parse_frame parse line =
     Option.bind (parse line) (\<lambda>v.
     Option.bind (as_str (json_get v ''type'')) (\<lambda>kind.
     if kind = ''snapshot_end'' then Some SnapshotEnd
     else if kind = ''record'' then map_option Record_Frame (parse_record v)
     else None))"

definition row_from_report :: "int \<Rightarrow> nat \<Rightarrow> string \<Rightarrow> client_report \<Rightarrow> identification \<Rightarrow> row" where
  "row_from_report now xseq ip report idn =
     (let p = tf_provenance (cr_tls report);
          (verdict, score) =
            (case id_best idn of Some b \<Rightarrow> (cd_label b, cd_score b) | None \<Rightarrow> (''unknown'', 0))
      in \<lparr>rw_seq = xseq, rw_at_ms = epoch_ms now, rw_ip = ip, rw_ja4 = tf_ja4 (cr_tls report),
          rw_verdict = verdict, rw_score = score, rw_mismatch = (id_mismatch idn \<noteq> None),
          rw_alpn = cr_alpn report, rw_akamai = map_option hf_akamai (cr_h2 report),
          rw_raw = cr_raw_hello report, rw_ciphers = pv_ciphers p, rw_extensions = pv_extensions p,
          rw_cipher_count = length (tf_ciphers (cr_tls report)),
          rw_ext_count = length (tf_extensions (cr_tls report)),
          rw_grease_ext =
            map snd (filter (\<lambda>(xid, _). is_grease xid) (pv_per_extension p))\<rparr>)"

definition ciphers_len :: "row \<Rightarrow> nat" where
  "ciphers_len r = (if 0 < rw_cipher_count r then rw_cipher_count r else sp_len (rw_ciphers r) div 2)"

text \<open>The rows an attached viewer gets from the lines of the socket, and the listening one's.\<close>

definition attach_rows :: "(string \<Rightarrow> json option) \<Rightarrow> string list \<Rightarrow> row list" where
  "attach_rows parse lines =
     List.map_filter (\<lambda>l. case parse_frame parse l of Some (Record_Frame r) \<Rightarrow> Some r | _ \<Rightarrow> None) lines"

fun listen_rows :: "profile_db \<Rightarrow> nat \<Rightarrow> (int \<times> client_report) list \<Rightarrow> row list" where
  "listen_rows db s [] = []"
| "listen_rows db s ((now, report) # rest) =
     row_from_report now s ''127.0.0.1'' report (identify report db) # listen_rows db (s + 1) rest"

section \<open>Reading a record back\<close>

text \<open>What a viewer knows of a record.\<close>

definition row_of_record :: "conn_record \<Rightarrow> row" where
  "row_of_record r =
     \<lparr>rw_seq = lr_seq r, rw_at_ms = epoch_ms (lr_at r), rw_ip = lr_ip r, rw_ja4 = lr_ja4 r,
      rw_verdict = lr_verdict r, rw_score = f32_round (lr_score r), rw_mismatch = lr_mismatch r,
      rw_alpn = lr_alpn r, rw_akamai = lr_akamai r, rw_raw = lr_raw_hello r,
      rw_ciphers = pv_ciphers (lr_provenance r), rw_extensions = pv_extensions (lr_provenance r),
      rw_cipher_count = 0, rw_ext_count = length (pv_per_extension (lr_provenance r)),
      rw_grease_ext =
        map snd (filter (\<lambda>(xid, _). is_grease xid) (pv_per_extension (lr_provenance r)))\<rparr>"

lemma span_of_json [simp]: "span_of (span_json s) = s"
  by (simp add: span_of_def span_json_def unwrap_or_def)

lemma grease_entries:
  "map (\<lambda>e. span_of (json_nth e 1)) (filter grease_entry
     (map (\<lambda>(xid, sp). JArr [JUInt (unat xid), span_json sp]) ps)) =
   map snd (filter (\<lambda>(xid, _). is_grease xid) ps)"
  by (induction ps) (auto simp: grease_entry_def)

lemma parse_record_json: "parse_record (record_json r) = Some (row_of_record r)"
  by (simp add: parse_record_def record_json_def row_of_record_def unwrap_or_def Let_def
      decode_encoded grease_entries del: One_nat_def)

lemma record_json_type: "as_str (json_get (record_json r) ''type'') = Some ''record''"
  by (simp add: record_json_def)

lemma parse_frame_record:
  "parse txt = Some (record_json r) \<Longrightarrow> parse_frame parse txt = Some (Record_Frame (row_of_record r))"
  by (simp add: parse_frame_def parse_record_json record_json_type)

lemma parse_frame_end:
  "parse txt = Some v \<Longrightarrow> as_str (json_get v ''type'') = Some ''snapshot_end'' \<Longrightarrow>
     parse_frame parse txt = Some SnapshotEnd"
  by (simp add: parse_frame_def)

section \<open>The two sources agree\<close>

lemma fingerprint_provenance:
  assumes "fingerprint sha md raw = Inr f"
  shows "sp_len (pv_ciphers (tf_provenance f)) = 2 * length (tf_ciphers f)"
    and "length (pv_per_extension (tf_provenance f)) = length (tf_extensions f)"
proof -
  from assms obtain h where h: "parse_hello raw = Inr h"
    by (auto simp: fingerprint_def res_simps)
  have "length (span_slice raw (rh_cipher_span h)) = 2 * length (rh_ciphers h)"
    using parse_hello_span_slices(2) [OF h] by (simp add: length_to_be16s)
  then have "sp_len (rh_cipher_span h) = 2 * length (rh_ciphers h)"
    using parse_hello_span_slices(1) [OF h] by (simp add: span_slice_def span_within_def)
  then show "sp_len (pv_ciphers (tf_provenance f)) = 2 * length (tf_ciphers f)"
    using assms h by (auto simp: fingerprint_def Let_def)
  show "length (pv_per_extension (tf_provenance f)) = length (tf_extensions f)"
    using assms h by (auto simp: fingerprint_def Let_def)
qed

lemma identify_score_f32:
  assumes "id_best (identify r db) = Some c"
  shows "f32_round (cd_score c) = cd_score c"
proof -
  from identify_best [OF assms] obtain p where "c = candidate_of r p" by blast
  then have "cd_score c = f32_ratio (ok_count (diff r p)) (length (df_fields (diff r p)))"
    by (simp add: candidate_of_def Let_def score_diff)
  moreover have "0 < length (df_fields (diff r p))"
    using field_count_bounds [of r p] by linarith
  ultimately show ?thesis
    using f32_round_ratio [OF ok_count_le] by metis
qed

lemma row_of_record_new:
  assumes "length (pv_per_extension (tf_provenance (cr_tls report))) = length (tf_extensions (cr_tls report))"
  shows "row_of_record (record_new now report (identify report db) ip\<lparr>lr_seq := s\<rparr>) =
    (row_from_report now s ip report (identify report db))\<lparr>rw_cipher_count := 0\<rparr>"
proof (cases "id_best (identify report db)")
  case None
  have "f32_round 0 = 0" using f32_round_ratio [of 0 1] by simp
  then show ?thesis
    using assms None by (simp add: row_of_record_def record_new_def row_from_report_def Let_def)
next
  case (Some c)
  then show ?thesis
    using assms identify_score_f32 [OF Some]
    by (simp add: row_of_record_def record_new_def row_from_report_def Let_def)
qed

lemma row_from_report_count [simp]:
  "rw_cipher_count (row_from_report now s ip report i) = length (tf_ciphers (cr_tls report))"
  by (simp add: row_from_report_def split_def Let_def)

section \<open>Properties\<close>

text \<open>
  C35. A viewer attached to the admin socket shows what a listening one shows for the same
  connection: the record, printed as JSON and read back, gives the same row, bytes, spans, score
  and GREASE marks included; only the cipher count does not travel, and the count shown is
  recovered from the span.
\<close>

theorem attached_row_agrees:
  assumes "fingerprint sha md raw = Inr (cr_tls report)"
    and "parse (print (record_json (record_new now report (identify report db) ip\<lparr>lr_seq := s\<rparr>))) =
      Some (record_json (record_new now report (identify report db) ip\<lparr>lr_seq := s\<rparr>))"
  shows "\<exists>r. parse_frame parse
      (print (record_json (record_new now report (identify report db) ip\<lparr>lr_seq := s\<rparr>))) = Some (Record_Frame r) \<and>
    r = (row_from_report now s ip report (identify report db))\<lparr>rw_cipher_count := 0\<rparr> \<and>
    ciphers_len r = ciphers_len (row_from_report now s ip report (identify report db))"
proof -
  note p = fingerprint_provenance [OF assms(1)]
  have "ciphers_len (row_from_report now s ip report i\<lparr>rw_cipher_count := 0\<rparr>) =
      ciphers_len (row_from_report now s ip report i)" for i
    using p(1) by (simp add: ciphers_len_def row_from_report_def Let_def split: option.split)
  moreover have "parse_frame parse
      (print (record_json (record_new now report (identify report db) ip\<lparr>lr_seq := s\<rparr>))) =
      Some (Record_Frame (row_of_record (record_new now report (identify report db) ip\<lparr>lr_seq := s\<rparr>)))"
    using assms(2) by (rule parse_frame_record)
  ultimately show ?thesis
    unfolding row_of_record_new [OF p(2)] by blast
qed

lemma attached_row_agrees_witness:
  "\<exists>f r. fingerprint (\<lambda>b. b) (\<lambda>b. b) (wire_bytes sample_wire) = Inr f \<and>
     parse_frame (\<lambda>_. Some (record_json (record_new 0 (sample_report\<lparr>cr_tls := f\<rparr>)
       (identify (sample_report\<lparr>cr_tls := f\<rparr>) []) ''-''\<lparr>lr_seq := 3\<rparr>))) [] = Some (Record_Frame r) \<and>
     ciphers_len r = 2"
proof -
  obtain f where f: "fingerprint (\<lambda>b. b) (\<lambda>b. b) (wire_bytes sample_wire) = Inr f"
      "tf_ciphers f = w_ciphers sample_wire"
    by (simp add: fingerprint_def sample_wire_hello Let_def wire_hello_def)
  let ?r = "sample_report\<lparr>cr_tls := f\<rparr>"
  have "length (tf_ciphers f) = 2" by (simp add: f(2) sample_wire_def)
  moreover from f(1) have "fingerprint (\<lambda>b. b) (\<lambda>b. b) (wire_bytes sample_wire) = Inr (cr_tls ?r)"
    by simp
  from attached_row_agrees [OF this, where parse = "\<lambda>_. Some (record_json (record_new 0 ?r (identify ?r []) ''-''\<lparr>lr_seq := 3\<rparr>))"
      and print = "\<lambda>_. []" and now = 0 and db = "[]" and ip = "''-''" and s = 3]
  obtain r where "parse_frame (\<lambda>_. Some (record_json (record_new 0 ?r (identify ?r []) ''-''\<lparr>lr_seq := 3\<rparr>))) [] =
      Some (Record_Frame r)" "ciphers_len r = ciphers_len (row_from_report 0 3 ''-'' ?r (identify ?r []))"
    by auto
  ultimately show ?thesis
    using f(1) by (intro exI [of _ f] exI [of _ r])
      (simp add: ciphers_len_def [of "row_from_report 0 3 ip rep i" for ip rep i])
qed

end
