(* ===== verification/Tui_Render.thy ===== *)
theory Tui_Render
  imports Tui_Source
begin

text \<open>
  What the viewer draws, \<open>fpd/src/tui/theme.rs\<close> and \<open>render.rs\<close>: the inks, the view state, and
  the lines of the screen as a function of the state and the terminal's size. Widths and heights
  are the terminal's \<open>u16\<close> values as numbers. The widget that puts lines on the terminal is
  third-party code and shows the first \<open>height\<close> of them. Unicode lower-casing, used by the
  search, is the parameter \<open>lc\<close>.
\<close>

section \<open>Inks\<close>

datatype ink = Recede | Normal | Advance | Demand

datatype modifier = DIM | BOLD | REVERSED

type_synonym style = "modifier list"

definition ink_style :: "ink \<Rightarrow> style" where
  "ink_style i = (case i of Recede \<Rightarrow> [DIM] | Normal \<Rightarrow> [] | Advance \<Rightarrow> [BOLD] | Demand \<Rightarrow> [REVERSED])"

definition bytes_per_row :: "nat \<Rightarrow> nat option" where
  "bytes_per_row width = (if 100 \<le> width then Some 16 else if 72 \<le> width then Some 8 else None)"

definition NARROW :: nat where "NARROW = 40"
definition SHORT :: nat where "SHORT = 20"

type_synonym tspan = "string \<times> style"
type_synonym tline = "tspan list"

abbreviation styled :: "string \<Rightarrow> ink \<Rightarrow> tspan" where
  "styled s i \<equiv> (s, ink_style i)"

abbreviation raw_span :: "string \<Rightarrow> tspan" where
  "raw_span s \<equiv> (s, [])"

abbreviation blank_line :: tline where
  "blank_line \<equiv> [raw_span []]"

section \<open>The view state\<close>

record tui_state =
  st_rows :: "row list"
  st_selected :: nat
  st_follow :: bool
  st_search :: string
  st_searching :: bool
  st_source_label :: string
  st_dropped :: bool
  st_exported :: "string option"

definition state_new :: "string \<Rightarrow> tui_state" where
  "state_new source_label =
     \<lparr>st_rows = [], st_selected = 0, st_follow = True, st_search = [], st_searching = False,
      st_source_label = source_label, st_dropped = False, st_exported = None\<rparr>"

definition visible :: "(string \<Rightarrow> string) \<Rightarrow> tui_state \<Rightarrow> row list" where
  "visible lc s =
     (if st_search s = [] then st_rows s
      else
        let needle = lc (st_search s) in
        filter (\<lambda>r. str_contains (lc (rw_ip r)) needle \<or> str_contains (lc (rw_ja4 r)) needle
                  \<or> str_contains (lc (rw_verdict r)) needle) (st_rows s))"

definition alerts :: "tui_state \<Rightarrow> nat" where
  "alerts s = length (filter rw_mismatch (st_rows s))"

definition current :: "(string \<Rightarrow> string) \<Rightarrow> tui_state \<Rightarrow> row option" where
  "current lc s = (let v = visible lc s in get_at v (min (st_selected s) (length v - 1)))"

section \<open>Pieces of a line\<close>

definition within_span :: "span \<Rightarrow> nat \<Rightarrow> bool" where
  "within_span s offset \<longleftrightarrow> sp_start s \<le> offset \<and> offset < sp_start s + sp_len s"

definition feeds_fingerprint :: "row \<Rightarrow> nat \<Rightarrow> bool" where
  "feeds_fingerprint r offset \<longleftrightarrow> within_span (rw_ciphers r) offset \<or> within_span (rw_extensions r) offset"

definition hhmmss :: "nat \<Rightarrow> string" where
  "hhmmss at_ms =
     (let secs = at_ms div 1000 in
      pad_zero 2 (dec_string (secs div 3600 mod 24)) @ '':'' @
      pad_zero 2 (dec_string (secs div 60 mod 60)) @ '':'' @ pad_zero 2 (dec_string (secs mod 60)))"

text \<open>\<open>s.chars().take(n)\<close>: a character ends before the next byte that is no continuation byte.\<close>

fun take_chars :: "nat \<Rightarrow> string \<Rightarrow> string" where
  "take_chars n [] = []"
| "take_chars n (c # s) =
     (if is_cont (char_byte c) then c # take_chars n s
      else case n of 0 \<Rightarrow> [] | Suc m \<Rightarrow> c # take_chars m s)"

definition truncate_str :: "string \<Rightarrow> nat \<Rightarrow> string" where
  "truncate_str s n = (if chars_count s \<le> n then s else take_chars n s)"

definition utf8_text :: "bytes \<Rightarrow> string" where
  "utf8_text bs = bytes_str bs"

definition rule_line :: "nat \<Rightarrow> tline" where
  "rule_line width = [styled (concat (replicate (width - 2) (utf8_text [0xE2, 0x94, 0x80]))) Recede]"

section \<open>The table\<close>

definition table_line :: "nat \<Rightarrow> bool \<Rightarrow> row \<Rightarrow> tline" where
  "table_line width selected r =
     (let ja4 = (if 100 \<le> width then rw_ja4 r else truncate_str (rw_ja4 r) 18);
          txt =
            (if width < NARROW then ja4 @ ''  '' @ truncate_str (rw_verdict r) 12
             else hhmmss (rw_at_ms r) @ ''   '' @ pad_right 15 (truncate_str (rw_ip r) 15) @ ''  ''
               @ pad_right 38 ja4 @ ''  '' @ truncate_str (rw_verdict r) 18
               @ (if rw_mismatch r then ''  '' @ utf8_text [0xE2, 0x9C, 0x97] else []))
      in [styled txt (if selected then Demand else Normal)])"

definition table_lines :: "(string \<Rightarrow> string) \<Rightarrow> tui_state \<Rightarrow> nat \<Rightarrow> nat \<Rightarrow> tline list" where
  "table_lines lc s width height =
     (let v = visible lc s; start = length v - height in
      map (\<lambda>(i, r). table_line width (i = min (st_selected s) (length v - 1)) r)
        (drop start (enumerate 0 v)))"

section \<open>The hex pane\<close>

definition within_row :: "nat \<Rightarrow> nat \<Rightarrow> nat \<Rightarrow> bool" where
  "within_row target row_start bpr \<longleftrightarrow> row_start \<le> target \<and> target < row_start + bpr"

text \<open>One byte's cell, and the space in the middle of a row.\<close>

definition hex_cell :: "row \<Rightarrow> nat \<Rightarrow> u8 \<Rightarrow> tspan" where
  "hex_cell r pos byte =
     (if feeds_fingerprint r pos then styled (pad_zero 2 (hex_string (unat byte)) @ '' '') Normal
      else styled (utf8_text [0xC2, 0xB7, 0xC2, 0xB7] @ '' '') Recede)"

fun hex_cells :: "row \<Rightarrow> nat \<Rightarrow> nat \<Rightarrow> nat list \<Rightarrow> tspan list" where
  "hex_cells r bpr offset [] = []"
| "hex_cells r bpr offset (i # is) =
     (case get_at (rw_raw r) (offset + i) of
        None \<Rightarrow> []
      | Some byte \<Rightarrow>
          hex_cell r (offset + i) byte # (if i = bpr div 2 - 1 then [raw_span '' ''] else [])
            @ hex_cells r bpr offset is)"

definition hex_label :: "row \<Rightarrow> nat \<Rightarrow> nat \<Rightarrow> string option" where
  "hex_label r offset bpr =
     (if within_row (sp_start (rw_ciphers r)) offset bpr then
        Some (''  ciphers '' @ dec_string (ciphers_len r))
      else if within_row (sp_start (rw_extensions r)) offset bpr then
        Some (''  extensions '' @ dec_string (rw_ext_count r))
      else if list_ex (\<lambda>g. within_row (sp_start g) offset bpr) (rw_grease_ext r) then
        Some ''  grease''
      else None)"

definition hex_line :: "row \<Rightarrow> nat \<Rightarrow> nat \<Rightarrow> tline" where
  "hex_line r bpr offset =
     styled (pad_zero 4 (hex_string offset) @ ''   '') Recede # hex_cells r bpr offset [0..<bpr]
     @ (case hex_label r offset bpr of None \<Rightarrow> [] | Some l \<Rightarrow> [styled l Recede])"

text \<open>The \<open>while offset < last && out.len() < max_lines\<close> loop, with the room that is left.\<close>

fun hex_loop :: "row \<Rightarrow> nat \<Rightarrow> nat \<Rightarrow> nat \<Rightarrow> nat \<Rightarrow> tline list" where
  "hex_loop r bpr final offset 0 = []"
| "hex_loop r bpr final offset (Suc room) =
     (if offset < final then hex_line r bpr offset # hex_loop r bpr final (offset + bpr) room else [])"

definition hex_lines :: "row \<Rightarrow> nat \<Rightarrow> nat \<Rightarrow> tline list" where
  "hex_lines r width max_lines =
     (case bytes_per_row width of
        None \<Rightarrow> []
      | Some bpr \<Rightarrow>
          if rw_raw r = [] \<or> max_lines = 0 then []
          else
            let first = (sp_start (rw_ciphers r) div bpr - 1) * bpr;
                final = min (sp_start (rw_extensions r) + sp_len (rw_extensions r)) (length (rw_raw r))
            in hex_loop r bpr final first max_lines)"

section \<open>The detail pane and the screen\<close>

definition detail_head :: "row \<Rightarrow> tline list" where
  "detail_head r =
     [[styled (pad_right 20 (rw_ip r)) Advance,
       styled (rw_verdict r @ ''  '' @ fmt_fixed0 (f32_round (rw_score r * 100)) @ ''%'') Normal]]
     @ (if rw_mismatch r then
          [[styled ''  the user-agent claims a browser this fingerprint contradicts  '' Demand]]
        else [])
     @ [[styled ''ja4    '' Recede, styled (rw_ja4 r) Advance],
        [styled (''       '' @ dec_string (ciphers_len r) @ '' ciphers, '' @ dec_string (rw_ext_count r)
           @ '' extensions'' @ (case rw_alpn r of None \<Rightarrow> [] | Some a \<Rightarrow> '', alpn '' @ a)) Recede]]
     @ (case rw_akamai r of None \<Rightarrow> []
        | Some akamai \<Rightarrow> [[styled ''h2     '' Recede, styled (truncate_str akamai 60) Normal]])"

definition detail_lines :: "row \<Rightarrow> nat \<Rightarrow> nat \<Rightarrow> tline list" where
  "detail_lines r width height =
     (let out = detail_head r in
      if height < SHORT then out
      else
        let out = out @ [blank_line,
              [styled (''clienthello   '' @ dec_string (length (rw_raw r)) @ '' bytes'') Recede],
              blank_line];
            taken = length out + 10;
            hex_room = height - taken
        in out @ hex_lines r width hex_room)"

definition header_line :: "tui_state \<Rightarrow> tline" where
  "header_line s =
     (let n = alerts s in
      [styled ''fpd   '' Advance, styled (st_source_label s) Recede,
       styled (''   '' @ dec_string (length (st_rows s)) @ '' conn'') Recede,
       styled (if 0 < n then ''   '' @ dec_string n @ '' alert'' @ (if n = 1 then [] else ''s'') else [])
         (if 0 < n then Advance else Recede),
       styled (if st_dropped s then ''   records dropped'' else []) Advance])"

definition footer_text :: "tui_state \<Rightarrow> string" where
  "footer_text s =
     (if st_searching s then ''/'' @ st_search s
      else case st_exported s of
             Some path \<Rightarrow> ''wrote '' @ path
           | None \<Rightarrow> ''/  search       f  follow       e  export       q  quit'')"

text \<open>The lines handed to the widget; the padding loop adds blank lines up to \<open>height - 2\<close>.\<close>

definition screen_body :: "(string \<Rightarrow> string) \<Rightarrow> tui_state \<Rightarrow> nat \<Rightarrow> nat \<Rightarrow> tline list" where
  "screen_body lc s width height =
     [header_line s, blank_line] @ table_lines lc s width (max (height div 3) 1) @ [rule_line width]
     @ (case current lc s of
          Some r \<Rightarrow> detail_lines r width height
        | None \<Rightarrow> [[styled ''waiting for a connection'' Recede]])"

definition render_lines :: "(string \<Rightarrow> string) \<Rightarrow> tui_state \<Rightarrow> nat \<Rightarrow> nat \<Rightarrow> tline list" where
  "render_lines lc s width height =
     (let body = screen_body lc s width height in
      body @ replicate (height - 2 - length body) blank_line
      @ [rule_line width, [styled (footer_text s) Recede]])"

text \<open>The rows of the terminal.\<close>

definition shown :: "nat \<Rightarrow> tline list \<Rightarrow> tline list" where
  "shown height ls = take height ls"

section \<open>Selection\<close>

lemma visible_subset: "set (visible lc s) \<subseteq> set (st_rows s)"
  by (auto simp: visible_def Let_def)

lemma current_Some: "current lc s = Some r \<Longrightarrow> r \<in> set (visible lc s)"
  by (auto simp: current_def Let_def get_at_def split: if_splits)

lemma current_None: "current lc s = None \<longleftrightarrow> visible lc s = []"
  by (cases "visible lc s") (auto simp: current_def Let_def get_at_def)

section \<open>How many lines\<close>

lemma length_table_lines: "length (table_lines lc s w h) = min (length (visible lc s)) h"
  by (simp add: table_lines_def Let_def min_def)

lemma length_hex_loop: "length (hex_loop r bpr final offset room) \<le> room"
  by (induction r bpr final offset room rule: hex_loop.induct) simp_all

lemma length_hex_loop_full:
  "offset + bpr * room < final + bpr \<Longrightarrow> length (hex_loop r bpr final offset room) = room"
  by (induction r bpr final offset room rule: hex_loop.induct) auto

lemma length_hex_lines: "length (hex_lines r w room) \<le> room"
  by (simp add: hex_lines_def length_hex_loop Let_def split: option.split)

lemma length_detail_head: "3 \<le> length (detail_head r)" "length (detail_head r) \<le> 5"
  by (simp_all add: detail_head_def split: option.split)

lemma length_detail_lines:
  "length (detail_lines r w h) \<le> (if h < 20 then 5 else max 8 (h - 10))"
proof -
  define n where "n = length (detail_head r)"
  have n: "n \<le> 5" using length_detail_head(2) by (simp add: n_def)
  show ?thesis
  proof (cases "h < 20")
    case False
    then have "length (detail_lines r w h) = n + 3 + length (hex_lines r w (h - (n + 3 + 10)))"
      by (simp add: detail_lines_def SHORT_def Let_def n_def)
    with False n length_hex_lines [of r w "h - (n + 3 + 10)"] show ?thesis by simp
  qed (use n in \<open>simp add: detail_lines_def SHORT_def n_def\<close>)
qed

lemma length_screen_body:
  "length (screen_body lc s w h) \<le>
     3 + min (length (visible lc s)) (max (h div 3) 1) + (if h < 20 then 5 else max 8 (h - 10))"
proof (cases "current lc s")
  case None
  then show ?thesis by (auto simp: screen_body_def length_table_lines)
next
  case (Some r)
  with length_detail_lines [of r w h] show ?thesis
    by (simp add: screen_body_def length_table_lines)
qed

lemma render_lines_fit:
  "length (screen_body lc s w h) + 2 \<le> h \<Longrightarrow> length (render_lines lc s w h) = h"
  by (simp add: render_lines_def Let_def)

section \<open>The selected row in the table\<close>

lemma table_line_style: "snd ` set (table_line w sel r) = {ink_style (if sel then Demand else Normal)}"
  by (simp add: table_line_def Let_def)

lemma nth_table_lines:
  "k < length (table_lines lc s w h) \<Longrightarrow>
     table_lines lc s w h ! k =
       (let v = visible lc s; i = length v - h + k in
        table_line w (i = min (st_selected s) (length v - 1)) (v ! i))"
  by (simp add: table_lines_def Let_def nth_enumerate_eq)

section \<open>Properties\<close>

text \<open>
  With at most five connections listed and a terminal of twenty rows or more, the screen is
  filled exactly and its last row is the footer, however long the hello shown is.
\<close>

theorem footer_pinned:
  assumes "20 \<le> h" and "length (visible lc s) \<le> 5"
  shows "length (render_lines lc s w h) = h \<and>
    last (shown h (render_lines lc s w h)) = [styled (footer_text s) Recede]"
proof -
  have "length (screen_body lc s w h) + 2 \<le> h"
    using length_screen_body [of lc s w h] assms by simp
  then have "length (render_lines lc s w h) = h" by (rule render_lines_fit)
  then show ?thesis
    by (simp add: shown_def) (simp add: render_lines_def Let_def)
qed

text \<open>A row with a hello of 600 bytes whose fingerprint region spans most of it.\<close>

definition long_row :: row where
  "long_row =
     \<lparr>rw_seq = 0, rw_at_ms = 0, rw_ip = ''-'', rw_ja4 = ''j'', rw_verdict = ''v'', rw_score = 0,
      rw_mismatch = False, rw_alpn = None, rw_akamai = None, rw_raw = replicate 600 0,
      rw_ciphers = \<lparr>sp_start = 50, sp_len = 30\<rparr>, rw_extensions = \<lparr>sp_start = 84, sp_len = 500\<rparr>,
      rw_cipher_count = 15, rw_ext_count = 9, rw_grease_ext = []\<rparr>"

definition busy_state :: "nat \<Rightarrow> tui_state" where
  "busy_state n = (state_new ''here'')\<lparr>st_rows := replicate n long_row\<rparr>"

lemma visible_busy [simp]: "visible lc (busy_state n) = replicate n long_row"
  by (simp add: visible_def busy_state_def state_new_def)

lemma selected_busy [simp]: "st_selected (busy_state n) = 0"
  by (simp add: busy_state_def state_new_def)

lemma footer_pinned_witness:
  "last (shown 30 (render_lines (\<lambda>x. x) (busy_state 3) 100 30)) = [styled (footer_text (busy_state 3)) Recede]"
  using footer_pinned [of 30 "\<lambda>x. x" "busy_state 3" 100] by simp

text \<open>
  The row the selection is on can be off the screen: the table always lists the newest rows,
  so once the selection is moved above them no line of the table is marked as selected.
\<close>

theorem selection_scrolls_away:
  assumes "st_selected s + h < length (visible lc s)"
  shows "list_all (\<lambda>l. snd ` set l = {ink_style Normal}) (table_lines lc s w h)"
proof -
  have "snd ` set (table_lines lc s w h ! k) = {ink_style Normal}" if "k < length (table_lines lc s w h)" for k
  proof -
    have "length (visible lc s) - h + k \<noteq> min (st_selected s) (length (visible lc s) - 1)"
      using assms by simp
    then show ?thesis
      using nth_table_lines [OF that] by (simp add: Let_def table_line_style)
  qed
  then show ?thesis by (simp add: list_all_length)
qed

lemma selection_scrolls_away_witness:
  "length (table_lines (\<lambda>x. x) (busy_state 9) 100 4) = 4 \<and>
   list_all (\<lambda>l. snd ` set l = {ink_style Normal}) (table_lines (\<lambda>x. x) (busy_state 9) 100 4)"
  using selection_scrolls_away [of "busy_state 9" 4 "\<lambda>x. x" 100]
  by (simp add: length_table_lines)

text \<open>
  On a 30-row terminal with ten connections and a long hello the footer does not fit: the
  hex pane leaves ten rows for everything else, and the table alone takes them.
\<close>

theorem footer_pushed_off:
  "shown 30 (render_lines lc (busy_state 10) 100 30) = take 30 (screen_body lc (busy_state 10) 100 30) \<and>
   length (screen_body lc (busy_state 10) 100 30) = 33 \<and>
   render_lines lc (busy_state 10) 100 30 ! 34 = [styled (footer_text (busy_state 10)) Recede]"
proof -
  have "length (hex_lines long_row 100 14) = 14"
    by (simp add: hex_lines_def bytes_per_row_def long_row_def length_hex_loop_full)
  moreover have "length (detail_head long_row) = 3"
    by (simp add: detail_head_def long_row_def)
  ultimately have "length (detail_lines long_row 100 30) = 20"
    by (simp add: detail_lines_def SHORT_def Let_def)
  moreover have "current lc (busy_state 10) = Some long_row"
    by (simp add: current_def get_at_def)
  ultimately have "length (screen_body lc (busy_state 10) 100 30) = 33"
    by (simp add: screen_body_def length_table_lines)
  then show ?thesis
    by (simp add: shown_def render_lines_def nth_append)
qed

end
