(* ===== verification/Tui_App.thy ===== *)
theory Tui_App
  imports Tui_Render
begin

text \<open>
  The viewer's event loop, \<open>fpd/src/tui/app.rs\<close>: key handling, export, arriving rows and the
  loop that coalesces repaints. Whether a file could be written is the parameter \<open>write_ok\<close>; the
  terminal itself is not modelled. A key that is a character carries it as its UTF-8 text.
\<close>

definition VIEW_CAPACITY :: nat where "VIEW_CAPACITY = 2000"

datatype key_code =
  Key_Esc | Key_Enter | Key_Backspace | Key_Char string | Key_Up | Key_Down | Key_Other

datatype action = Redraw | Ignore | Quit

text \<open>\<open>String::pop\<close>: the last character, its continuation bytes included.\<close>

definition pop_char :: "string \<Rightarrow> string" where
  "pop_char s = rev (drop 1 (dropWhile (\<lambda>c. is_cont (char_byte c)) (rev s)))"

definition export :: "(string \<Rightarrow> bytes \<Rightarrow> bool) \<Rightarrow> (string \<Rightarrow> string) \<Rightarrow> tui_state \<Rightarrow> tui_state" where
  "export write_ok lc s =
     (case current lc s of
        None \<Rightarrow> s
      | Some r \<Rightarrow>
          let name = ''fpd-'' @ rw_verdict r @ ''-'' @ dec_string (rw_seq r) @ ''.bin'' in
          if write_ok name (rw_raw r) then s\<lparr>st_exported := Some name\<rparr> else s)"

text \<open>The two halves of \<open>on_key\<close>: while a query is being typed, and otherwise.\<close>

fun key_searching :: "key_code \<Rightarrow> tui_state \<Rightarrow> action \<times> tui_state" where
  "key_searching Key_Esc s =
     (Redraw, s\<lparr>st_searching := False, st_search := [], st_selected := 0\<rparr>)"
| "key_searching Key_Enter s = (Redraw, s\<lparr>st_searching := False, st_selected := 0\<rparr>)"
| "key_searching Key_Backspace s =
     (Redraw, s\<lparr>st_search := pop_char (st_search s), st_selected := 0\<rparr>)"
| "key_searching (Key_Char c) s = (Redraw, s\<lparr>st_search := st_search s @ c, st_selected := 0\<rparr>)"
| "key_searching code s = (Ignore, s)"

definition move_up :: "tui_state \<Rightarrow> tui_state" where
  "move_up s = s\<lparr>st_follow := False, st_selected := st_selected s - 1\<rparr>"

definition move_down :: "(string \<Rightarrow> string) \<Rightarrow> tui_state \<Rightarrow> tui_state" where
  "move_down lc s =
     s\<lparr>st_follow := False, st_selected := min (st_selected s + 1) (length (visible lc s) - 1)\<rparr>"

definition key_command ::
    "(string \<Rightarrow> bytes \<Rightarrow> bool) \<Rightarrow> (string \<Rightarrow> string) \<Rightarrow> key_code \<Rightarrow> bool \<Rightarrow> tui_state \<Rightarrow> action \<times> tui_state" where
  "key_command write_ok lc code ctrl s =
     (if code = Key_Char ''q'' \<or> code = Key_Esc then (Quit, s)
      else if code = Key_Char ''c'' \<and> ctrl then (Quit, s)
      else if code = Key_Char ''/'' then (Redraw, s\<lparr>st_searching := True, st_search := []\<rparr>)
      else if code = Key_Char ''f'' then (Redraw, s\<lparr>st_follow := \<not> st_follow s\<rparr>)
      else if code = Key_Char ''e'' then (Redraw, export write_ok lc s)
      else if code = Key_Up \<or> code = Key_Char ''k'' then (Redraw, move_up s)
      else if code = Key_Down \<or> code = Key_Char ''j'' then (Redraw, move_down lc s)
      else (Ignore, s))"

definition on_key ::
    "(string \<Rightarrow> bytes \<Rightarrow> bool) \<Rightarrow> (string \<Rightarrow> string) \<Rightarrow> tui_state \<Rightarrow> key_code \<Rightarrow> bool \<Rightarrow> action \<times> tui_state" where
  "on_key write_ok lc s code ctrl =
     (if st_searching s then key_searching code s else key_command write_ok lc code ctrl s)"

text \<open>The arm of the loop that receives a row.\<close>

definition row_arrives :: "(string \<Rightarrow> string) \<Rightarrow> row \<Rightarrow> tui_state \<Rightarrow> tui_state" where
  "row_arrives lc r s =
     (let s = (if st_rows s \<noteq> [] \<and> rw_seq (last (st_rows s)) + 1 < rw_seq r
               then s\<lparr>st_dropped := True\<rparr> else s);
          s = s\<lparr>st_rows := evict_front VIEW_CAPACITY (st_rows s @ [r])\<rparr>
      in if st_follow s then s\<lparr>st_selected := length (visible lc s) - 1\<rparr> else s)"

text \<open>
  The loop: \<open>Frame_Due\<close> is its head once a frame's time has passed, the others are its
  \<open>select!\<close> arms. After a quit nothing more is handled.
\<close>

datatype tui_event = Row_In row | Key_In key_code bool | Resized | Other_Event | Frame_Due

record tui_loop =
  tl_state :: tui_state
  tl_dirty :: bool
  tl_quit :: bool

definition loop_start :: "string \<Rightarrow> tui_loop" where
  "loop_start label = \<lparr>tl_state = state_new label, tl_dirty = True, tl_quit = False\<rparr>"

definition loop_event ::
    "(string \<Rightarrow> bytes \<Rightarrow> bool) \<Rightarrow> (string \<Rightarrow> string) \<Rightarrow> tui_event \<Rightarrow> tui_loop \<Rightarrow> tui_loop" where
  "loop_event write_ok lc ev l =
     (if tl_quit l then l
      else case ev of
        Row_In r \<Rightarrow> l\<lparr>tl_state := row_arrives lc r (tl_state l), tl_dirty := True\<rparr>
      | Key_In code ctrl \<Rightarrow>
          (case on_key write_ok lc (tl_state l) code ctrl of
             (Quit, s) \<Rightarrow> l\<lparr>tl_state := s, tl_quit := True\<rparr>
           | (Redraw, s) \<Rightarrow> l\<lparr>tl_state := s, tl_dirty := True\<rparr>
           | (Ignore, s) \<Rightarrow> l\<lparr>tl_state := s\<rparr>)
      | Resized \<Rightarrow> l\<lparr>tl_dirty := True\<rparr>
      | Other_Event \<Rightarrow> l
      | Frame_Due \<Rightarrow> l\<lparr>tl_dirty := False\<rparr>)"

definition loop_run ::
    "(string \<Rightarrow> bytes \<Rightarrow> bool) \<Rightarrow> (string \<Rightarrow> string) \<Rightarrow> string \<Rightarrow> tui_event list \<Rightarrow> tui_loop" where
  "loop_run write_ok lc label evs = fold (loop_event write_ok lc) evs (loop_start label)"

section \<open>Keys\<close>

fun_cases key_searchingE: "key_searching code s = (a, s')"

lemma key_searching_frame:
  "key_searching code s = (a, s') \<Longrightarrow>
     a \<noteq> Quit \<and> st_rows s' = st_rows s \<and> st_follow s' = st_follow s \<and>
     st_exported s' = st_exported s \<and> st_dropped s' = st_dropped s"
  by (elim key_searchingE) auto

lemma export_frame:
  "st_rows (export w lc s) = st_rows s" "st_dropped (export w lc s) = st_dropped s"
  by (simp_all add: export_def Let_def split: option.split)

text \<open>What a key may change: neither the rows nor the marker of a gap.\<close>

definition keeps_view :: "tui_state \<Rightarrow> action \<times> tui_state \<Rightarrow> bool" where
  "keeps_view s x \<longleftrightarrow> st_rows (snd x) = st_rows s \<and> st_dropped (snd x) = st_dropped s"

lemma keeps_view_if: "keeps_view s x \<Longrightarrow> keeps_view s y \<Longrightarrow> keeps_view s (if b then x else y)"
  by simp

lemma key_command_frame: "keeps_view s (key_command w lc code ctrl s)"
  unfolding key_command_def
  by (intro keeps_view_if) (simp_all add: keeps_view_def move_up_def move_down_def export_frame)

lemma on_key_frame:
  "on_key w lc s code ctrl = (a, s') \<Longrightarrow> st_rows s' = st_rows s \<and> st_dropped s' = st_dropped s"
  using key_searching_frame [of code s a s'] key_command_frame [of s w lc code ctrl]
  by (auto simp: on_key_def keeps_view_def split: if_splits)

section \<open>Rows\<close>

lemma row_arrives_rows:
  "st_rows (row_arrives lc r s) =
     drop (length (st_rows s) + 1 - VIEW_CAPACITY) (st_rows s @ [r])"
  by (simp add: row_arrives_def Let_def evict_front_drop)

lemma row_arrives_dropped:
  "st_dropped (row_arrives lc r s) \<longleftrightarrow>
     st_dropped s \<or> st_rows s \<noteq> [] \<and> rw_seq (last (st_rows s)) + 1 < rw_seq r"
  by (simp add: row_arrives_def Let_def)

text \<open>The rows of the view are a bounded queue of the arrivals.\<close>

interpretation view: bounded_queue "\<lambda>s. rev (st_rows s)" "\<lambda>_. VIEW_CAPACITY" "\<lambda>_. 1"
  "row_arrives lc" "\<lambda>_. True" for lc
proof
  fix s :: tui_state and r :: row
  have "rev (st_rows (row_arrives lc r s)) = take VIEW_CAPACITY (r # rev (st_rows s))"
    using rev_last [of "st_rows s" r VIEW_CAPACITY] by (simp add: row_arrives_rows)
  then show "rev (st_rows (row_arrives lc r s)) = fit (\<lambda>_. 1) VIEW_CAPACITY (r # rev (st_rows s))"
    by (simp only: fit_const)
qed simp_all

definition has_gap :: "row list \<Rightarrow> bool" where
  "has_gap rs = list_ex (\<lambda>(a, b). rw_seq a + 1 < rw_seq b) (zip rs (tl rs))"

lemma has_gap_snoc: "has_gap (rs @ [r]) \<longleftrightarrow> has_gap rs \<or> rs \<noteq> [] \<and> rw_seq (last rs) + 1 < rw_seq r"
proof (induction rs)
  case (Cons a rs)
  then show ?case by (cases rs) (auto simp: has_gap_def)
qed (simp add: has_gap_def)

text \<open>The rows that arrive before the loop is left.\<close>

definition arrived_step ::
    "(string \<Rightarrow> bytes \<Rightarrow> bool) \<Rightarrow> (string \<Rightarrow> string) \<Rightarrow> tui_event \<Rightarrow> tui_loop \<times> row list \<Rightarrow> tui_loop \<times> row list" where
  "arrived_step w lc ev x =
     (loop_event w lc ev (fst x),
      if tl_quit (fst x) then snd x else case ev of Row_In r \<Rightarrow> snd x @ [r] | _ \<Rightarrow> snd x)"

definition arrived ::
    "(string \<Rightarrow> bytes \<Rightarrow> bool) \<Rightarrow> (string \<Rightarrow> string) \<Rightarrow> string \<Rightarrow> tui_event list \<Rightarrow> row list" where
  "arrived w lc label evs = snd (fold (arrived_step w lc) evs (loop_start label, []))"

definition view_of :: "tui_loop \<times> row list \<Rightarrow> bool" where
  "view_of x \<longleftrightarrow>
     st_rows (tl_state (fst x)) = drop (length (snd x) - VIEW_CAPACITY) (snd x) \<and>
     (st_dropped (tl_state (fst x)) \<longleftrightarrow> has_gap (snd x))"

lemma drop_window:
  assumes "xs = drop (length rs - n) rs" and "0 < n"
  shows "drop (length xs + 1 - n) (xs @ [r]) = drop (length rs + 1 - n) (rs @ [r])"
proof (cases "length rs < n")
  case False
  then have "length rs + 1 - n = 1 + (length rs - n)" "length xs = n"
    using assms by simp_all
  then show ?thesis using assms False by simp
qed (use assms in simp)

lemma view_of_row:
  assumes "st_rows s = drop (length rs - VIEW_CAPACITY) rs" and "st_dropped s \<longleftrightarrow> has_gap rs"
  shows "st_rows (row_arrives lc r s) = drop (length rs + 1 - VIEW_CAPACITY) (rs @ [r]) \<and>
    (st_dropped (row_arrives lc r s) \<longleftrightarrow> has_gap (rs @ [r]))"
proof -
  have n: "length (st_rows s) = min (length rs) 2000"
    using assms(1) by (simp add: VIEW_CAPACITY_def)
  have "st_rows s = [] \<longleftrightarrow> length (st_rows s) = 0" by simp
  also have "\<dots> \<longleftrightarrow> rs = []" unfolding n by (cases rs) simp_all
  finally have e: "st_rows s = [] \<longleftrightarrow> rs = []" .
  moreover have l: "rs \<noteq> [] \<Longrightarrow> last (st_rows s) = last rs"
    using assms(1) e by (simp add: last_drop)
  moreover have "drop (length (st_rows s) + 1 - VIEW_CAPACITY) (st_rows s @ [r]) =
      drop (length rs + 1 - VIEW_CAPACITY) (rs @ [r])"
    by (rule drop_window [OF assms(1)]) (simp add: VIEW_CAPACITY_def)
  ultimately show ?thesis
    using assms(2) by (auto simp: row_arrives_rows row_arrives_dropped has_gap_snoc)
qed

lemma view_of_step: "view_of x \<Longrightarrow> view_of (arrived_step w lc ev x)"
proof (cases ev)
  case (Row_In r)
  assume "view_of x"
  then show ?thesis
    using view_of_row [of "tl_state (fst x)" "snd x" lc r]
    by (simp add: view_of_def arrived_step_def loop_event_def Row_In)
next
  case (Key_In code ctrl)
  assume "view_of x"
  moreover obtain a s' where k: "on_key w lc (tl_state (fst x)) code ctrl = (a, s')"
    by (rule prod.exhaust)
  ultimately show ?thesis
    using on_key_frame [OF k]
    by (cases a) (simp_all add: view_of_def arrived_step_def loop_event_def Key_In k)
qed (simp_all add: view_of_def arrived_step_def loop_event_def)

lemma arrived_fst: "fst (fold (arrived_step w lc) evs x) = fold (loop_event w lc) evs (fst x)"
  by (induction evs arbitrary: x) (simp_all add: arrived_step_def)

lemma view_of_run: "view_of (fold (arrived_step w lc) evs x)" if "view_of x"
  using that by (induction evs arbitrary: x) (simp_all add: view_of_step)

section \<open>Properties\<close>


text \<open>
  Typing a query never triggers a command: while searching no key quits, exports, or toggles
  follow, whatever character it is.
\<close>

theorem search_keys_inert:
  assumes "st_searching s"
  shows "case on_key w lc s code ctrl of (a, s') \<Rightarrow>
    a \<noteq> Quit \<and> st_rows s' = st_rows s \<and> st_follow s' = st_follow s \<and> st_exported s' = st_exported s"
  using key_searching_frame [of code s] assms
  by (cases "key_searching code s") (simp add: on_key_def)

lemma search_keys_inert_witness:
  "case on_key (\<lambda>n b. True) (\<lambda>x. x) (busy_state 2\<lparr>st_searching := True\<rparr>) (Key_Char ''q'') False of (a, s') \<Rightarrow>
    a \<noteq> Quit \<and> st_rows s' = st_rows (busy_state 2)"
  using search_keys_inert [of "busy_state 2\<lparr>st_searching := True\<rparr>" "\<lambda>n b. True" "\<lambda>x. x" "Key_Char ''q''" False]
  by (auto simp: split_def)

text \<open>
  When the buffer is full, every new row moves a reader's selection to another record: with
  follow off and no search, the record selected before a row arrives is not the one after, but
  its successor.
\<close>

theorem selection_slides:
  assumes "length (st_rows s) = 2000" and "\<not> st_follow s" and "st_search s = []"
    and "st_selected s < 1999"
  shows "current lc s = Some (st_rows s ! st_selected s) \<and>
    current lc (row_arrives lc r s) = Some (st_rows s ! Suc (st_selected s))"
proof -
  have v: "st_rows (row_arrives lc r s) = drop 1 (st_rows s @ [r])"
    using row_arrives_rows [of lc r s] assms(1) by (simp add: VIEW_CAPACITY_def)
  have k: "st_selected (row_arrives lc r s) = st_selected s" "st_search (row_arrives lc r s) = []"
    using assms(2,3) by (simp_all add: row_arrives_def Let_def)
  show ?thesis
    using assms v k by (simp add: current_def visible_def get_at_def nth_append Let_def)
qed

definition full_state :: tui_state where
  "full_state = (state_new ''here'')
     \<lparr>st_rows := map (\<lambda>n. long_row\<lparr>rw_seq := n\<rparr>) [0..<2000], st_follow := False, st_selected := 7\<rparr>"

lemma selection_slides_witness:
  "map_option rw_seq (current (\<lambda>x. x) full_state) = Some 7 \<and>
   map_option rw_seq (current (\<lambda>x. x) (row_arrives (\<lambda>x. x) long_row full_state)) = Some 8"
proof -
  have f: "length (st_rows full_state) = 2000" "\<not> st_follow full_state" "st_search full_state = []"
    "st_selected full_state < 1999"
    by (simp_all add: full_state_def state_new_def)
  show ?thesis
    using selection_slides [OF f, of "\<lambda>x. x" long_row]
    by (simp add: full_state_def del: upt_rec_numeral)
qed

end
