(* ===== verification/Tui_Run.thy ===== *)
theory Tui_Run
  imports Tui_App
begin

text \<open>
  Running the viewer, the rest of \<open>fpd/src/tui/app.rs\<close>: the thread that forwards terminal events, the
  set-up of the terminal, the loop with its drawing, and what is restored at the end. What the terminal
  library's calls return are arguments. The lemmas say which events reach the loop and in what state
  the terminal is left on every way out.
\<close>

section \<open>The event thread\<close>

text \<open>One round of the thread: what \<open>poll\<close> and \<open>read\<close> return, and whether the loop has dropped its
  receiver by then.\<close>

datatype 'ev term_poll = Event_Read 'ev | Read_Failed | Nothing_Yet | Poll_Failed

fun spawn_events :: "('ev term_poll \<times> bool) list \<Rightarrow> 'ev list" where
  "spawn_events [] = []"
| "spawn_events ((Event_Read ev, gone) # ps) = (if gone then [] else ev # spawn_events ps)"
| "spawn_events ((Read_Failed, gone) # ps) = []"
| "spawn_events ((Nothing_Yet, gone) # ps) = (if gone then [] else spawn_events ps)"
| "spawn_events ((Poll_Failed, gone) # ps) = []"

definition read_events :: "('ev term_poll \<times> bool) list \<Rightarrow> 'ev list" where
  "read_events ps = List.map_filter (\<lambda>(p, gone). case p of Event_Read ev \<Rightarrow> Some ev | _ \<Rightarrow> None) ps"

definition round_ok :: "'ev term_poll \<times> bool \<Rightarrow> bool" where
  "round_ok p \<longleftrightarrow> \<not> snd p \<and> fst p \<noteq> Read_Failed \<and> fst p \<noteq> Poll_Failed"

section \<open>The terminal\<close>

record terminal =
  tm_raw :: bool
  tm_alternate :: bool

definition cooked :: terminal where
  "cooked = \<lparr>tm_raw = False, tm_alternate = False\<rparr>"

text \<open>Both calls are best-effort; the cursor, which the library hides while it draws, is shown again.\<close>

record restore_calls =
  rs_disable_raw :: bool
  rs_leave_alternate :: bool

definition restore :: "restore_calls \<Rightarrow> terminal \<Rightarrow> terminal" where
  "restore c t =
     (let t = (if rs_disable_raw c then t\<lparr>tm_raw := False\<rparr> else t)
      in if rs_leave_alternate c then t\<lparr>tm_alternate := False\<rparr> else t)"

section \<open>The loop with its drawing\<close>

text \<open>The loop's state and the number of draws so far; a draw that fails leaves the function.\<close>

definition draw_event ::
    "(nat \<Rightarrow> bool) \<Rightarrow> (string \<Rightarrow> bytes \<Rightarrow> bool) \<Rightarrow> (string \<Rightarrow> string) \<Rightarrow> tui_loop \<times> nat \<Rightarrow> tui_event
      \<Rightarrow> unit + tui_loop \<times> nat" where
  "draw_event draw_ok w lc x ev =
     (case x of (l, n) \<Rightarrow>
        if ev = Frame_Due \<and> tl_dirty l \<and> \<not> tl_quit l then
          (if draw_ok n then Inr (loop_event w lc ev l, n + 1) else Inl ())
        else Inr (loop_event w lc ev l, n))"

definition draw_loop ::
    "(nat \<Rightarrow> bool) \<Rightarrow> (string \<Rightarrow> bytes \<Rightarrow> bool) \<Rightarrow> (string \<Rightarrow> string) \<Rightarrow> string \<Rightarrow> tui_event list
      \<Rightarrow> unit + tui_loop \<times> nat" where
  "draw_loop draw_ok w lc label evs = try_fold (draw_event draw_ok w lc) (loop_start label, 0) evs"

section \<open>run\<close>

record term_calls =
  tc_raw :: bool
  tc_alternate :: bool
  tc_terminal :: bool
  tc_draw :: "nat \<Rightarrow> bool"
  tc_restore :: restore_calls

datatype app_end = Finished_Ok | Failed_Io | Still_Running

definition app_run ::
    "term_calls \<Rightarrow> (string \<Rightarrow> bytes \<Rightarrow> bool) \<Rightarrow> (string \<Rightarrow> string) \<Rightarrow> string \<Rightarrow> tui_event list
      \<Rightarrow> app_end \<times> terminal" where
  "app_run c w lc label evs =
     (if \<not> tc_raw c then (Failed_Io, cooked)
      else let t = cooked\<lparr>tm_raw := True\<rparr> in
        if \<not> tc_alternate c then (Failed_Io, t)
        else let t = t\<lparr>tm_alternate := True\<rparr> in
          if \<not> tc_terminal c then (Failed_Io, t)
          else (case draw_loop (tc_draw c) w lc label evs of
             Inl _ \<Rightarrow> (Failed_Io, t)
           | Inr (l, _) \<Rightarrow> if tl_quit l then (Finished_Ok, restore (tc_restore c) t) else (Still_Running, t)))"

text \<open>The hook that runs before a panic's message is printed.\<close>

definition panic_hook :: "restore_calls \<Rightarrow> terminal \<Rightarrow> terminal" where
  "panic_hook c t = restore c t"

section \<open>Lemmas\<close>

lemma spawn_events_prefix:
  "spawn_events ps = read_events (takeWhile round_ok ps)"
proof (induction ps rule: spawn_events.induct)
qed (auto simp: read_events_def round_ok_def map_filter_simps)

lemma quit_stays: "tl_quit l \<Longrightarrow> loop_event w lc ev l = l"
  by (simp add: loop_event_def)

lemma draw_event_loop: "draw_event ok w lc (l, n) ev = Inr (l', n') \<Longrightarrow> l' = loop_event w lc ev l"
  by (auto simp: draw_event_def split: if_splits)

lemma draw_fold_loop:
  "try_fold (draw_event ok w lc) (l, n) evs = Inr (l', n') \<Longrightarrow> l' = fold (loop_event w lc) evs l"
proof (induction evs arbitrary: l n)
  case (Cons ev evs)
  then show ?case by (auto simp: res_simps dest: draw_event_loop)
qed simp

lemma draw_loop_run: "draw_loop ok w lc label evs = Inr (l, n) \<Longrightarrow> l = loop_run w lc label evs"
  unfolding draw_loop_def loop_run_def by (rule draw_fold_loop)

lemma draw_fold_ok:
  "(\<And>k. ok k) \<Longrightarrow> \<exists>n'. try_fold (draw_event ok w lc) (l, n) evs = Inr (fold (loop_event w lc) evs l, n')"
proof (induction evs arbitrary: l n)
  case (Cons ev evs)
  then show ?case by (cases "ev = Frame_Due \<and> tl_dirty l \<and> \<not> tl_quit l") (simp_all add: draw_event_def)
qed simp

lemma draw_loop_ok:
  "(\<And>k. ok k) \<Longrightarrow> \<exists>n. draw_loop ok w lc label evs = Inr (loop_run w lc label evs, n)"
  unfolding draw_loop_def loop_run_def by (rule draw_fold_ok)

lemma quit_fold: "tl_quit l \<Longrightarrow> fold (loop_event w lc) evs l = l"
  by (induction evs arbitrary: l) (simp_all add: quit_stays)

text \<open>Without a key event the loop does not quit.\<close>

lemma no_key_no_quit:
  "\<not> tl_quit l \<Longrightarrow> (\<And>code ctrl. Key_In code ctrl \<notin> set evs) \<Longrightarrow> \<not> tl_quit (fold (loop_event w lc) evs l)"
proof (induction evs arbitrary: l)
  case (Cons ev evs)
  from Cons.prems(2) have n: "Key_In code ctrl \<noteq> ev" "Key_In code ctrl \<notin> set evs" for code ctrl
    by (auto simp: eq_commute)
  have "\<not> tl_quit (loop_event w lc ev l)"
    using Cons.prems(1) n(1) by (cases ev) (auto simp: loop_event_def)
  from Cons.IH [OF this n(2)] show ?case by simp
qed simp

section \<open>Properties\<close>


text \<open>
  The viewer answers to the terminal only while its event thread lives: the thread forwards what it read, in
  order, up to its first failed poll or read, and a loop that is given no key any more never ends by itself.
\<close>

theorem events_until_failure:
  "spawn_events ps = read_events (takeWhile round_ok ps) \<and>
   (list_all (\<lambda>ev. case ev of Key_In _ _ \<Rightarrow> False | _ \<Rightarrow> True) evs \<longrightarrow>
      \<not> tl_quit l \<longrightarrow> \<not> tl_quit (fold (loop_event w lc) evs l))"
proof (intro conjI impI)
  show "spawn_events ps = read_events (takeWhile round_ok ps)"
    by (rule spawn_events_prefix)
  assume "list_all (\<lambda>ev. case ev of Key_In _ _ \<Rightarrow> False | _ \<Rightarrow> True) evs" and "\<not> tl_quit l"
  then show "\<not> tl_quit (fold (loop_event w lc) evs l)"
    by (intro no_key_no_quit) (auto simp: list_all_iff)
qed

end
