(* ===== verification/Streams.thy ===== *)
theory Streams
  imports Fpd_Prelude
begin

text \<open>
  The byte streams of \<open>fingerprint-probe/src/recording.rs\<close> and \<open>replaying.rs\<close>, and the standard
  reading loop over one. A stream is a polling function over its state: given the room left in
  the reader's buffer it returns the bytes read, an error, or that nothing is there yet. The
  locale \<open>async_read\<close> is the contract of \<open>AsyncRead\<close> that its users rely on, \<open>live_read\<close> that of
  a stream which goes on delivering; both adapters keep them.
\<close>

section \<open>Polling\<close>

text \<open>\<open>Poll<io::Result<()>>\<close> with the bytes put in the buffer; \<open>Ready []\<close> is the end of the stream.\<close>

datatype poll = Ready bytes | Broken | Pending

type_synonym 's source = "nat \<Rightarrow> 's \<Rightarrow> poll \<times> 's"

locale async_read =
  fixes poll :: "'s source" and content :: "'s \<Rightarrow> bytes"
  assumes ready_room: "poll n s = (Ready bs, s') \<Longrightarrow> length bs \<le> n"
    and ready_content: "poll n s = (Ready bs, s') \<Longrightarrow> content s = bs @ content s'"
    and broken_content: "poll n s = (Broken, s') \<Longrightarrow> content s' = content s"
    and pending_content: "poll n s = (Pending, s') \<Longrightarrow> content s' = content s"

text \<open>As long as \<open>alive\<close>, a poll with room delivers or waits, and at most \<open>waits s\<close> polls are
  needed for everything there is.\<close>

locale live_read = async_read +
  fixes alive :: "'s \<Rightarrow> bool" and waits :: "'s \<Rightarrow> nat"
  assumes live_poll: "alive s \<Longrightarrow> content s \<noteq> [] \<Longrightarrow> 0 < n \<Longrightarrow> poll n s = (p, s') \<Longrightarrow>
      alive s' \<and> waits s' < waits s \<and> (p = Pending \<or> (\<exists>bs. p = Ready bs \<and> bs \<noteq> []))"

text \<open>A caller's successive polls, with the room it has at each; what it is given in all.\<close>

fun reads :: "'s source \<Rightarrow> nat list \<Rightarrow> 's \<Rightarrow> bytes \<times> 's" where
  "reads poll [] s = ([], s)"
| "reads poll (n # ns) s =
     (case poll n s of
        (Ready bs, s) \<Rightarrow> (case reads poll ns s of (rest, s) \<Rightarrow> (bs @ rest, s))
      | (Broken, s) \<Rightarrow> reads poll ns s
      | (Pending, s) \<Rightarrow> reads poll ns s)"

text \<open>
  \<open>read_exact\<close>: polls until \<open>n\<close> bytes have come. The first argument after the stream is the
  number of polls the surrounding timer leaves; the last component of the result is what is left
  of it, or \<open>None\<close> when the stream ended or failed or the timer elapsed, and then the bytes read
  so far are the first component.
\<close>

fun read_exact :: "'s source \<Rightarrow> nat \<Rightarrow> nat \<Rightarrow> 's \<Rightarrow> bytes \<times> 's \<times> nat option" where
  "read_exact poll b 0 s = ([], s, Some b)"
| "read_exact poll 0 (Suc n) s = ([], s, None)"
| "read_exact poll (Suc b) (Suc n) s =
     (case poll (Suc n) s of
        (Ready [], s) \<Rightarrow> ([], s, None)
      | (Ready bs, s) \<Rightarrow>
          (case read_exact poll b (Suc n - length bs) s of (rest, s, b) \<Rightarrow> (bs @ rest, s, b))
      | (Broken, s) \<Rightarrow> ([], s, None)
      | (Pending, s) \<Rightarrow> read_exact poll b (Suc n) s)"

lemma read_exact_budget:
  "read_exact poll b n s = (bs, s', Some b') \<Longrightarrow> b' \<le> b \<and> (0 < n \<longrightarrow> b' < b)"
proof (induction b arbitrary: n s bs)
  case 0
  then show ?case by (cases n) simp_all
next
  case (Suc b)
  show ?case
  proof (cases n)
    case 0
    with Suc.prems show ?thesis by simp
  next
    case n: (Suc k)
    obtain p t where p: "poll (Suc k) s = (p, t)" by fastforce
    show ?thesis
    proof (cases p)
      case (Ready xs)
      with Suc.prems n p show ?thesis
        by (cases xs) (auto split: prod.splits dest: Suc.IH)
    next
      case Pending
      with Suc.prems n p Suc.IH [of "Suc k" t bs] show ?thesis by simp
    qed (use Suc.prems n p in simp)
  qed
qed

context async_read begin

lemma reads_content: "reads poll ns s = (bs, s') \<Longrightarrow> content s = bs @ content s'"
proof (induction ns arbitrary: s bs)
  case (Cons n ns)
  obtain p t where p: "poll n s = (p, t)" by fastforce
  with Cons show ?case
    by (cases p)
      (auto split: prod.splits dest: ready_content broken_content pending_content)
qed simp

lemma read_exact_content:
  "read_exact poll b n s = (bs, s', e) \<Longrightarrow>
     content s = bs @ content s' \<and> length bs \<le> n \<and> (e = None \<longleftrightarrow> length bs < n)"
proof (induction b arbitrary: n s bs s' e)
  case 0
  then show ?case by (cases n) auto
next
  case (Suc b)
  show ?case
  proof (cases n)
    case 0
    with Suc.prems show ?thesis by auto
  next
    case n: (Suc k)
    obtain p t where p: "poll (Suc k) s = (p, t)" by fastforce
    show ?thesis
    proof (cases p)
      case (Ready xs)
      show ?thesis
      proof (cases xs)
        case Nil
        with Suc.prems n p Ready ready_content [of "Suc k" s "[]" t] show ?thesis by auto
      next
        case (Cons y ys)
        obtain rest u e' where r: "read_exact poll b (Suc k - length xs) t = (rest, u, e')"
          by (metis prod_cases3)
        from Suc.prems n p Ready Cons r have "bs = xs @ rest" "s' = u" "e = e'" by auto
        with Suc.IH [OF r] ready_content [of "Suc k" s xs t] ready_room [of "Suc k" s xs t] p n Ready
        show ?thesis by auto
      qed
    next
      case Broken
      with Suc.prems n p broken_content [of "Suc k" s t] show ?thesis by auto
    next
      case Pending
      with Suc.prems n p Suc.IH [of "Suc k" t bs] pending_content [of "Suc k" s t]
      show ?thesis by simp
    qed
  qed
qed

end

context live_read begin

text \<open>With a poll to spare for every wait and every byte, an exact read gets its bytes.\<close>

lemma read_exact_live:
  "alive s \<Longrightarrow> n \<le> length (content s) \<Longrightarrow> waits s \<le> b \<Longrightarrow>
     \<exists>s' b'. read_exact poll b n s = (take n (content s), s', Some b') \<and>
       alive s' \<and> content s' = drop n (content s) \<and> waits s' \<le> b'"
proof (induction b arbitrary: n s)
  case 0
  show ?case
  proof (cases n)
    case 0
    with "0.prems" show ?thesis by simp
  next
    case (Suc k)
    obtain p t where "poll n s = (p, t)" by fastforce
    with live_poll [OF "0.prems"(1) _ _ this] "0.prems" Suc show ?thesis by fastforce
  qed
next
  case (Suc b)
  show ?case
  proof (cases n)
    case 0
    with Suc.prems show ?thesis by simp
  next
    case n: (Suc k)
    obtain p t where p: "poll (Suc k) s = (p, t)" by fastforce
    with live_poll [OF Suc.prems(1) _ _ p] Suc.prems n
    have l: "alive t" "waits t \<le> b" "p = Pending \<or> (\<exists>bs. p = Ready bs \<and> bs \<noteq> [])"
      by fastforce+
    from l(3) show ?thesis
    proof (elim disjE exE conjE)
      assume "p = Pending"
      with pending_content p Suc.IH [of t n] l(1,2) Suc.prems n show ?thesis by simp
    next
      fix xs assume xs: "p = Ready xs" "xs \<noteq> []"
      note c = ready_content [OF p [unfolded xs(1)]] and r = ready_room [OF p [unfolded xs(1)]]
      from Suc.prems(2) n c have "Suc k - length xs \<le> length (content t)" by auto
      from Suc.IH [OF l(1) this l(2)] obtain s' b' where
          i: "read_exact poll b (Suc k - length xs) t = (take (Suc k - length xs) (content t), s', Some b')"
            "alive s'" "content s' = drop (Suc k - length xs) (content t)" "waits s' \<le> b'"
        by (elim exE conjE) (rule that)
      have "read_exact poll (Suc b) (Suc k) s = (xs @ take (Suc k - length xs) (content t), s', Some b')"
        using p xs i(1) by (cases xs) simp_all
      with i(2-4) n c r show ?thesis by simp
    qed
  qed
qed

end

section \<open>A socket's stream\<close>

text \<open>What happens on a connection, as the client and the network decide it; the end of the list
  is the end of the stream.\<close>

datatype event = Segment bytes | Wait | Reset

fun wire_poll :: "event list source" where
  "wire_poll n [] = (Ready [], [])"
| "wire_poll n (Segment bs # w) =
     (Ready (take n bs), if length bs \<le> n then w else Segment (drop n bs) # w)"
| "wire_poll n (Wait # w) = (Pending, w)"
| "wire_poll n (Reset # w) = (Broken, w)"

fun wire_content :: "event list \<Rightarrow> bytes" where
  "wire_content [] = []"
| "wire_content (Segment bs # w) = bs @ wire_content w"
| "wire_content (e # w) = wire_content w"

fun wire_alive :: "event list \<Rightarrow> bool" where
  "wire_alive [] = True"
| "wire_alive (Segment bs # w) = (bs \<noteq> [] \<and> wire_alive w)"
| "wire_alive (Wait # w) = wire_alive w"
| "wire_alive (Reset # w) = False"

fun wire_waits :: "event list \<Rightarrow> nat" where
  "wire_waits [] = 0"
| "wire_waits (Segment bs # w) = length bs + wire_waits w"
| "wire_waits (e # w) = Suc (wire_waits w)"

lemma wire_async: "async_read wire_poll wire_content"
proof
  fix n w bs w'
  assume "wire_poll n w = (Ready bs, w')"
  then show "length bs \<le> n" "wire_content w = bs @ wire_content w'"
    by (cases "(n, w)" rule: wire_poll.cases; auto split: if_splits)+
next
  fix n w w'
  assume "wire_poll n w = (Broken, w')"
  then show "wire_content w' = wire_content w"
    by (cases "(n, w)" rule: wire_poll.cases) auto
next
  fix n w w'
  assume "wire_poll n w = (Pending, w')"
  then show "wire_content w' = wire_content w"
    by (cases "(n, w)" rule: wire_poll.cases) auto
qed

interpretation wire: async_read wire_poll wire_content
  by (rule wire_async)

interpretation wire: live_read wire_poll wire_content wire_alive wire_waits
proof unfold_locales
  fix w n p w'
  assume "wire_alive w" "wire_content w \<noteq> []" "0 < n" "wire_poll n w = (p, w')"
  then show "wire_alive w' \<and> wire_waits w' < wire_waits w \<and>
      (p = Pending \<or> (\<exists>bs. p = Ready bs \<and> bs \<noteq> []))"
    by (cases "(n, w)" rule: wire_poll.cases) (auto split: if_splits)
qed

section \<open>The byte tee\<close>

definition DEFAULT_CAP :: nat where "DEFAULT_CAP = 64 * 1024"

text \<open>\<open>rc_seen\<close> is the shared buffer; \<open>rc_poisoned\<close> when a holder of its lock has panicked.\<close>

record 's recording_stream =
  rc_inner :: 's
  rc_seen :: bytes
  rc_poisoned :: bool
  rc_cap :: nat

definition recording_with_cap :: "'s \<Rightarrow> nat \<Rightarrow> 's recording_stream" where
  "recording_with_cap s cap = \<lparr>rc_inner = s, rc_seen = [], rc_poisoned = False, rc_cap = cap\<rparr>"

definition recording_new :: "'s \<Rightarrow> 's recording_stream" where
  "recording_new s = recording_with_cap s DEFAULT_CAP"

definition record_bytes :: "bytes \<Rightarrow> 's recording_stream \<Rightarrow> 's recording_stream" where
  "record_bytes new r =
     (if new = [] \<or> rc_poisoned r then r
      else let room = rc_cap r - length (rc_seen r) in
        if 0 < room then r\<lparr>rc_seen := rc_seen r @ take (min room (length new)) new\<rparr> else r)"

definition recording_poll :: "'s source \<Rightarrow> 's recording_stream source" where
  "recording_poll poll n r =
     (let (res, inner) = poll n (rc_inner r); r = r\<lparr>rc_inner := inner\<rparr> in
      (res, case res of Ready new \<Rightarrow> record_bytes new r | _ \<Rightarrow> r))"

section \<open>Handing consumed bytes back\<close>

record 's replaying =
  rp_buf :: bytes
  rp_pos :: nat
  rp_inner :: 's

definition replaying_new :: "bytes \<Rightarrow> 's \<Rightarrow> 's replaying" where
  "replaying_new buf s = \<lparr>rp_buf = buf, rp_pos = 0, rp_inner = s\<rparr>"

definition is_replaying :: "'s replaying \<Rightarrow> bool" where
  "is_replaying r \<longleftrightarrow> rp_pos r < length (rp_buf r)"

definition replaying_poll :: "'s source \<Rightarrow> 's replaying source" where
  "replaying_poll poll n r =
     (if rp_pos r < length (rp_buf r) then
        let tk = min n (length (rp_buf r) - rp_pos r);
            start = rp_pos r;
            chunk = (case get_range (rp_buf r) start (start + tk) of None \<Rightarrow> [] | Some c \<Rightarrow> c)
        in (Ready chunk, r\<lparr>rp_pos := start + tk\<rparr>)
      else let (res, inner) = poll n (rp_inner r) in (res, r\<lparr>rp_inner := inner\<rparr>))"

definition replay_content :: "('s \<Rightarrow> bytes) \<Rightarrow> 's replaying \<Rightarrow> bytes" where
  "replay_content content r = drop (rp_pos r) (rp_buf r) @ content (rp_inner r)"

section \<open>Both adapters are streams\<close>

lemma record_bytes_inner [simp]: "rc_inner (record_bytes new r) = rc_inner r"
  by (simp add: record_bytes_def Let_def)

lemma recording_poll_inner:
  "recording_poll poll n r = (res, r') \<Longrightarrow> poll n (rc_inner r) = (res, rc_inner r')"
  by (auto simp: recording_poll_def Let_def split: prod.splits poll.splits)

lemma replaying_poll_cases:
  assumes "replaying_poll poll n r = (res, r')"
  obtains bs where "res = Ready bs" "length bs \<le> n" "0 < n \<longrightarrow> bs \<noteq> []" "is_replaying r"
      "drop (rp_pos r) (rp_buf r) = bs @ drop (rp_pos r') (rp_buf r')" "rp_inner r' = rp_inner r"
  | "\<not> is_replaying r" "poll n (rp_inner r) = (res, rp_inner r')"
      "rp_buf r' = rp_buf r" "rp_pos r' = rp_pos r"
proof (cases "rp_pos r < length (rp_buf r)")
  case True
  let ?t = "min n (length (rp_buf r) - rp_pos r)"
  have d: "drop (rp_pos r) (rp_buf r)
      = take ?t (drop (rp_pos r) (rp_buf r)) @ drop (rp_pos r + ?t) (rp_buf r)"
    by (metis append_take_drop_id drop_drop add.commute)
  from True assms have "res = Ready (take ?t (drop (rp_pos r) (rp_buf r)))"
    "r' = r\<lparr>rp_pos := rp_pos r + ?t\<rparr>"
    by (auto simp: replaying_poll_def Let_def get_range_def)
  with True d show ?thesis
    by (intro that(1)) (auto simp: is_replaying_def)
next
  case False
  with assms show ?thesis
    by (intro that(2)) (auto simp: replaying_poll_def is_replaying_def split: prod.splits)
qed

context async_read begin

lemma recorded_async: "async_read (recording_poll poll) (\<lambda>r. content (rc_inner r))"
  by unfold_locales
    (auto dest!: recording_poll_inner dest: ready_room ready_content broken_content pending_content)

lemma replayed_async: "async_read (replaying_poll poll) (replay_content content)"
proof
  fix n r bs r'
  assume "replaying_poll poll n r = (Ready bs, r')"
  then show "length bs \<le> n" "replay_content content r = bs @ replay_content content r'"
    by (cases rule: replaying_poll_cases;
        auto simp: replay_content_def is_replaying_def dest: ready_room ready_content)+
next
  fix n r r'
  assume "replaying_poll poll n r = (Broken, r')"
  then show "replay_content content r' = replay_content content r"
    by (cases rule: replaying_poll_cases) (auto simp: replay_content_def dest: broken_content)
next
  fix n r r'
  assume "replaying_poll poll n r = (Pending, r')"
  then show "replay_content content r' = replay_content content r"
    by (cases rule: replaying_poll_cases) (auto simp: replay_content_def dest: pending_content)
qed

end

interpretation recorded_wire: async_read "recording_poll wire_poll" "\<lambda>r. wire_content (rc_inner r)"
  by (rule wire.recorded_async)

interpretation replayed_wire: async_read "replaying_poll wire_poll" "replay_content wire_content"
  by (rule wire.replayed_async)

text \<open>What is recorded: the first bytes delivered, up to the cap.\<close>

lemma record_bytes_seen:
  "\<not> rc_poisoned r \<Longrightarrow> rc_seen r = take (rc_cap r) ys \<Longrightarrow>
     rc_seen (record_bytes new r) = take (rc_cap r) (ys @ new)"
  by (auto simp: record_bytes_def Let_def min_def)

lemma record_bytes_kept [simp]:
  "rc_poisoned (record_bytes new r) = rc_poisoned r" "rc_cap (record_bytes new r) = rc_cap r"
  by (simp_all add: record_bytes_def Let_def)

lemma recording_poll_step:
  "poll n (rc_inner r) = (res, t) \<Longrightarrow> recording_poll poll n r =
     (res, case res of Ready new \<Rightarrow> record_bytes new (r\<lparr>rc_inner := t\<rparr>) | _ \<Rightarrow> r\<lparr>rc_inner := t\<rparr>)"
  by (simp add: recording_poll_def Let_def)

lemma reads_recording:
  "reads (recording_poll poll) ns r = (bs, r') \<Longrightarrow> \<not> rc_poisoned r \<Longrightarrow>
     rc_seen r = take (rc_cap r) ys \<Longrightarrow>
     rc_seen r' = take (rc_cap r) (ys @ bs) \<and> reads poll ns (rc_inner r) = (bs, rc_inner r') \<and>
       \<not> rc_poisoned r' \<and> rc_cap r' = rc_cap r"
proof (induction ns arbitrary: r ys bs r')
  case (Cons n ns)
  obtain res t where p: "poll n (rc_inner r) = (res, t)" by fastforce
  show ?case
  proof (cases res)
    case (Ready new)
    let ?r = "record_bytes new (r\<lparr>rc_inner := t\<rparr>)"
    obtain rest u where u: "reads (recording_poll poll) ns ?r = (rest, u)" by fastforce
    with Cons.prems(1) p Ready have b: "bs = new @ rest" "r' = u"
      by (simp_all add: recording_poll_step p)
    have "rc_seen ?r = take (rc_cap ?r) (ys @ new)"
      using Cons.prems(2,3) record_bytes_seen [of "r\<lparr>rc_inner := t\<rparr>" ys new] by simp
    from Cons.IH [OF u _ this] Cons.prems(2) p Ready b show ?thesis by simp
  next
    case Broken
    with Cons.prems p Cons.IH [of "r\<lparr>rc_inner := t\<rparr>" bs r' ys] show ?thesis
      by (simp add: recording_poll_step p)
  next
    case Pending
    with Cons.prems p Cons.IH [of "r\<lparr>rc_inner := t\<rparr>" bs r' ys] show ?thesis
      by (simp add: recording_poll_step p)
  qed
qed auto

end
