(* ===== verification/Capture.thy ===== *)
theory Capture
  imports Streams Profile
begin

text \<open>
  Reading the HTTP/2 preamble by hand: the loop that \<open>probe.rs\<close>, \<open>serve.rs\<close> of
  \<open>fingerprint-probe\<close> and \<open>acceptor.rs\<close> of \<open>fingerprint-tower\<close> each hold a copy of, and the
  probe's \<open>accept_one\<close>. The timer around the loop is the number of polls it allows. The lemmas
  say what is captured, when the capture parses, and when handing it back restores the stream.
\<close>

section \<open>The loop\<close>

text \<open>How the reading ended; \<open>Cut\<close> holds what \<open>read_exact\<close> had taken when it stopped, which
  nothing keeps.\<close>

datatype read_end = Finished | Oversized | Cut bytes

definition frame_len :: "bytes \<Rightarrow> nat" where
  "frame_len hdr = unat (be32 0 (hdr ! 0) (hdr ! 1) (hdr ! 2))"

lemma read_exact_two:
  "read_exact poll b 9 s = (hdr, t, Some b1) \<Longrightarrow> read_exact poll b1 n t = (pl, u, Some b2) \<Longrightarrow> b2 < b"
  using read_exact_budget [of poll b 9 s hdr t b1] read_exact_budget [of poll b1 n t pl u b2] by simp

function capture_loop :: "'s source \<Rightarrow> nat \<Rightarrow> bytes \<Rightarrow> 's \<Rightarrow> bytes \<times> 's \<times> read_end" where
  "capture_loop poll b captured s =
     (case read_exact poll b 9 s of
        (hdr, s, None) \<Rightarrow> (captured, s, Cut hdr)
      | (hdr, s, Some b) \<Rightarrow>
          let captured = captured @ hdr; len = frame_len hdr; kind = hdr ! 3 in
          if 2 ^ 20 < len then (captured, s, Oversized)
          else (case read_exact poll b len s of
             (payload, s, None) \<Rightarrow> (captured, s, Cut payload)
           | (payload, s, Some b) \<Rightarrow>
               let captured = captured @ payload in
               if kind = 0x1 then (captured, s, Finished)
               else capture_loop poll b captured s))"
  by pat_completeness auto
termination
  by (relation "measure (\<lambda>(poll, b, captured, s). b)")
    (auto intro: read_exact_two [OF sym sym])

declare capture_loop.simps [simp del]

definition capture_h2_preamble :: "'s source \<Rightarrow> nat \<Rightarrow> 's \<Rightarrow> bytes \<times> 's \<times> read_end" where
  "capture_h2_preamble poll b s =
     (case read_exact poll b 24 s of
        (preface, s, None) \<Rightarrow> ([], s, Cut preface)
      | (preface, s, Some b) \<Rightarrow> capture_loop poll b preface s)"

definition capture_h2 :: "'s source \<Rightarrow> nat \<Rightarrow> 's \<Rightarrow> h2_fingerprint option" where
  "capture_h2 poll b s = (case capture_h2_preamble poll b s of (captured, _) \<Rightarrow>
     res_ok (fingerprint_h2 captured))"

lemma capture_loop_cases:
  assumes "capture_loop poll b cap s = (cap', s', e)"
  obtains (header) hdr where "read_exact poll b 9 s = (hdr, s', None)" "cap' = cap" "e = Cut hdr"
  | (oversized) hdr b1 where "read_exact poll b 9 s = (hdr, s', Some b1)" "2 ^ 20 < frame_len hdr"
      "cap' = cap @ hdr" "e = Oversized"
  | (payload) hdr t b1 pl where "read_exact poll b 9 s = (hdr, t, Some b1)"
      "frame_len hdr \<le> 2 ^ 20" "read_exact poll b1 (frame_len hdr) t = (pl, s', None)"
      "cap' = cap @ hdr" "e = Cut pl"
  | (finished) hdr t b1 pl b2 where "read_exact poll b 9 s = (hdr, t, Some b1)"
      "frame_len hdr \<le> 2 ^ 20" "read_exact poll b1 (frame_len hdr) t = (pl, s', Some b2)"
      "hdr ! 3 = 0x1" "cap' = cap @ hdr @ pl" "e = Finished"
  | (again) hdr t b1 pl u b2 where "read_exact poll b 9 s = (hdr, t, Some b1)"
      "frame_len hdr \<le> 2 ^ 20" "read_exact poll b1 (frame_len hdr) t = (pl, u, Some b2)"
      "hdr ! 3 \<noteq> 0x1" "capture_loop poll b2 (cap @ hdr @ pl) u = (cap', s', e)" "b2 < b"
proof -
  obtain hdr t o1 where h: "read_exact poll b 9 s = (hdr, t, o1)" by (metis prod_cases3)
  show thesis
  proof (cases o1)
    case None
    with assms h show ?thesis by (intro header) (auto simp: capture_loop.simps [of poll b])
  next
    case o1: (Some b1)
    show ?thesis
    proof (cases "2 ^ 20 < frame_len hdr")
      case True
      with assms h o1 show ?thesis
        by (intro oversized) (auto simp: capture_loop.simps [of poll b] Let_def)
    next
      case False
      obtain pl u o2 where p: "read_exact poll b1 (frame_len hdr) t = (pl, u, o2)"
        by (metis prod_cases3)
      show ?thesis
      proof (cases o2)
        case None
        with assms h o1 p False show ?thesis
          by (intro payload) (auto simp: capture_loop.simps [of poll b] Let_def)
      next
        case o2: (Some b2)
        have "b2 < b"
          using h p o1 o2 by (auto intro: read_exact_two)
        with assms h o1 p o2 False finished again show ?thesis
          by (cases "hdr ! 3 = 0x1") (simp_all add: capture_loop.simps [of poll b] Let_def)
      qed
    qed
  qed
qed

section \<open>What is captured\<close>

fun lost_bytes :: "read_end \<Rightarrow> bytes" where
  "lost_bytes (Cut bs) = bs"
| "lost_bytes _ = []"

context async_read begin

lemma capture_loop_content:
  "capture_loop poll b cap s = (cap', s', e) \<Longrightarrow>
     \<exists>got. cap' = cap @ got \<and> content s = got @ lost_bytes e @ content s'"
proof (induction b arbitrary: cap s rule: less_induct)
  case (less b)
  from less.prems show ?case
  proof (cases rule: capture_loop_cases)
    case (again hdr t b1 pl u b2)
    from less.IH [OF again(6,5)] read_exact_content [OF again(1)] read_exact_content [OF again(3)]
    show ?thesis by auto
  qed (auto dest!: read_exact_content)
qed

lemma capture_content:
  assumes "capture_h2_preamble poll b s = (captured, s', e)"
  shows "content s = captured @ lost_bytes e @ content s'"
proof -
  obtain pre t o1 where r: "read_exact poll b 24 s = (pre, t, o1)" by (metis prod_cases3)
  note c = read_exact_content [OF r]
  show ?thesis
  proof (cases o1)
    case None
    with assms r c show ?thesis by (auto simp: capture_h2_preamble_def)
  next
    case (Some b1)
    with assms r have "capture_loop poll b1 pre t = (captured, s', e)"
      by (simp add: capture_h2_preamble_def)
    from capture_loop_content [OF this] c show ?thesis by auto
  qed
qed

end

section \<open>What the capture holds\<close>

lemma unat_be24_bound: "unat (be32 0 a b c) < 16777216"
proof -
  have "uint (be32 0 a b c) < 16777216"
    using uint_u8_bounds [of a] uint_u8_bounds [of b] uint_u8_bounds [of c]
    by (simp only: uint_be32) simp
  then show ?thesis by (simp add: unat_less_uint)
qed

lemma frame_parts:
  assumes "length hdr = 9" and "length pl = frame_len hdr"
  obtains x where "frame_wf x" "frame_bytes x = hdr @ pl" "fr_kind (snd x) = hdr ! 3"
proof -
  from assms(1) obtain l0 l1 l2 k fl s0 s1 s2 s3 where h: "hdr = [l0, l1, l2, k, fl, s0, s1, s2, s3]"
    by (auto simp: length_Suc_conv numeral_eq_Suc)
  let ?f = "\<lparr>fr_kind = k, fr_flags = fl, fr_stream_id = be32 (s0 AND 0x7f) s1 s2 s3, fr_payload = pl\<rparr>"
  have n: "of_nat (length pl) = be32 0 l0 l1 l2"
    using assms(2) by (simp add: frame_len_def h)
  have "(s0 AND 0x7f) AND 0x7f = s0 AND 0x7f" by (simp add: and.assoc)
  moreover have "length pl < 16777216"
    using assms(2) unat_be24_bound [of l0 l1 l2] by (simp add: frame_len_def h)
  ultimately have "frame_wf (s0 AND 0x80, ?f)"
    using octet_top_cases [of s0] by (simp add: frame_wf_def be32_small)
  moreover have "frame_bytes (s0 AND 0x80, ?f) = hdr @ pl"
    by (simp add: frame_bytes_def n to_be32_be32 octet_split [symmetric] h)
  ultimately show thesis
    by (intro that [of "(s0 AND 0x80, ?f)"]) (simp_all only: snd_conv frame.select_convs h, simp)
qed

text \<open>Whole frames without a HEADERS, then what the reading ended with.\<close>

definition frames_before :: "(u8 \<times> frame) list \<Rightarrow> bool" where
  "frames_before xs \<longleftrightarrow> list_all (\<lambda>x. frame_wf x \<and> fr_kind (snd x) \<noteq> FRAME_HEADERS) xs"

definition captured_tail :: "read_end \<Rightarrow> bytes \<Rightarrow> bool" where
  "captured_tail e part \<longleftrightarrow>
     (case e of
        Finished \<Rightarrow> (\<exists>y. frame_wf y \<and> fr_kind (snd y) = FRAME_HEADERS \<and> part = frame_bytes y)
      | Oversized \<Rightarrow> length part = 9 \<and> 2 ^ 20 < frame_len part
      | Cut bs \<Rightarrow> part = [] \<or> (length part = 9 \<and> length bs < frame_len part))"

context async_read begin

lemma capture_loop_shape:
  "capture_loop poll b cap s = (cap', s', e) \<Longrightarrow>
     \<exists>xs part. frames_before xs \<and> captured_tail e part \<and>
       cap' = cap @ concat (map frame_bytes xs) @ part"
proof (induction b arbitrary: cap s rule: less_induct)
  case (less b)
  from less.prems show ?case
  proof (cases rule: capture_loop_cases)
    case (header hdr)
    then show ?thesis
      by (intro exI [of _ "[]"]) (simp add: frames_before_def captured_tail_def)
  next
    case (oversized hdr b1)
    with read_exact_content [OF oversized(1)] show ?thesis
      by - (rule exI [of _ "[]"], rule exI [of _ hdr], simp add: frames_before_def captured_tail_def)
  next
    case (payload hdr t b1 pl)
    with read_exact_content [OF payload(1)] read_exact_content [OF payload(3)] show ?thesis
      by - (rule exI [of _ "[]"], rule exI [of _ hdr], simp add: frames_before_def captured_tail_def)
  next
    case (finished hdr t b1 pl b2)
    from read_exact_content [OF finished(1)] read_exact_content [OF finished(3)]
    have "length hdr = 9" "length pl = frame_len hdr" by auto
    then obtain x where "frame_wf x" "frame_bytes x = hdr @ pl" "fr_kind (snd x) = hdr ! 3"
      by (rule frame_parts)
    with finished have "captured_tail e (hdr @ pl)"
      by (auto simp: captured_tail_def FRAME_HEADERS_def simp del: split_paired_Ex intro!: exI [of _ x])
    with finished show ?thesis
      by - (rule exI [of _ "[]"], rule exI [of _ "hdr @ pl"], simp add: frames_before_def)
  next
    case (again hdr t b1 pl u b2)
    from read_exact_content [OF again(1)] read_exact_content [OF again(3)]
    have "length hdr = 9" "length pl = frame_len hdr" by auto
    then obtain x where x: "frame_wf x" "frame_bytes x = hdr @ pl" "fr_kind (snd x) = hdr ! 3"
      by (rule frame_parts)
    from less.IH [OF again(6,5)] obtain xs part where
        "frames_before xs" "captured_tail e part" "cap' = (cap @ hdr @ pl) @ concat (map frame_bytes xs) @ part"
      by (elim exE conjE) (rule that)
    with x again(4) show ?thesis
      by (intro exI [of _ "x # xs"] exI [of _ part]) (simp add: frames_before_def FRAME_HEADERS_def)
  qed
qed

end

section \<open>When a capture parses\<close>

lemma frame_bytes_length: "9 \<le> length (frame_bytes x)"
  by (cases x) (simp add: frame_bytes_def)

lemma read_frame_header_only:
  assumes "length (unread r) = 9" and "0 < frame_len (unread r)"
  shows "read_frame r = Inl H2_Truncated"
proof (cases "read_frame r")
  case (Inl e)
  then show ?thesis
    by (auto simp: read_frame_def try_res_Inl map_err_Inl ok_or_Inl h2_from_parse_def)
next
  case (Inr y)
  then obtain f r' where y: "read_frame r = Inr (f, r')" by (cases y) simp
  from read_frame_sound [OF this] obtain rb where
    x: "frame_wf (rb, f)" "unread r = frame_bytes (rb, f) @ unread r'" by blast
  have "length (frame_bytes (rb, f)) + length (unread r') = 9"
    using assms(1) by (simp only: x(2) length_append)
  with frame_bytes_length [of "(rb, f)"] have "length (unread r') = 0" by linarith
  then have "unread r' = []" by (simp only: length_0_conv)
  with x(2) have u: "unread r = frame_bytes (rb, f)" by simp
  with assms(1) have "fr_payload f = []" by (simp add: frame_bytes_def)
  then have "frame_len (unread r) = 0"
    by (simp add: u frame_bytes_def frame_len_def to_be32_def be32_def)
  with assms(2) show ?thesis by simp
qed

lemma frame_walk_header_only:
  "frames_before xs \<Longrightarrow> reader_wf r \<Longrightarrow> unread r = concat (map frame_bytes xs) @ part \<Longrightarrow>
     length part = 9 \<Longrightarrow> 0 < frame_len part \<Longrightarrow> frame_walk r = Inl H2_Truncated"
proof (induction xs arbitrary: r)
  case Nil
  with read_frame_header_only [of r] length_unread [of r] show ?case
    by (simp add: frame_walk.simps [of r] try_res_def)
next
  case (Cons x xs)
  have "unread r = frame_bytes x @ concat (map frame_bytes xs) @ part"
    using Cons.prems(3) by simp
  from read_frame_complete [OF _ Cons.prems(2) this] Cons.prems(1) obtain r' where
      r': "read_frame r = Inr (snd x, r')" "unread r' = concat (map frame_bytes xs) @ part" "reader_wf r'"
    by (auto simp: frames_before_def)
  from Cons.prems(3) frame_bytes_length [of x] length_unread [of r] have "9 \<le> remaining r" by simp
  with r' Cons.IH [OF _ r'(3,2)] Cons.prems show ?case
    by (simp add: frame_walk.simps [of r] frames_before_def try_res_def)
qed

lemma walk_ends_before:
  "frames_before xs \<Longrightarrow> length rest < 9 \<Longrightarrow> walk_ends (map snd xs) rest"
proof (induction xs)
  case (Cons x xs)
  then show ?case by (cases xs) (auto simp: frames_before_def)
qed simp

lemma walk_ends_headers:
  "frames_before xs \<Longrightarrow> fr_kind (snd y) = FRAME_HEADERS \<Longrightarrow> walk_ends (map snd (xs @ [y])) rest"
proof (induction xs)
  case (Cons x xs)
  then show ?case by (cases xs) (auto simp: frames_before_def)
qed simp

lemma frames_before_wf: "frames_before xs \<Longrightarrow> list_all frame_wf xs"
  by (auto simp: frames_before_def list_all_iff)

lemma parse_whole:
  assumes "frames_before xs" and "length (PREFACE @ concat (map frame_bytes xs)) \<le> usize_max"
  shows "parse_preamble (PREFACE @ concat (map frame_bytes xs)) = Inr (map snd xs)"
  using parse_preamble_complete [OF frames_before_wf walk_ends_before, of xs "[]"] assms by simp

lemma parse_finished:
  assumes "frames_before xs" and "frame_wf y" and "fr_kind (snd y) = FRAME_HEADERS"
    and "length (PREFACE @ concat (map frame_bytes xs) @ frame_bytes y) \<le> usize_max"
  shows "parse_preamble (PREFACE @ concat (map frame_bytes xs) @ frame_bytes y) =
    Inr (map snd xs @ [snd y])"
  using parse_preamble_complete [OF _ walk_ends_headers [OF assms(1,3)], of "[]"] assms
  by (simp add: frames_before_wf)

lemma parse_header_only:
  assumes "frames_before xs" and "length part = 9" and "0 < frame_len part"
    and "length (PREFACE @ concat (map frame_bytes xs) @ part) \<le> usize_max"
  shows "parse_preamble (PREFACE @ concat (map frame_bytes xs) @ part) = Inl H2_Truncated"
proof -
  let ?r = "reader_new (PREFACE @ concat (map frame_bytes xs) @ part)"
  have "reader_wf ?r" using assms(4) by (rule reader_wf_new)
  from take_bytes_append [OF this] have t:
    "take_bytes (length PREFACE) ?r = Inr (PREFACE, advance (length PREFACE) ?r)"
    "unread (advance (length PREFACE) ?r) = concat (map frame_bytes xs) @ part"
    "reader_wf (advance (length PREFACE) ?r)"
    by simp_all
  from frame_walk_header_only [OF assms(1) t(3,2) assms(2,3)] show ?thesis
    by (simp only: parse_preamble_def t(1)) simp
qed

context async_read begin

lemma capture_shape:
  assumes "capture_h2_preamble poll b s = (captured, s', e)"
  shows "captured = [] \<and> (\<exists>bs. e = Cut bs \<and> length bs < 24) \<or>
    (\<exists>xs part. frames_before xs \<and> captured_tail e part \<and>
       captured = take 24 (content s) @ concat (map frame_bytes xs) @ part \<and> 24 \<le> length (content s))"
proof -
  obtain pre t o1 where r: "read_exact poll b 24 s = (pre, t, o1)" by (metis prod_cases3)
  note c = read_exact_content [OF r]
  show ?thesis
  proof (cases o1)
    case None
    with assms r c show ?thesis by (auto simp: capture_h2_preamble_def)
  next
    case (Some b1)
    with assms r have "capture_loop poll b1 pre t = (captured, s', e)"
      by (simp add: capture_h2_preamble_def)
    from capture_loop_shape [OF this] c Some show ?thesis by auto
  qed
qed

end

section \<open>The capture of a client that keeps sending\<close>

lemma frame_header:
  assumes "frame_wf x"
  shows "frame_bytes x = take 9 (frame_bytes x) @ fr_payload (snd x)"
    "length (take 9 (frame_bytes x)) = 9" "take 9 (frame_bytes x) ! 3 = fr_kind (snd x)"
    "frame_len (take 9 (frame_bytes x)) = length (fr_payload (snd x))"
proof -
  obtain rb f where x: "x = (rb, f)" by (cases x)
  from assms have l: "length (fr_payload f) < 16777216" by (simp add: frame_wf_def x)
  obtain a b c d where n: "to_be32 (of_nat (length (fr_payload f))) = [a, b, c, d]"
      "(of_nat (length (fr_payload f)) :: u32) = be32 a b c d"
    by (rule to_be32_cases)
  obtain s0 s1 s2 s3 where sid: "to_be32 (fr_stream_id f) = [s0, s1, s2, s3]"
    by (rule to_be32_cases)
  have fb: "frame_bytes x = [b, c, d, fr_kind f, fr_flags f, s0 OR rb, s1, s2, s3] @ fr_payload f"
    by (simp add: frame_bytes_def x n(1) sid)
  have "unat (be32 a b c d) = length (fr_payload f)"
    using l by (simp add: n(2) [symmetric] unat_of_nat)
  moreover have "a = 0"
  proof -
    have "unat (of_nat (length (fr_payload f)) :: u32) < 16777216"
      using l by (simp add: unat_of_nat)
    then have "uint (of_nat (length (fr_payload f)) :: u32) < 16777216"
      by (simp only: unat_less_uint)
    then have "uint (of_nat (length (fr_payload f)) :: u32) div 16777216 = 0" by simp
    with n(1) show ?thesis by (simp only: to_be32_def list.inject) simp
  qed
  ultimately show "frame_bytes x = take 9 (frame_bytes x) @ fr_payload (snd x)"
    "length (take 9 (frame_bytes x)) = 9" "take 9 (frame_bytes x) ! 3 = fr_kind (snd x)"
    "frame_len (take 9 (frame_bytes x)) = length (fr_payload (snd x))"
    unfolding fb by (simp_all add: x frame_len_def)
qed

definition small_frames :: "(u8 \<times> frame) list \<Rightarrow> bool" where
  "small_frames xs \<longleftrightarrow> list_all (\<lambda>x. length (fr_payload (snd x)) \<le> 2 ^ 20) xs"

context live_read begin

text \<open>The bytes that are next on the stream are what an exact read returns.\<close>

lemma read_next:
  assumes "alive s" and "content s = xs @ rest" and "waits s \<le> b"
  obtains s' b' where "read_exact poll b (length xs) s = (xs, s', Some b')" "alive s'"
    "content s' = rest" "waits s' \<le> b'"
  using read_exact_live [OF assms(1) _ assms(3), of "length xs"] assms(2) by auto

lemma read_frame_live:
  assumes "alive s" and "frame_wf x" and "content s = frame_bytes x @ rest" and "waits s \<le> b"
  obtains t b1 u b2 where "read_exact poll b 9 s = (take 9 (frame_bytes x), t, Some b1)"
    "read_exact poll b1 (length (fr_payload (snd x))) t = (fr_payload (snd x), u, Some b2)"
    "alive u" "content u = rest" "waits u \<le> b2"
proof -
  note h = frame_header [OF assms(2)]
  have "content s = take 9 (frame_bytes x) @ fr_payload (snd x) @ rest"
    using assms(3) h(1) by (metis append.assoc)
  from read_next [OF assms(1) this assms(4)] h(2) obtain t b1 where
      t: "read_exact poll b 9 s = (take 9 (frame_bytes x), t, Some b1)" "alive t"
        "content t = fr_payload (snd x) @ rest" "waits t \<le> b1"
    by metis
  from read_next [OF t(2,3,4)] obtain u b2 where
      "read_exact poll b1 (length (fr_payload (snd x))) t = (fr_payload (snd x), u, Some b2)"
      "alive u" "content u = rest" "waits u \<le> b2"
    by blast
  with t(1) show thesis by (rule that)
qed

lemma capture_loop_frame:
  assumes "alive s" and "frame_wf x" and "length (fr_payload (snd x)) \<le> 2 ^ 20"
    and "content s = frame_bytes x @ rest" and "waits s \<le> b"
  obtains s' b' where "alive s'" "content s' = rest" "waits s' \<le> b'"
    "capture_loop poll b cap s =
      (if fr_kind (snd x) = FRAME_HEADERS then (cap @ frame_bytes x, s', Finished)
       else capture_loop poll b' (cap @ frame_bytes x) s')"
proof -
  note h = frame_header [OF assms(2)]
  from read_frame_live [OF assms(1,2,4,5)] obtain t b1 u b2 where
      r: "read_exact poll b 9 s = (take 9 (frame_bytes x), t, Some b1)"
        "read_exact poll b1 (length (fr_payload (snd x))) t = (fr_payload (snd x), u, Some b2)"
        "alive u" "content u = rest" "waits u \<le> b2"
    by blast
  have "(cap @ take 9 (frame_bytes x)) @ fr_payload (snd x) = cap @ frame_bytes x"
    using h(1) by simp
  with r(1,2) assms(3) show thesis
    by (intro that [OF r(3-5)])
      (simp add: capture_loop.simps [of poll b] h(3,4) Let_def FRAME_HEADERS_def)
qed

lemma capture_loop_before:
  "alive s \<Longrightarrow> frames_before xs \<Longrightarrow> small_frames xs \<Longrightarrow>
     content s = concat (map frame_bytes xs) @ rest \<Longrightarrow> waits s \<le> b \<Longrightarrow>
     \<exists>s' b'. alive s' \<and> content s' = rest \<and> waits s' \<le> b' \<and>
       capture_loop poll b cap s = capture_loop poll b' (cap @ concat (map frame_bytes xs)) s'"
proof (induction xs arbitrary: s b cap)
  case Nil
  then show ?case by auto
next
  case (Cons x xs)
  from Cons.prems have x: "frame_wf x" "fr_kind (snd x) \<noteq> FRAME_HEADERS"
    "length (fr_payload (snd x)) \<le> 2 ^ 20"
    and xs: "frames_before xs" "small_frames xs"
    and c: "content s = frame_bytes x @ concat (map frame_bytes xs) @ rest"
    by (simp_all add: frames_before_def small_frames_def)
  from capture_loop_frame [OF Cons.prems(1) x(1,3) c Cons.prems(5), of cap] x(2) obtain s1 b1 where
      "alive s1" "content s1 = concat (map frame_bytes xs) @ rest" "waits s1 \<le> b1"
      "capture_loop poll b cap s = capture_loop poll b1 (cap @ frame_bytes x) s1"
    by metis
  with Cons.IH [OF this(1) xs this(2,3), of "cap @ frame_bytes x"] show ?case
    by (elim exE conjE) (intro exI conjI, auto)
qed

text \<open>A client that sends the preface, frames and a HEADERS is captured up to the HEADERS.\<close>

lemma capture_live:
  assumes "alive s" and "frames_before xs" and "small_frames (xs @ [y])" and "frame_wf y"
    and "fr_kind (snd y) = FRAME_HEADERS" and "waits s \<le> b"
    and "content s = PREFACE @ concat (map frame_bytes xs) @ frame_bytes y @ rest"
  obtains s' where "capture_h2_preamble poll b s =
      (PREFACE @ concat (map frame_bytes xs) @ frame_bytes y, s', Finished)" "content s' = rest"
proof -
  have l: "length PREFACE = 24" by (simp add: PREFACE_def)
  from read_next [OF assms(1,7,6)] l obtain t b1 where
      t: "read_exact poll b 24 s = (PREFACE, t, Some b1)" "alive t"
        "content t = concat (map frame_bytes xs) @ frame_bytes y @ rest" "waits t \<le> b1"
    by metis
  have sm: "small_frames xs" "length (fr_payload (snd y)) \<le> 2 ^ 20"
    using assms(3) by (simp_all add: small_frames_def)
  from capture_loop_before [OF t(2) assms(2) sm(1) t(3,4), of PREFACE] obtain u b2 where
      u: "alive u" "content u = frame_bytes y @ rest" "waits u \<le> b2"
        "capture_loop poll b1 PREFACE t = capture_loop poll b2 (PREFACE @ concat (map frame_bytes xs)) u"
    by blast
  from capture_loop_frame [OF u(1) assms(4) sm(2) u(2,3)] assms(5) obtain v where
      "content v = rest" "capture_loop poll b2 (PREFACE @ concat (map frame_bytes xs)) u
        = ((PREFACE @ concat (map frame_bytes xs)) @ frame_bytes y, v, Finished)"
    by metis
  with t(1) u(4) show thesis
    by (intro that [of v]) (simp_all add: capture_h2_preamble_def)
qed

text \<open>One that sends only a frame's header after whole frames leaves that header captured.\<close>

lemma capture_stalled:
  assumes "alive s" and "frames_before xs" and "small_frames xs" and "waits s \<le> b"
    and "length part = 9" and "0 < frame_len part"
    and "content s = PREFACE @ concat (map frame_bytes xs) @ part"
  obtains s' e where "capture_h2_preamble poll b s = (PREFACE @ concat (map frame_bytes xs) @ part, s', e)"
    "e \<noteq> Finished" "lost_bytes e = []"
proof -
  have l: "length PREFACE = 24" by (simp add: PREFACE_def)
  from read_next [OF assms(1,7,4)] l obtain t b1 where
      t: "read_exact poll b 24 s = (PREFACE, t, Some b1)" "alive t"
        "content t = concat (map frame_bytes xs) @ part" "waits t \<le> b1"
    by metis
  from capture_loop_before [OF t(2) assms(2,3) t(3,4), of PREFACE] obtain u b2 where
      u: "alive u" "content u = part @ []" "waits u \<le> b2"
        "capture_loop poll b1 PREFACE t = capture_loop poll b2 (PREFACE @ concat (map frame_bytes xs)) u"
    by auto
  from read_next [OF u(1-3)] assms(5) obtain v b3 where
      v: "read_exact poll b2 9 u = (part, v, Some b3)" "content v = []"
    by metis
  obtain pl w o2 where p: "read_exact poll b3 (frame_len part) v = (pl, w, o2)"
    by (metis prod_cases3)
  from read_exact_content [OF p] v(2) assms(6) have "o2 = None" "pl = []" by auto
  with p v(1) t(1) u(4) show thesis
    by (cases "2 ^ 20 < frame_len part")
      (auto intro!: that simp: capture_h2_preamble_def capture_loop.simps [of poll b2] Let_def)
qed

end

section \<open>Properties\<close>

lemma replay_after_capture:
  assumes "async_read poll content" and "capture_h2_preamble poll b s = (captured, s', e)"
    and "reads (replaying_poll poll) ns (replaying_new captured s') = (bs, r)"
  shows "content s = captured @ lost_bytes e @ content s'"
    and "bs @ replay_content content r = captured @ content s'"
proof -
  show "content s = captured @ lost_bytes e @ content s'"
    using async_read.capture_content [OF assms(1,2)] .
  from async_read.reads_content [OF async_read.replayed_async [OF assms(1)] assms(3)]
  show "bs @ replay_content content r = captured @ content s'"
    by (simp add: replay_content_def replaying_new_def)
qed

text \<open>
  Whatever the sizes of its reads, the server that takes the connection over after the
  capture sees the client's byte stream unchanged exactly when the capture did not stop inside
  an exact read: what such a read had already taken is in no buffer and is lost.
\<close>

theorem replay_exact_iff:
  assumes "async_read poll content" and "capture_h2_preamble poll b s = (captured, s', e)"
    and "reads (replaying_poll poll) ns (replaying_new captured s') = (bs, r)"
  shows "bs @ replay_content content r = content s \<longleftrightarrow> lost_bytes e = []"
  using replay_after_capture [OF assms] by simp

text \<open>A client whose second frame stops halfway, and then nothing until the timer.\<close>

definition half_sent :: "event list" where
  "half_sent = [Segment PREFACE, Segment [0, 0, 6, 4, 0, 0, 0, 0, 0, 0, 4], Wait, Segment [0, 0x60, 0, 0]]"

lemma half_sent_capture:
  "capture_h2_preamble wire_poll 4 half_sent =
     (PREFACE @ [0, 0, 6, 4, 0, 0, 0, 0, 0], [Segment [0, 0x60, 0, 0]], Cut [0, 4])"
  by code_simp

lemma replay_exact_iff_witness:
  "\<exists>bs r. reads (replaying_poll wire_poll) [100, 100]
       (replaying_new (PREFACE @ [0, 0, 6, 4, 0, 0, 0, 0, 0]) [Segment [0, 0x60, 0, 0]]) = (bs, r) \<and>
     bs @ replay_content wire_content r \<noteq> wire_content half_sent"
proof -
  obtain bs r where r: "reads (replaying_poll wire_poll) [100, 100]
       (replaying_new (PREFACE @ [0, 0, 6, 4, 0, 0, 0, 0, 0]) [Segment [0, 0x60, 0, 0]]) = (bs, r)"
    by fastforce
  from replay_exact_iff [OF wire_async half_sent_capture this] r show ?thesis by auto
qed


text \<open>
  C18. The capture returns: on a stream that goes on delivering, a client that sends the preface,
  any number of frames and a HEADERS frame, none above the size bound, is captured up to the end of the HEADERS
  within as many polls as the stream needs, whatever its segments and pauses, and has a
  fingerprint.
\<close>

theorem capture_returns:
  assumes "live_read poll content alive waits" and "alive s" and "waits s \<le> b"
    and "frames_before xs" and "small_frames (xs @ [y])" and "frame_wf y"
    and "fr_kind (snd y) = FRAME_HEADERS"
    and "content s = PREFACE @ concat (map frame_bytes xs) @ frame_bytes y @ rest"
    and "length (PREFACE @ concat (map frame_bytes xs) @ frame_bytes y) \<le> usize_max"
  shows "\<exists>s' fp. capture_h2_preamble poll b s =
      (PREFACE @ concat (map frame_bytes xs) @ frame_bytes y, s', Finished) \<and> content s' = rest \<and>
    capture_h2 poll b s = Some fp \<and> hf_headers fp = decode_headers (snd y)"
proof -
  from live_read.capture_live [OF assms(1,2,4-7,3,8)] obtain s' where
      c: "capture_h2_preamble poll b s =
        (PREFACE @ concat (map frame_bytes xs) @ frame_bytes y, s', Finished)" "content s' = rest"
    by blast
  have "List.find (\<lambda>f. fr_kind f = FRAME_HEADERS) (map snd xs @ [snd y]) = Some (snd y)"
    using assms(4,7) by (induction xs) (simp_all add: frames_before_def)
  with c parse_finished [OF assms(4,6,7,9)] show ?thesis
    by (simp add: capture_h2_def fingerprint_h2_def Let_def)
qed

text \<open>The sample preamble of the frame reader, in pieces and with a pause.\<close>

definition pieces :: "event list" where
  "pieces =
     [Segment (take 20 sample_preamble), Segment (take 10 (drop 20 sample_preamble)), Wait,
      Segment (drop 30 sample_preamble)]"

lemma pieces_ok:
  "wire_alive pieces" "wire_waits pieces \<le> 100"
  "frames_before [sample_frames ! 0]" "small_frames ([sample_frames ! 0] @ [sample_frames ! 1])"
  "frame_wf (sample_frames ! 1)" "fr_kind (snd (sample_frames ! 1)) = FRAME_HEADERS"
  "wire_content pieces = PREFACE @ concat (map frame_bytes [sample_frames ! 0]) @
     frame_bytes (sample_frames ! 1) @ [0, 0, 1]"
  "length (PREFACE @ concat (map frame_bytes [sample_frames ! 0]) @ frame_bytes (sample_frames ! 1))
     \<le> usize_max"
  by code_simp+

lemma capture_returns_witness:
  "\<exists>s' fp. capture_h2_preamble wire_poll 100 pieces =
      (PREFACE @ concat (map frame_bytes [sample_frames ! 0]) @ frame_bytes (sample_frames ! 1), s', Finished) \<and>
    wire_content s' = [0, 0, 1] \<and> capture_h2 wire_poll 100 pieces = Some fp \<and>
    hf_headers fp = decode_headers (snd (sample_frames ! 1))"
  by (rule capture_returns [OF wire.live_read_axioms pieces_ok])

lemma pieces_captured:
  "capture_h2_preamble wire_poll 100 pieces = (butlast (butlast (butlast sample_preamble)), [Segment [0, 0, 1]], Finished)"
  "take 24 (wire_content pieces) = PREFACE"
  "length (butlast (butlast (butlast sample_preamble))) \<le> usize_max"
  by code_simp+


text \<open>
  A partial capture is thrown away when it stops inside a frame: a client whose SETTINGS
  and WINDOW_UPDATE arrived in full gets no fingerprint once the next frame's nine-byte header
  was read without its payload, although the whole frames alone have one.
\<close>

theorem partial_capture_lost:
  assumes "live_read poll content alive waits" and "alive s" and "waits s \<le> b"
    and "frames_before xs" and "small_frames xs" and "length part = 9" and "0 < frame_len part"
    and "content s = PREFACE @ concat (map frame_bytes xs) @ part"
    and "length (content s) \<le> usize_max"
  shows "capture_h2 poll b s = None \<and>
    (\<exists>fp. fingerprint_h2 (PREFACE @ concat (map frame_bytes xs)) = Inr fp \<and>
       hf_settings fp = settings_pairs (map snd xs) \<and> hf_window_update fp = window_update (map snd xs))"
proof
  from live_read.capture_stalled [OF assms(1,2,4,5,3,6,7,8)] obtain s' e where
    "capture_h2_preamble poll b s = (PREFACE @ concat (map frame_bytes xs) @ part, s', e)"
    by blast
  with parse_header_only [OF assms(4,6,7)] assms(8,9) show "capture_h2 poll b s = None"
    by (simp add: capture_h2_def fingerprint_h2_def)
  from parse_whole [OF assms(4)] assms(8,9)
  show "\<exists>fp. fingerprint_h2 (PREFACE @ concat (map frame_bytes xs)) = Inr fp \<and>
       hf_settings fp = settings_pairs (map snd xs) \<and> hf_window_update fp = window_update (map snd xs)"
    by (simp add: fingerprint_h2_def Let_def)
qed

definition header_only :: "event list" where
  "header_only =
     [Segment (PREFACE @ concat (map frame_bytes [sample_frames ! 0])), Segment [0, 0, 1, 1, 5, 0, 0, 0, 1]]"

lemma header_only_ok:
  "wire_alive header_only" "wire_waits header_only \<le> 100"
  "frames_before [sample_frames ! 0]" "small_frames [sample_frames ! 0]"
  "length [0, 0, 1, 1, 5, 0, 0, 0, 1 :: u8] = 9" "0 < frame_len [0, 0, 1, 1, 5, 0, 0, 0, 1]"
  "wire_content header_only = PREFACE @ concat (map frame_bytes [sample_frames ! 0]) @ [0, 0, 1, 1, 5, 0, 0, 0, 1]"
  "length (wire_content header_only) \<le> usize_max"
  by code_simp+

lemma partial_capture_lost_witness:
  "capture_h2 wire_poll 100 header_only = None"
  using partial_capture_lost [OF wire.live_read_axioms header_only_ok] by blast

text \<open>
  The tee keeps the first bytes the reader was given, up to its cap, and changes nothing of
  what the reader is given.
\<close>

theorem recording_keeps_first:
  "reads (recording_poll poll) ns (recording_new s) =
     (case reads poll ns s of (bs, s') \<Rightarrow>
        (bs, \<lparr>rc_inner = s', rc_seen = take DEFAULT_CAP bs, rc_poisoned = False, rc_cap = DEFAULT_CAP\<rparr>))"
proof -
  obtain bs r where r: "reads (recording_poll poll) ns (recording_new s) = (bs, r)" by fastforce
  have "\<not> rc_poisoned (recording_new s)" "rc_seen (recording_new s) = take (rc_cap (recording_new s)) []"
    by (simp_all add: recording_new_def recording_with_cap_def)
  from reads_recording [OF r this] show ?thesis
    unfolding r by (cases r) (simp add: recording_new_def recording_with_cap_def)
qed

end
