(* ===== verification/Probe.thy ===== *)
theory Probe
  imports Capture
begin

text \<open>
  The capture probe, \<open>Probe::accept_one\<close> of \<open>fingerprint-probe/src/probe.rs\<close>. The TLS library is
  the parameter \<open>tls\<close>: it drives the recorded connection and yields, if the timer does not
  elapse first, an error or the protocol agreed on and a stream of plaintext.
\<close>

datatype 'e probe_error =
    Probe_Io 'e | Probe_Tls string | Probe_Cert string | NoConnection | NoClientHello

text \<open>\<open>tokio::time::timeout\<close>.\<close>

datatype 'a timed = Elapsed | In_Time 'a

type_synonym ('c, 's, 'e) tls_accept =
  "'c recording_stream \<Rightarrow> ('e + bytes option \<times> 's) timed \<times> 'c recording_stream"

definition probe_url :: "nat \<Rightarrow> string" where
  "probe_url port = ''https://127.0.0.1:'' @ dec_string port @ ''/''"

text \<open>\<open>seen.lock().map(|g| g.clone()).unwrap_or_default()\<close>\<close>

definition seen_bytes :: "'c recording_stream \<Rightarrow> bytes" where
  "seen_bytes r = (if rc_poisoned r then [] else rc_seen r)"

text \<open>\<open>Probe::bind_on\<close>: a fresh certificate, its key, the TLS configuration and the listener, each of
  which may fail.\<close>

record ('a, 'e) probe_parts =
  pp_certificate :: "string + string"
  pp_key :: "string + unit"
  pp_tls :: "string + 'a"
  pp_listen :: "nat \<Rightarrow> 'e + nat"

record 'a probe =
  pb_acceptor :: 'a
  pb_cert_pem :: string
  pb_port :: nat

definition probe_bind_on :: "('a, 'e) probe_parts \<Rightarrow> nat \<Rightarrow> 'e probe_error + 'a probe" where
  "probe_bind_on parts port =
     try_res (map_err Probe_Cert (pp_certificate parts)) (\<lambda>cert_pem.
     try_res (map_err Probe_Cert (pp_key parts)) (\<lambda>_.
     try_res (map_err Probe_Tls (pp_tls parts)) (\<lambda>acceptor.
     try_res (map_err Probe_Io (pp_listen parts port)) (\<lambda>port.
     Inr \<lparr>pb_acceptor = acceptor, pb_cert_pem = cert_pem, pb_port = port\<rparr>))))"

definition probe_bind :: "('a, 'e) probe_parts \<Rightarrow> 'e probe_error + 'a probe" where
  "probe_bind parts = probe_bind_on parts 0"

definition accept_one ::
    "digest \<Rightarrow> digest \<Rightarrow> 's source \<Rightarrow> nat \<Rightarrow> ('c, 's, 'e) tls_accept \<Rightarrow> ('e + 'c) timed
      \<Rightarrow> 'e probe_error + client_report" where
  "accept_one sha md poll b tls accepted =
     (case accepted of
        Elapsed \<Rightarrow> Inl NoConnection
      | In_Time (Inl e) \<Rightarrow> Inl (Probe_Io e)
      | In_Time (Inr tcp) \<Rightarrow>
          (case tls (recording_new tcp) of (handshake, recorded) \<Rightarrow>
             let raw = seen_bytes recorded in
             try_res (map_err (\<lambda>_. NoClientHello) (fingerprint sha md raw)) (\<lambda>fp.
             let (h2, alpn, failed) =
                   (case handshake of
                      In_Time (Inr (proto, stream)) \<Rightarrow>
                        let alpn = map_option from_utf8_lossy proto;
                            h2 = (if alpn = Some ''h2'' then capture_h2 poll b stream else None)
                        in (h2, alpn, False)
                    | In_Time (Inl _) \<Rightarrow> (None, None, True)
                    | Elapsed \<Rightarrow> (None, None, True))
             in Inr \<lparr>cr_tls = fp, cr_raw_hello = retain raw, cr_h2 = h2, cr_alpn = alpn,
                     cr_handshake_failed = failed\<rparr>)))"

section \<open>Properties\<close>

lemma accept_one_report:
  assumes "accept_one sha md poll b tls accepted = Inr rep"
  obtains tcp handshake recorded where "accepted = In_Time (Inr tcp)"
    "tls (recording_new tcp) = (handshake, recorded)"
    "fingerprint sha md (seen_bytes recorded) = Inr (cr_tls rep)"
    "cr_raw_hello rep = retain (seen_bytes recorded)"
  using assms
  by (auto simp: accept_one_def Let_def res_simps split: timed.splits sum.splits prod.splits)

text \<open>
  The probe's errors, completely: no connection within the timeout, an error of the
  listener, or recorded bytes that do not parse as a ClientHello. A handshake that fails or does not finish is
  never one.
\<close>

theorem accept_one_errors:
  "accept_one sha md poll b tls accepted = Inl e \<longleftrightarrow>
     accepted = Elapsed \<and> e = NoConnection \<or>
     (\<exists>x. accepted = In_Time (Inl x) \<and> e = Probe_Io x) \<or>
     (\<exists>tcp err. accepted = In_Time (Inr tcp) \<and> e = NoClientHello \<and>
        parse_hello (seen_bytes (snd (tls (recording_new tcp)))) = Inl err)"
  by (cases accepted)
    (auto simp: accept_one_def Let_def try_res_Inl map_err_Inl fingerprint_def
      split: sum.splits prod.splits timed.splits)

lemma accept_one_client_bytes:
  assumes "async_read poll content"
    and "\<And>r. \<exists>ns bs. reads (recording_poll poll) ns r = (bs, snd (tls r))"
    and "accept_one sha md poll' b tls (In_Time (Inr tcp)) = Inr rep"
  shows "\<exists>sent rest. content tcp = sent @ rest \<and> length sent \<le> DEFAULT_CAP \<and>
    fingerprint sha md sent = Inr (cr_tls rep) \<and> cr_raw_hello rep = take MAX_RETAINED_HELLO sent"
proof -
  obtain handshake recorded where
      t: "tls (recording_new tcp) = (handshake, recorded)"
        "fingerprint sha md (seen_bytes recorded) = Inr (cr_tls rep)"
        "cr_raw_hello rep = retain (seen_bytes recorded)"
    by (rule accept_one_report [OF assms(3)]) (auto intro: that)
  from assms(2) [of "recording_new tcp"] t(1) obtain ns bs where
      r: "reads (recording_poll poll) ns (recording_new tcp) = (bs, recorded)"
    by auto
  have "\<not> rc_poisoned (recording_new tcp)" "rc_seen (recording_new tcp) = take (rc_cap (recording_new tcp)) []"
    by (simp_all add: recording_new_def recording_with_cap_def)
  from reads_recording [OF r this] have k:
      "reads poll ns tcp = (bs, rc_inner recorded)" "seen_bytes recorded = take DEFAULT_CAP bs"
    by (simp_all add: seen_bytes_def recording_new_def recording_with_cap_def)
  from async_read.reads_content [OF assms(1) k(1)]
  have "content tcp = take DEFAULT_CAP bs @ drop DEFAULT_CAP bs @ content (rc_inner recorded)"
    by simp
  with t k(2) show ?thesis
    by - (rule exI [of _ "take DEFAULT_CAP bs"],
      rule exI [of _ "drop DEFAULT_CAP bs @ content (rc_inner recorded)"],
      simp add: retain_take MAX_RETAINED_HELLO_def)
qed

text \<open>
  A report describes bytes the client sent: for a TLS library that only reads the connection
  it is given, the fingerprint is taken from, and the retained hello is, an initial part of the
  client's stream, whether or not the handshake succeeded.
\<close>

theorem probe_reports_client_bytes:
  assumes "async_read poll content"
    and "\<And>r. \<exists>ns bs. reads (recording_poll poll) ns r = (bs, snd (tls r))"
    and "accept_one sha md poll' b tls (In_Time (Inr tcp)) = Inr rep"
  shows "\<exists>sent rest. content tcp = sent @ rest \<and> length sent \<le> DEFAULT_CAP \<and>
    fingerprint sha md sent = Inr (cr_tls rep) \<and> cr_raw_hello rep = take MAX_RETAINED_HELLO sent"
  by (rule accept_one_client_bytes [OF assms])

text \<open>A TLS library that reads a ClientHello, and then the timer elapses.\<close>

definition reading_tls :: "(event list, event list, string) tls_accept" where
  "reading_tls r = (Elapsed, snd (reads (recording_poll wire_poll) [5, 1000] r))"

lemma reading_tls_seen:
  "seen_bytes (snd (reading_tls (recording_new [Segment (wire_bytes sample_wire)]))) = wire_bytes sample_wire"
  by code_simp

lemma sample_report_read:
  obtains rep where "accept_one (\<lambda>b. b) (\<lambda>b. b) wire_poll 100 reading_tls
      (In_Time (Inr [Segment (wire_bytes sample_wire)])) = Inr rep"
proof -
  have a: "accept_one (\<lambda>b. b) (\<lambda>b. b) wire_poll 100 reading_tls
      (In_Time (Inr [Segment (wire_bytes sample_wire)])) = Inl e \<Longrightarrow> False" for e
    using sample_wire_hello reading_tls_seen
    by (auto simp: accept_one_def fingerprint_def Let_def try_res_Inl map_err_Inl
        split: prod.splits timed.splits sum.splits)
  then show thesis
    using that by (meson sum.exhaust)
qed

lemma probe_reports_client_bytes_witness:
  "\<exists>rep sent rest. accept_one (\<lambda>b. b) (\<lambda>b. b) wire_poll 100 reading_tls
       (In_Time (Inr [Segment (wire_bytes sample_wire)])) = Inr rep \<and>
     wire_content [Segment (wire_bytes sample_wire)] = sent @ rest \<and>
     fingerprint (\<lambda>b. b) (\<lambda>b. b) sent = Inr (cr_tls rep)"
proof -
  obtain rep where rep: "accept_one (\<lambda>b. b) (\<lambda>b. b) wire_poll 100 reading_tls
      (In_Time (Inr [Segment (wire_bytes sample_wire)])) = Inr rep"
    by (rule sample_report_read)
  have "\<exists>ns bs. reads (recording_poll wire_poll) ns r = (bs, snd (reading_tls r))" for r
    by (metis prod.collapse reading_tls_def snd_conv)
  from probe_reports_client_bytes [OF wire_async this rep] rep show ?thesis by blast
qed

end
