(* ===== verification/Ip_Text.thy ===== *)
theory Ip_Text
  imports Rust_Text
begin

text \<open>
  Addresses as \<open>render_ip\<close> of \<open>fingerprint-probe/src/serve.rs\<close> writes them, with the standard
  library's \<open>Display\<close> of IP addresses. The lemmas say exactly what a truncated address reveals.
\<close>

datatype ip_addr = V4 u8 u8 u8 u8 | V6 "u16 list"

type_synonym socket_addr = "ip_addr \<times> nat"

datatype ip_mode = Full_Ip | Truncated_Ip | Omitted_Ip

section \<open>The standard library's rendering\<close>

definition dec8 :: "u8 \<Rightarrow> string" where "dec8 b = dec_string (unat b)"

definition hex16 :: "u16 \<Rightarrow> string" where "hex16 s = hex_string (unat s)"

definition v4_string :: "bytes \<Rightarrow> string" where
  "v4_string octets = str_join ''.'' (map dec8 octets)"

text \<open>The first of the longest runs of zero segments, as start and length.\<close>

fun zero_run :: "u16 list \<Rightarrow> nat \<Rightarrow> nat \<times> nat \<Rightarrow> nat \<times> nat \<Rightarrow> nat \<times> nat" where
  "zero_run [] i longest current = longest"
| "zero_run (s # ss) i longest current =
     (if s = 0 then
        let current = (if snd current = 0 then i else fst current, snd current + 1)
        in zero_run ss (i + 1) (if snd longest < snd current then current else longest) current
      else zero_run ss (i + 1) longest (0, 0))"

definition segments_string :: "u16 list \<Rightarrow> string" where
  "segments_string ss = str_join '':'' (map hex16 ss)"

definition v6_string :: "u16 list \<Rightarrow> string" where
  "v6_string ss =
     (if take 6 ss = [0, 0, 0, 0, 0, 0xffff] then
        ''::ffff:'' @ v4_string (to_be16 (ss ! 6) @ to_be16 (ss ! 7))
      else case zero_run ss 0 (0, 0) (0, 0) of (start, len) \<Rightarrow>
        if 1 < len then segments_string (take start ss) @ ''::'' @ segments_string (drop (start + len) ss)
        else segments_string ss)"

definition ip_string :: "ip_addr \<Rightarrow> string" where
  "ip_string ip = (case ip of V4 a b c d \<Rightarrow> v4_string [a, b, c, d] | V6 ss \<Rightarrow> v6_string ss)"

section \<open>What is recorded of an address\<close>

definition render_ip :: "socket_addr \<Rightarrow> ip_mode \<Rightarrow> string" where
  "render_ip addr mode =
     (case mode of
        Omitted_Ip \<Rightarrow> ''-''
      | Full_Ip \<Rightarrow> ip_string (fst addr)
      | Truncated_Ip \<Rightarrow>
          (case fst addr of
             V4 a b c d \<Rightarrow> dec8 a @ ''.'' @ dec8 b @ ''.'' @ dec8 c @ ''.0''
           | V6 s \<Rightarrow> hex16 (s ! 0) @ '':'' @ hex16 (s ! 1) @ '':'' @ hex16 (s ! 2) @ ''::''))"

lemma ip_string_samples:
  "ip_string (V4 203 0 113 42) = ''203.0.113.42''"
  "ip_string (V6 [0x2001, 0xdb8, 0, 0, 0, 0, 0, 1]) = ''2001:db8::1''"
  "ip_string (V6 [0, 0, 0, 0, 0, 0, 0, 1]) = ''::1''"
  "ip_string (V6 [0, 0, 0, 0, 0, 0xffff, 0xcb00, 0x712a]) = ''::ffff:203.0.113.42''"
  by code_simp+

section \<open>What a truncated address reveals\<close>

lemma dec8_inj [simp]: "dec8 a = dec8 b \<longleftrightarrow> a = b"
  by (simp add: dec8_def word_unat_eq_iff)

lemma hex16_inj [simp]: "hex16 a = hex16 b \<longleftrightarrow> a = b"
  by (simp add: hex16_def word_unat_eq_iff)

lemma dec8_plain: "CHR ''.'' \<notin> set (dec8 b)" "CHR '':'' \<notin> set (dec8 b)"
  by (auto simp: dec8_def is_digit_def dest!: dec_string_digits)

lemma hex16_plain: "CHR ''.'' \<notin> set (hex16 b)" "CHR '':'' \<notin> set (hex16 b)"
  by (auto simp: hex16_def is_hex_def is_digit_def dest!: hex_string_hex)

text \<open>What a truncated rendering is to keep: three octets, or three segments.\<close>

definition ip_prefix :: "ip_addr \<Rightarrow> u8 list + u16 list" where
  "ip_prefix ip = (case ip of V4 a b c d \<Rightarrow> Inl [a, b, c] | V6 ss \<Rightarrow> Inr [ss ! 0, ss ! 1, ss ! 2])"

lemma render_ip_mode_v4:
  "render_ip (V4 a b c d, p) Truncated_Ip = dec8 a @ CHR ''.'' # dec8 b @ CHR ''.'' # dec8 c @ CHR ''.'' # ''0''"
  by (simp add: render_ip_def)

lemma render_ip_mode_v6:
  "render_ip (V6 s, p) Truncated_Ip = hex16 (s ! 0) @ CHR '':'' # hex16 (s ! 1) @ CHR '':'' # hex16 (s ! 2) @ CHR '':'' # '':''"
  by (simp add: render_ip_def)

lemma truncated_v4_iff:
  "render_ip (V4 a b c d, p) Truncated_Ip = render_ip (V4 a' b' c' d', p') Truncated_Ip
     \<longleftrightarrow> [a, b, c] = [a', b', c']"
proof
  assume e: "render_ip (V4 a b c d, p) Truncated_Ip = render_ip (V4 a' b' c' d', p') Truncated_Ip"
  note s1 = sep_inj [OF e [unfolded render_ip_mode_v4] dec8_plain(1) dec8_plain(1)]
  note s2 = sep_inj [OF conjunct2 [OF s1] dec8_plain(1) dec8_plain(1)]
  note s3 = sep_inj [OF conjunct2 [OF s2] dec8_plain(1) dec8_plain(1)]
  from s1 s2 s3 show "[a, b, c] = [a', b', c']" by simp
qed (simp add: render_ip_mode_v4)

lemma truncated_v6_iff:
  "render_ip (V6 s, p) Truncated_Ip = render_ip (V6 s', p') Truncated_Ip
     \<longleftrightarrow> [s ! 0, s ! 1, s ! 2] = [s' ! 0, s' ! 1, s' ! 2]"
proof
  assume e: "render_ip (V6 s, p) Truncated_Ip = render_ip (V6 s', p') Truncated_Ip"
  note s1 = sep_inj [OF e [unfolded render_ip_mode_v6] hex16_plain(2) hex16_plain(2)]
  note s2 = sep_inj [OF conjunct2 [OF s1] hex16_plain(2) hex16_plain(2)]
  note s3 = sep_inj [OF conjunct2 [OF s2] hex16_plain(2) hex16_plain(2)]
  from s1 s2 s3 show "[s ! 0, s ! 1, s ! 2] = [s' ! 0, s' ! 1, s' ! 2]" by simp
qed (simp add: render_ip_mode_v6)

lemma truncated_v4_v6: "render_ip (V4 a b c d, p) Truncated_Ip \<noteq> render_ip (V6 s, p') Truncated_Ip"
proof
  assume "render_ip (V4 a b c d, p) Truncated_Ip = render_ip (V6 s, p') Truncated_Ip"
  then have "last (render_ip (V4 a b c d, p) Truncated_Ip) = last (render_ip (V6 s, p') Truncated_Ip)"
    by simp
  then show False by (simp add: render_ip_mode_v4 render_ip_mode_v6)
qed

text \<open>
  A truncated address reveals the first three octets of an IPv4 address, or the first three
  segments of an IPv6 address, and nothing more: two peers are recorded alike exactly when those
  agree, whatever their last octet, their other segments or their port.
\<close>

theorem truncated_reveals_prefix:
  "render_ip (ip, p) Truncated_Ip = render_ip (ip', p') Truncated_Ip \<longleftrightarrow> ip_prefix ip = ip_prefix ip'"
  by (cases ip; cases ip')
    (simp_all only: ip_prefix_def ip_addr.case truncated_v4_iff truncated_v6_iff truncated_v4_v6
      truncated_v4_v6 [symmetric] sum.inject sum.distinct)

end
