(* ===== verification/Serve.thy ===== *)
theory Serve
  imports Probe Ip_Text Admin
begin

text \<open>
  The reverse proxy, \<open>fingerprint-probe/src/serve.rs\<close>: its configuration, what one connection
  does, and how one request is forwarded. The TLS library is the parameter of the probe; the
  HTTP library's parsing of names, values and targets is the record \<open>http_lib\<close> of functions; the
  upstream's answers are arguments. The lemmas say that nothing fpd fails at rejects a
  connection, what of the request's headers the upstream reads, and what of the peer's address
  is kept.
\<close>

section \<open>Configuration\<close>

record serve_config =
  sc_listen :: socket_addr
  sc_upstream :: socket_addr
  sc_handshake_timeout :: nat
  sc_capture_timeout :: nat
  sc_upstream_timeout :: nat
  sc_ip_mode :: ip_mode
  sc_admin_socket :: "string option"
  sc_log_capacity :: nat

definition serve_config_new :: "socket_addr \<Rightarrow> socket_addr \<Rightarrow> serve_config" where
  "serve_config_new listen upstream =
     \<lparr>sc_listen = listen, sc_upstream = upstream, sc_handshake_timeout = 10,
      sc_capture_timeout = 10, sc_upstream_timeout = 30, sc_ip_mode = Truncated_Ip,
      sc_admin_socket = None, sc_log_capacity = 1000\<rparr>"

section \<open>Forwarding a request\<close>

record 'u http_lib =
  lib_path_and_query :: "'u \<Rightarrow> string option"
  lib_origin_form :: "string \<Rightarrow> 'u option"
  lib_parse_name :: "string \<Rightarrow> string option"
  lib_parse_value :: "string \<Rightarrow> string option"

text \<open>A request as hyper hands it over; its body may fail to arrive.\<close>

record 'u request =
  rq_method :: string
  rq_uri :: 'u
  rq_headers :: "(string \<times> bytes) list"
  rq_body :: "bytes option"

record 'u outbound =
  ob_method :: string
  ob_uri :: 'u
  ob_headers :: "header list"
  ob_body :: bytes

record response =
  rs_status :: nat
  rs_headers :: "header list"
  rs_body :: bytes

definition bad_gateway :: "string \<Rightarrow> response" where
  "bad_gateway why =
     \<lparr>rs_status = 502, rs_headers = [], rs_body = as_bytes (''fpd: '' @ why @ [char_of (10 :: nat)])\<rparr>"

definition origin_uri :: "'u http_lib \<Rightarrow> 'u \<Rightarrow> 'u" where
  "origin_uri lib uri =
     (case lib_path_and_query lib uri of
        None \<Rightarrow> uri
      | Some pq \<Rightarrow> (case lib_origin_form lib pq of None \<Rightarrow> uri | Some u \<Rightarrow> u))"

definition attach :: "'u http_lib \<Rightarrow> header list \<Rightarrow> header list" where
  "attach lib hs =
     List.map_filter (\<lambda>(name, val).
       case (lib_parse_name lib name, lib_parse_value lib val) of
         (Some n, Some v) \<Rightarrow> Some (n, v) | _ \<Rightarrow> None) hs"

definition outbound_of :: "'u http_lib \<Rightarrow> 'u request \<Rightarrow> header list \<Rightarrow> 'u outbound" where
  "outbound_of lib req fp =
     (let names = strip_inbound (map (\<lambda>(n, v). (n, from_utf8_lossy v)) (rq_headers req))
      in \<lparr>ob_method = rq_method req, ob_uri = origin_uri lib (rq_uri req),
          ob_headers = attach lib (names @ fp),
          ob_body = (case rq_body req of None \<Rightarrow> [] | Some b \<Rightarrow> b)\<rparr>)"

text \<open>
  The upstream's side: connecting, the HTTP/1.1 handshake, and its answer to a request, whose
  body may break off.
\<close>

record ('u, 'c, 'n, 'e) upstream =
  up_connect :: "('e + 'c) timed"
  up_handshake :: "'c \<Rightarrow> 'e + 'n"
  up_send :: "'n \<Rightarrow> 'u outbound \<Rightarrow> ('e + nat \<times> header list \<times> bytes option) timed"

definition forward ::
    "'u http_lib \<Rightarrow> ('u, 'c, 'n, 'e) upstream \<Rightarrow> 'u request \<Rightarrow> header list \<Rightarrow> response" where
  "forward lib up req fp =
     (case up_connect up of
        In_Time (Inr c) \<Rightarrow>
          (case up_handshake up c of
             Inl _ \<Rightarrow> bad_gateway ''upstream handshake failed''
           | Inr sender \<Rightarrow>
               (case up_send up sender (outbound_of lib req fp) of
                  In_Time (Inr (status, hs, body)) \<Rightarrow>
                    \<lparr>rs_status = status, rs_headers = hs,
                     rs_body = (case body of None \<Rightarrow> [] | Some b \<Rightarrow> b)\<rparr>
                | In_Time (Inl _) \<Rightarrow> bad_gateway ''upstream error''
                | Elapsed \<Rightarrow> bad_gateway ''upstream timed out''))
      | _ \<Rightarrow> bad_gateway ''upstream unreachable'')"

section \<open>One connection\<close>

definition build_report :: "digest \<Rightarrow> digest \<Rightarrow> bytes \<Rightarrow> bytes \<Rightarrow> string option \<Rightarrow> client_report option" where
  "build_report sha md raw preamble alpn =
     (case fingerprint sha md raw of
        Inl _ \<Rightarrow> None
      | Inr tls \<Rightarrow> Some \<lparr>cr_tls = tls, cr_raw_hello = retain raw,
                        cr_h2 = res_ok (fingerprint_h2 preamble), cr_alpn = alpn,
                        cr_handshake_failed = False\<rparr>)"

datatype log_level = Warn | Info

type_synonym log_line = "log_level \<times> (string \<times> string) list"

definition log_connection ::
    "socket_addr \<Rightarrow> client_report \<Rightarrow> identification \<Rightarrow> serve_config \<Rightarrow> log_line" where
  "log_connection peer report idn cfg =
     (let ip = render_ip peer (sc_ip_mode cfg);
          verdict = (case id_best idn of None \<Rightarrow> ''unknown'' | Some b \<Rightarrow> cd_label b)
      in case id_mismatch idn of
        Some m \<Rightarrow> (Warn, [(''ip'', ip), (''ja4'', tf_ja4 (cr_tls report)), (''verdict'', verdict),
                        (''ua_claims'', family_str (cm_claimed m)), (''mismatch'', ''true'')])
      | None \<Rightarrow> (Info, [(''ip'', ip), (''ja4'', tf_ja4 (cr_tls report)), (''verdict'', verdict),
                       (''mismatch'', ''false'')]))"

definition unparsed_headers :: "header list" where
  "unparsed_headers =
     [(''x-fp-verdict'', ''unparsed''), (''x-fp-confidence'', ''0.00''), (''x-fp-mismatch'', ''false'')]"

text \<open>What a connection leaves: its log line, the record pushed, and the connection to serve.\<close>

record 's served =
  sv_stream :: "'s replaying"
  sv_fp :: "header list"
  sv_is_h2 :: bool
  sv_line :: log_line
  sv_pushed :: "conn_record option"

text \<open>The preamble, on HTTP/2 only, and the stream after it.\<close>

definition take_preamble :: "'s source \<Rightarrow> nat \<Rightarrow> bool \<Rightarrow> 's \<Rightarrow> bytes \<times> 's" where
  "take_preamble poll b is_h2 tls =
     (if is_h2 then (case capture_h2_preamble poll b tls of (captured, tls, _) \<Rightarrow> (captured, tls))
      else ([], tls))"

text \<open>What is logged, recorded and attached, given the report.\<close>

definition conclude ::
    "profile_db \<Rightarrow> serve_config \<Rightarrow> int \<Rightarrow> socket_addr \<Rightarrow> client_report option
      \<Rightarrow> log_line \<times> conn_record option \<times> header list" where
  "conclude db cfg now peer report =
     (case report of
        Some r \<Rightarrow>
          let idn = identify r db
          in (log_connection peer r idn cfg,
              Some (record_new now r idn (render_ip peer (sc_ip_mode cfg))),
              fp_headers r idn)
      | None \<Rightarrow>
          ((Info, [(''ip'', render_ip peer (sc_ip_mode cfg)), (''verdict'', ''unparsed'')]),
           None, unparsed_headers))"

text \<open>
  \<open>rec_of\<close> is the recording stream below a TLS stream: the recorded bytes are read after the
  capture, which has made the TLS stream read on.
\<close>

definition handle ::
    "digest \<Rightarrow> digest \<Rightarrow> profile_db \<Rightarrow> serve_config \<Rightarrow> int \<Rightarrow> 's source \<Rightarrow> ('s \<Rightarrow> 'c recording_stream)
      \<Rightarrow> nat \<Rightarrow> ('c, 's, 'e) tls_accept \<Rightarrow> 'c \<Rightarrow> socket_addr \<Rightarrow> 's served option" where
  "handle sha md db cfg now poll rec_of b accept tcp peer =
     (case accept (recording_new tcp) of
        (In_Time (Inr (proto, tls)), _) \<Rightarrow>
          let alpn = map_option from_utf8_lossy proto;
              is_h2 = (alpn = Some ''h2'');
              (preamble, tls) = take_preamble poll b is_h2 tls;
              report = build_report sha md (seen_bytes (rec_of tls)) preamble alpn;
              (line, pushed, fp) = conclude db cfg now peer report
          in Some \<lparr>sv_stream = replaying_new preamble tls, sv_fp = fp, sv_is_h2 = is_h2,
                   sv_line = line, sv_pushed = pushed\<rparr>
      | _ \<Rightarrow> None)"

text \<open>
  \<open>serve_connection\<close>. The HTTP server is a parameter: the requests it reads from the stream, as HTTP/2
  or as HTTP/1.1. Each is forwarded over an upstream connection of its own, all with the same headers.
\<close>

definition serve_connection ::
    "'u http_lib \<Rightarrow> (bool \<Rightarrow> 's replaying \<Rightarrow> 'u request list) \<Rightarrow> (nat \<Rightarrow> ('u, 'c, 'n, 'e) upstream)
      \<Rightarrow> 's served \<Rightarrow> response list" where
  "serve_connection lib requests ups sv =
     map (\<lambda>(n, req). forward lib (ups n) req (sv_fp sv))
       (enumerate 0 (requests (sv_is_h2 sv) (sv_stream sv)))"

section \<open>What the upstream reads\<close>

lemma attach_simps [simp]:
  "attach lib [] = []"
  "attach lib (xs @ ys) = attach lib xs @ attach lib ys"
  by (simp_all add: attach_def map_filter_def)

lemma attach_Cons:
  "attach lib (h # hs) =
     (case (lib_parse_name lib (fst h), lib_parse_value lib (snd h)) of
        (Some n, Some v) \<Rightarrow> (n, v) # attach lib hs | _ \<Rightarrow> attach lib hs)"
  by (simp add: attach_def map_filter_def split_def split: option.split)

lemma attach_member:
  "x \<in> set (attach lib hs) \<Longrightarrow> \<exists>h \<in> set hs. lib_parse_name lib (fst h) = Some (fst x)"
  by (induction hs) (auto simp: attach_Cons split: option.splits)

lemma attach_prefixed:
  assumes "\<And>n m. lib_parse_name lib n = Some m \<Longrightarrow> m = to_ascii_lowercase n"
    and "x \<in> set (attach lib hs)" and "\<And>h. h \<in> set hs \<Longrightarrow> fp_header h = b"
  shows "fp_header x = b"
proof -
  from attach_member [OF assms(2)] obtain h where h: "h \<in> set hs"
      "lib_parse_name lib (fst h) = Some (fst x)" by blast
  from assms(1) [OF h(2)] have "fp_header x = fp_header h"
    by (simp only: fp_header_def lower_idem)
  with assms(3) [OF h(1)] show ?thesis by simp
qed

lemma outbound_prefixed:
  assumes "\<And>n m. lib_parse_name lib n = Some m \<Longrightarrow> m = to_ascii_lowercase n"
    and "\<And>h. h \<in> set fp \<Longrightarrow> fp_header h"
  shows "filter fp_header (ob_headers (outbound_of lib req fp)) = attach lib fp"
proof -
  let ?own = "strip_inbound (map (\<lambda>(n, v). (n, from_utf8_lossy v)) (rq_headers req))"
  have "\<not> fp_header x" if "x \<in> set (attach lib ?own)" for x
    using attach_prefixed [OF assms(1) that] strip_inbound_none by blast
  then have "filter fp_header (attach lib ?own) = []"
    by (simp add: filter_empty_conv)
  moreover have "filter fp_header (attach lib fp) = attach lib fp"
    using attach_prefixed [OF assms(1), where hs = fp and b = True] assms(2)
    by (auto simp only: filter_id_conv)
  ultimately show ?thesis
    by (simp add: outbound_of_def Let_def)
qed

lemma conclude_prefixed:
  "conclude db cfg now peer report = (line, pushed, fp) \<Longrightarrow> h \<in> set fp \<Longrightarrow> fp_header h"
  using fp_headers_prefixed [of h]
  by (auto simp: conclude_def Let_def unparsed_headers_def fp_header_def FP_PREFIX_def
      ascii_lower_char_def split: option.splits)

lemma handle_prefixed:
  assumes "handle sha md db cfg now poll rec_of b accept tcp peer = Some sv" and "h \<in> set (sv_fp sv)"
  shows "fp_header h"
proof -
  from assms(1) obtain report line pushed where "conclude db cfg now peer report = (line, pushed, sv_fp sv)"
    by (force simp: handle_def Let_def split: prod.splits timed.splits sum.splits)
  from conclude_prefixed [OF this assms(2)] show ?thesis .
qed

text \<open>A request without the headers of fpd's prefix, in any case, that its client may have sent.\<close>

definition unforged :: "'u request \<Rightarrow> 'u request" where
  "unforged req =
     req\<lparr>rq_headers := filter (\<lambda>h. \<not> starts_with (to_ascii_lowercase (fst h)) FP_PREFIX) (rq_headers req)\<rparr>"

lemma outbound_unforged: "outbound_of lib (unforged req) fp = outbound_of lib req fp"
proof -
  have "strip_inbound (map (\<lambda>(n, v). (n, f v)) (filter (\<lambda>h. \<not> starts_with (to_ascii_lowercase (fst h)) FP_PREFIX) hs))
      = strip_inbound (map (\<lambda>(n, v). (n, f v)) hs)" for f :: "bytes \<Rightarrow> string" and hs
    by (induction hs) (auto simp: strip_inbound_def)
  then show ?thesis
    by (simp add: outbound_of_def unforged_def Let_def)
qed

lemma forward_unforged: "forward lib up (unforged req) fp = forward lib up req fp"
  by (simp only: forward_def outbound_unforged)


lemma lossy_ascii: "\<forall>b \<in> set (utf8_lossy xs). b < 0x80 \<Longrightarrow> \<forall>b \<in> set xs. b < 0x80"
proof (induction xs rule: utf8_lossy.induct)
  case (1 xs)
  show ?case
  proof (cases "xs = []")
    case False
    let ?n = "snd (utf8_chunk xs)"
    have t: "set xs = set (take ?n xs) \<union> set (drop ?n xs)"
      by (metis append_take_drop_id set_append)
    have l: "utf8_lossy xs = (if fst (utf8_chunk xs) then take ?n xs else [0xEF, 0xBF, 0xBD])
        @ utf8_lossy (drop ?n xs)"
      using False by (simp add: utf8_lossy.simps [of xs])
    with "1.prems" have c: "fst (utf8_chunk xs)" by (auto split: if_splits)
    with l "1.prems" "1.IH" [OF False] show ?thesis
      unfolding t by (simp add: ball_Un)
  qed simp
qed

definition value_char :: "char \<Rightarrow> bool" where
  "value_char c \<longleftrightarrow> c = CHR 0x09 \<or> 32 \<le> (of_char c :: nat) \<and> (of_char c :: nat) < 127"

lemma value_char_byte: "value_char (byte_char b) \<Longrightarrow> b < 0x80"
proof -
  assume "value_char (byte_char b)"
  moreover have "(of_char (byte_char b) :: nat) = unat b"
    using unat_u8_bound [of b] by (simp add: byte_char_def of_char_of)
  ultimately have "of_char (byte_char b) = (9 :: nat) \<or> unat b < 127"
    by (auto simp: value_char_def)
  with \<open>(of_char (byte_char b) :: nat) = unat b\<close> have "unat b < 128" by auto
  then show ?thesis by (simp add: word_less_nat_alt)
qed

text \<open>
  A request header whose value has a byte outside ASCII never reaches the upstream: the value
  is turned into text and the HTTP library's parser of text, which takes visible ASCII only,
  refuses it, so the request is forwarded as if the client had not sent the header.
\<close>

theorem non_ascii_header_dropped:
  assumes "\<And>s v. lib_parse_value lib s = Some v \<Longrightarrow> list_all value_char s"
  shows "outbound_of lib req fp =
    outbound_of lib (req\<lparr>rq_headers := filter (\<lambda>h. \<forall>b \<in> set (snd h). b < 0x80) (rq_headers req)\<rparr>) fp"
proof -
  let ?m = "map (\<lambda>(n, v). (n, from_utf8_lossy v))"
  let ?f = "filter (\<lambda>h. \<forall>b \<in> set (snd h). b < 0x80)"
  have ok: "c < 0x80" if "lib_parse_value lib (from_utf8_lossy v) = Some x" "c \<in> set v" for v x c
  proof -
    from assms [OF that(1)] have "\<forall>b \<in> set (utf8_lossy v). b < 0x80"
      by (auto simp: from_utf8_lossy_def list_all_iff intro: value_char_byte)
    with lossy_ascii that(2) show ?thesis by blast
  qed
  have "attach lib (strip_inbound (?m hs)) = attach lib (strip_inbound (?m (?f hs)))" for hs
    by (induction hs) (auto simp: strip_inbound_def attach_Cons split: option.splits dest: ok)
  then show ?thesis by (simp add: outbound_of_def Let_def)
qed

text \<open>A library of the documented behaviour, and a request with a value in UTF-8.\<close>

definition plain_lib :: "string http_lib" where
  "plain_lib =
     \<lparr>lib_path_and_query = (\<lambda>u. Some (dropWhile (\<lambda>c. c \<noteq> CHR ''/'') u)), lib_origin_form = Some,
      lib_parse_name = (\<lambda>n. if n = [] then None else Some (to_ascii_lowercase n)),
      lib_parse_value = (\<lambda>v. if list_all value_char v then Some v else None)\<rparr>"

definition sample_request :: "string request" where
  "sample_request =
     \<lparr>rq_method = ''GET'', rq_uri = ''a.example/x'',
      rq_headers = [(''cookie'', as_bytes ''id=1''), (''X-FP-Verdict'', as_bytes ''chrome''),
                    (''x-name'', [0xC3, 0xA9])],
      rq_body = None\<rparr>"

lemma plain_lib_ok:
  "lib_parse_name plain_lib n = Some m \<Longrightarrow> m = to_ascii_lowercase n"
  "lib_parse_value plain_lib s = Some v \<Longrightarrow> list_all value_char s"
  by (auto simp: plain_lib_def split: if_splits)

lemma non_ascii_header_dropped_witness:
  "outbound_of plain_lib sample_request [] =
     outbound_of plain_lib (sample_request\<lparr>rq_headers := butlast (rq_headers sample_request)\<rparr>) []"
proof -
  have "filter (\<lambda>h. \<forall>b \<in> set (snd h). b < 0x80) (rq_headers sample_request)
      = butlast (rq_headers sample_request)"
    by code_simp
  with non_ascii_header_dropped [OF plain_lib_ok(2), where req = sample_request and fp = "[]"] show ?thesis by simp
qed

text \<open>
  The host an HTTP/2 client asked for is lost: its request names the host in the target only, and the request
  forwarded is the same for every host, with no \<open>Host\<close> header.
\<close>

theorem authority_lost:
  assumes "lib_path_and_query lib u = Some pq" and "lib_path_and_query lib u' = Some pq"
    and "lib_origin_form lib pq = Some origin"
    and "\<And>n m. lib_parse_name lib n = Some m \<Longrightarrow> m = to_ascii_lowercase n"
    and "\<forall>h \<in> set (rq_headers req). to_ascii_lowercase (fst h) \<noteq> ''host''"
  shows "outbound_of lib (req\<lparr>rq_uri := u\<rparr>) (fp_headers r i) = outbound_of lib (req\<lparr>rq_uri := u'\<rparr>) (fp_headers r i)
    \<and> ''host'' \<notin> fst ` set (ob_headers (outbound_of lib (req\<lparr>rq_uri := u\<rparr>) (fp_headers r i)))"
proof
  show "outbound_of lib (req\<lparr>rq_uri := u\<rparr>) (fp_headers r i) = outbound_of lib (req\<lparr>rq_uri := u'\<rparr>) (fp_headers r i)"
    using assms(1-3) by (simp add: outbound_of_def origin_uri_def Let_def)
next
  let ?hs = "strip_inbound (map (\<lambda>(n, v). (n, from_utf8_lossy v)) (rq_headers req)) @ fp_headers r i"
  have "to_ascii_lowercase (fst h) \<noteq> ''host''" if "h \<in> set ?hs" for h
  proof (cases "h \<in> set (fp_headers r i)")
    case True
    then have "starts_with (to_ascii_lowercase (fst h)) FP_PREFIX"
      using fp_headers_prefixed [of h r i] by (simp add: fp_header_def)
    then show ?thesis by (auto simp: FP_PREFIX_def)
  next
    case False
    with that assms(5) show ?thesis by (auto simp: strip_inbound_def)
  qed
  then have "''host'' \<notin> fst ` set (attach lib ?hs)"
    using attach_member [of _ lib ?hs] assms(4) by fastforce
  then show "''host'' \<notin> fst ` set (ob_headers (outbound_of lib (req\<lparr>rq_uri := u\<rparr>) (fp_headers r i)))"
    by (simp add: outbound_of_def Let_def)
qed

lemma authority_lost_witness:
  "outbound_of plain_lib (sample_request\<lparr>rq_uri := ''a.example/x''\<rparr>) (fp_headers sample_report (identify sample_report [])) =
   outbound_of plain_lib (sample_request\<lparr>rq_uri := ''b.example/x''\<rparr>) (fp_headers sample_report (identify sample_report []))"
proof -
  have "lib_path_and_query plain_lib ''a.example/x'' = Some ''/x''"
    "lib_path_and_query plain_lib ''b.example/x'' = Some ''/x''"
    "lib_origin_form plain_lib ''/x'' = Some ''/x''"
    "\<forall>h \<in> set (rq_headers sample_request). to_ascii_lowercase (fst h) \<noteq> ''host''"
    by code_simp+
  from authority_lost [OF this(1-3) plain_lib_ok(1) this(4)] show ?thesis by blast
qed

section \<open>What a connection leaves\<close>

lemma handle_accepted:
  assumes "accept (recording_new tcp) = (In_Time (Inr (proto, tls)), recorded)"
    and "take_preamble poll b (map_option from_utf8_lossy proto = Some ''h2'') tls = (preamble, rest)"
    and "conclude db cfg now peer (build_report sha md (seen_bytes (rec_of rest)) preamble
           (map_option from_utf8_lossy proto)) = (line, pushed, fp)"
  shows "handle sha md db cfg now poll rec_of b accept tcp peer =
    Some \<lparr>sv_stream = replaying_new preamble rest, sv_fp = fp,
          sv_is_h2 = (map_option from_utf8_lossy proto = Some ''h2''), sv_line = line, sv_pushed = pushed\<rparr>"
  by (simp only: handle_def assms prod.case timed.case sum.case Let_def)


lemma render_ip_prefix: "ip_prefix ip = ip_prefix ip' \<Longrightarrow>
    render_ip (ip, p) Truncated_Ip = render_ip (ip', p') Truncated_Ip"
  by (cases ip; cases ip') (simp_all add: ip_prefix_def render_ip_def)

text \<open>
  Under the default configuration the rest of the address goes nowhere: what a connection
  logs, records, attaches and serves is the same for any two peers with the same three leading
  octets or segments.
\<close>

theorem default_hides_peer:
  assumes "ip_prefix ip = ip_prefix ip'"
  shows "handle sha md db (serve_config_new listen upstream) now poll rec_of b accept tcp (ip, p) =
    handle sha md db (serve_config_new listen upstream) now poll rec_of b accept tcp (ip', p')"
  by (simp only: handle_def conclude_def log_connection_def serve_config_new_def
      serve_config.select_convs render_ip_prefix [OF assms, of p p'])

text \<open>A TLS library that accepts a client without reading, and agrees on no protocol.\<close>

definition silent_tls :: "(event list, event list, string) tls_accept" where
  "silent_tls r = (In_Time (Inr (None, [])), r)"

lemma default_hides_peer_witness:
  "handle (\<lambda>b. b) (\<lambda>b. b) [] (serve_config_new (V4 127 0 0 1, 0) (V4 127 0 0 1, 8080)) 0 wire_poll
     recording_new 100 silent_tls ([] :: event list) (V4 203 0 113 42, 443) =
   handle (\<lambda>b. b) (\<lambda>b. b) [] (serve_config_new (V4 127 0 0 1, 0) (V4 127 0 0 1, 8080)) 0 wire_poll
     recording_new 100 silent_tls ([] :: event list) (V4 203 0 113 7, 5000)"
  using default_hides_peer [of "V4 203 0 113 42" "V4 203 0 113 7"] by (simp add: ip_prefix_def)

text \<open>
  C5. The server that serves an HTTP/2 connection reads the client's plaintext unchanged exactly when the
  capture before it was not cut inside an exact read; on HTTP/1.1 it always does.
\<close>

theorem served_stream_exact:
  assumes "async_read poll content"
    and "accept (recording_new tcp) = (In_Time (Inr (proto, tls)), recorded)"
    and "handle sha md db cfg now poll rec_of b accept tcp peer = Some sv"
    and "reads (replaying_poll poll) ns (sv_stream sv) = (bs, r)"
  shows "bs @ replay_content content r = content tls \<longleftrightarrow>
    (sv_is_h2 sv \<longrightarrow> lost_bytes (snd (snd (capture_h2_preamble poll b tls))) = [])"
proof -
  let ?alpn = "map_option from_utf8_lossy proto"
  obtain c t where p: "take_preamble poll b (?alpn = Some ''h2'') tls = (c, t)" by fastforce
  obtain line pushed fp where
      q: "conclude db cfg now peer (build_report sha md (seen_bytes (rec_of t)) c ?alpn) = (line, pushed, fp)"
    by (metis prod_cases3)
  from assms(3) handle_accepted [where accept = accept and rec_of = rec_of, OF assms(2) p q]
  have sv: "sv_stream sv = replaying_new c t" "sv_is_h2 sv \<longleftrightarrow> ?alpn = Some ''h2''" by auto
  have k: "bs @ replay_content content r = c @ content t"
    using async_read.reads_content [OF async_read.replayed_async [OF assms(1)] assms(4)]
    by (simp add: sv(1) replay_content_def replaying_new_def)
  obtain c' t' e where e: "capture_h2_preamble poll b tls = (c', t', e)" by (metis prod_cases3)
  note cc = async_read.capture_content [OF assms(1) e]
  show ?thesis
  proof (cases "sv_is_h2 sv")
    case True
    with p have "c = c' \<and> t = t'"
      unfolding sv(2) by (simp add: take_preamble_def e)
    with True cc show ?thesis unfolding k by (simp add: e)
  next
    case False
    with p have "c = [] \<and> t = tls"
      unfolding sv(2) by (auto simp only: take_preamble_def if_False prod.inject)
    with False show ?thesis unfolding k by simp
  qed
qed

text \<open>A TLS library that reads some bytes, none of them a ClientHello, and agrees on \<open>h2\<close>.\<close>

definition h2_tls :: "(event list, event list, string) tls_accept" where
  "h2_tls r =
     (In_Time (Inr (Some (as_bytes ''h2''), half_sent)), snd (reads (recording_poll wire_poll) [5] r))"

lemma h2_tls_recorded:
  "h2_tls (recording_new [Segment [1, 2, 3]]) =
     (In_Time (Inr (Some (as_bytes ''h2''), half_sent)),
      \<lparr>rc_inner = [], rc_seen = [1, 2, 3], rc_poisoned = False, rc_cap = 65536\<rparr>)"
  by code_simp



lemma served_stream_exact_witness:
  "\<exists>sv bs r. handle (\<lambda>b. b) (\<lambda>b. b) [] (serve_config_new (V4 127 0 0 1, 0) (V4 127 0 0 1, 8080)) 0
     wire_poll recording_new 4 h2_tls [Segment [1, 2, 3]] (V4 203 0 113 42, 443) = Some sv \<and>
     reads (replaying_poll wire_poll) [100, 100] (sv_stream sv) = (bs, r) \<and>
     (bs @ replay_content wire_content r = wire_content half_sent \<longleftrightarrow> \<not> sv_is_h2 sv)"
proof -
  let ?h = "handle (\<lambda>b. b) (\<lambda>b. b) [] (serve_config_new (V4 127 0 0 1, 0) (V4 127 0 0 1, 8080)) 0
     wire_poll recording_new 4 h2_tls [Segment [1, 2, 3]] (V4 203 0 113 42, 443)"
  obtain sv where sv: "?h = Some sv"
    by (simp add: handle_def h2_tls_recorded split_def Let_def)
  obtain bs r where r: "reads (replaying_poll wire_poll) [100, 100] (sv_stream sv) = (bs, r)"
    by fastforce
  from served_stream_exact [where accept = h2_tls and rec_of = recording_new, OF wire_async h2_tls_recorded sv r] sv r
  show ?thesis by (simp add: half_sent_capture)
qed

end
