(* ===== verification/Server.thy ===== *)
theory Server
  imports Serve
begin

text \<open>
  The proxy as a process: \<open>Server\<close> of \<open>fingerprint-probe/src/serve.rs\<close>, its accept loop with one task
  per connection, and the admin socket's file of \<open>admin.rs\<close>. A step of the server is a connection that
  ends its capture, or a step of the admin socket's publisher and viewer; the steps come in any order, as the
  tasks do. The lemmas say that the server runs the admin socket as \<open>Admin\<close> has it, what a viewer can see of
  the connections, and who can open the socket.
\<close>

section \<open>The admin socket's file\<close>

datatype node = Regular_File | Directory | Unix_Socket nat

text \<open>The file system around the path, and what the operating system answers.\<close>

record socket_os =
  so_umask :: nat
  so_remove :: bool
  so_listen :: bool
  so_chmod :: bool

definition owner_only :: nat where "owner_only = 0x180"

text \<open>The mode \<open>bind\<close> gives a socket, and the outcome with the states the path goes through.\<close>

definition bound_mode :: "nat \<Rightarrow> nat" where
  "bound_mode umask = 0x1FF - (umask AND 0x1FF)"

definition admin_bind ::
    "socket_os \<Rightarrow> string \<Rightarrow> (string \<Rightarrow> node option) \<Rightarrow> bool \<times> (string \<Rightarrow> node option) list" where
  "admin_bind os path fs =
     (let removed = (if fs path \<noteq> None then fs(path := None) else fs);
          bound = removed(path := Some (Unix_Socket (bound_mode (so_umask os))));
          restricted = bound(path := Some (Unix_Socket owner_only))
      in if fs path \<noteq> None \<and> (fs path = Some Directory \<or> \<not> so_remove os) then (False, [fs])
         else if \<not> so_listen os then (False, [fs, removed])
         else if \<not> so_chmod os then (False, [fs, removed, bound])
         else (True, [fs, removed, bound, restricted]))"

text \<open>\<open>Drop\<close>.\<close>

definition admin_drop :: "string \<Rightarrow> (string \<Rightarrow> node option) \<Rightarrow> (string \<Rightarrow> node option)" where
  "admin_drop path fs = (if fs path = Some Directory then fs else fs(path := None))"

definition open_to_others :: "node option \<Rightarrow> bool" where
  "open_to_others n \<longleftrightarrow> (\<exists>mode. n = Some (Unix_Socket mode) \<and> mode mod 64 \<noteq> 0)"

lemma open_to_others_simps [simp]:
  "\<not> open_to_others None"
  "open_to_others (Some (Unix_Socket m)) \<longleftrightarrow> m mod 64 \<noteq> 0"
  by (simp_all add: open_to_others_def)

lemma admin_bind_states:
  "admin_bind os path fs = (True, states) \<longleftrightarrow>
     fs path \<noteq> Some Directory \<and> (fs path \<noteq> None \<longrightarrow> so_remove os) \<and> so_listen os \<and> so_chmod os \<and>
     states = [fs, fs(path := None), fs(path := Some (Unix_Socket (bound_mode (so_umask os)))),
               fs(path := Some (Unix_Socket owner_only))]"
  by (auto simp: admin_bind_def Let_def fun_upd_idem)

text \<open>
  The socket ends up private: when \<open>bind\<close> succeeds the path holds a socket of mode 0600 and no other
  path has changed. It is not created so: between the bind and the change of mode others may open it
  exactly when the process's mask leaves them a permission.
\<close>

theorem admin_bind_private:
  assumes "admin_bind os path fs = (True, states)"
  shows "last states = fs(path := Some (Unix_Socket owner_only)) \<and> \<not> open_to_others (last states path) \<and>
    (list_ex (\<lambda>st. open_to_others (st path)) (tl states) \<longleftrightarrow> bound_mode (so_umask os) mod 64 \<noteq> 0)"
  using assms unfolding admin_bind_states by (simp add: owner_only_def)

text \<open>Whatever file was at the path is gone, a socket another server listens on or not one at all.\<close>

lemma admin_bind_replaces:
  "fs path = Some n \<Longrightarrow> n \<noteq> Directory \<Longrightarrow> so_remove os \<Longrightarrow> last (snd (admin_bind os path fs)) path \<noteq> Some Regular_File"
  by (simp add: admin_bind_def Let_def)

section \<open>The server\<close>

text \<open>What \<open>bind\<close> is given by the certificate library, the TLS library and the operating system.\<close>

record 'a server_parts =
  sp_certificate :: "string + string"
  sp_key :: "string + unit"
  sp_tls :: "string + 'a"
  sp_listen :: "socket_addr \<Rightarrow> string + socket_addr"

text \<open>\<open>Server\<close>, with what its tasks use of the libraries: the polls of a TLS stream and the
  recording stream below it.\<close>

record ('c, 's, 'e) server =
  sr_cfg :: serve_config
  sr_db :: profile_db
  sr_acceptor :: "('c, 's, 'e) tls_accept"
  sr_cert_pem :: string
  sr_local :: socket_addr
  sr_poll :: "'s source"
  sr_rec_of :: "'s \<Rightarrow> 'c recording_stream"
  sr_sha :: digest
  sr_md :: digest

definition server_bind ::
    "(('c, 's, 'e) tls_accept \<times> 's source \<times> ('s \<Rightarrow> 'c recording_stream)) server_parts
      \<Rightarrow> digest \<Rightarrow> digest \<Rightarrow> serve_config \<Rightarrow> profile_db \<Rightarrow> string + ('c, 's, 'e) server \<times> conn_log" where
  "server_bind parts sha md cfg db =
     try_res (sp_certificate parts) (\<lambda>cert_pem.
     try_res (sp_key parts) (\<lambda>_.
     try_res (sp_tls parts) (\<lambda>(acceptor, poll, rec_of).
     try_res (sp_listen parts (sc_listen cfg)) (\<lambda>local.
     Inr (\<lparr>sr_cfg = cfg, sr_db = db, sr_acceptor = acceptor, sr_cert_pem = cert_pem, sr_local = local,
           sr_poll = poll, sr_rec_of = rec_of, sr_sha = sha, sr_md = md\<rparr>,
          log_with_capacity (sc_log_capacity cfg))))))"

definition server_handle ::
    "('c, 's, 'e) server \<Rightarrow> int \<Rightarrow> nat \<Rightarrow> 'c \<Rightarrow> socket_addr \<Rightarrow> 's served option" where
  "server_handle srv now b tcp peer =
     handle (sr_sha srv) (sr_md srv) (sr_db srv) (sr_cfg srv) now (sr_poll srv) (sr_rec_of srv) b
       (sr_acceptor srv) tcp peer"

text \<open>The running server: the admin socket's side, the log written, the connections handed to the
  HTTP server, newest last.\<close>

record 's server_state =
  ss_admin :: admin_state
  ss_lines :: "log_line list"
  ss_served :: "(socket_addr \<times> 's served) list"

definition server_start :: "('c, 's, 'e) server \<Rightarrow> 's server_state" where
  "server_start srv =
     \<lparr>ss_admin = admin_start (sc_log_capacity (sr_cfg srv)), ss_lines = [], ss_served = []\<rparr>"

definition serve_one :: "socket_addr \<Rightarrow> 's served \<Rightarrow> 's server_state \<Rightarrow> 's server_state" where
  "serve_one peer sv s =
     s\<lparr>ss_lines := ss_lines s @ [sv_line sv], ss_served := ss_served s @ [(peer, sv)]\<rparr>"

inductive server_step :: "('c, 's, 'e) server \<Rightarrow> 's server_state \<Rightarrow> 's server_state \<Rightarrow> bool" for srv where
  accept_failed: "server_step srv s s"
| no_handshake: "server_handle srv now b tcp peer = None \<Longrightarrow> server_step srv s s"
| unparsed: "server_handle srv now b tcp peer = Some sv \<Longrightarrow> sv_pushed sv = None \<Longrightarrow>
    server_step srv s (serve_one peer sv s)"
| recorded: "server_handle srv now b tcp peer = Some sv \<Longrightarrow> sv_pushed sv = Some r \<Longrightarrow>
    publisher_store False r (ad_log (ss_admin s)) = Some (stored, l) \<Longrightarrow>
    server_step srv s (serve_one peer sv (s\<lparr>ss_admin := (ss_admin s)\<lparr>ad_log := l,
      ad_pending := ad_pending (ss_admin s) @ [stored], ad_history := ad_history (ss_admin s) @ [stored]\<rparr>\<rparr>))"
| publish: "admin_step False (ss_admin s) a \<Longrightarrow> ad_history a = ad_history (ss_admin s) \<Longrightarrow>
    server_step srv s (s\<lparr>ss_admin := a\<rparr>)"

inductive_cases server_stepE: "server_step srv s s'"

abbreviation server_run :: "('c, 's, 'e) server \<Rightarrow> 's server_state \<Rightarrow> 's server_state \<Rightarrow> bool" where
  "server_run srv \<equiv> (server_step srv)\<^sup>*\<^sup>*"

section \<open>The server runs the admin socket\<close>

lemma serve_one_simps [simp]:
  "ss_admin (serve_one peer sv s) = ss_admin s"
  "ss_lines (serve_one peer sv s) = ss_lines s @ [sv_line sv]"
  "ss_served (serve_one peer sv s) = ss_served s @ [(peer, sv)]"
  by (simp_all add: serve_one_def)

lemma server_step_admin: "server_step srv s s' \<Longrightarrow> admin_run False (ss_admin s) (ss_admin s')"
  by (erule server_step.cases) (auto intro: store)

lemma server_run_admin: "server_run srv s s' \<Longrightarrow> admin_run False (ss_admin s) (ss_admin s')"
  by (induction rule: rtranclp_induct) (auto intro: rtranclp_trans server_step_admin)

section \<open>What the log and a viewer hold\<close>

text \<open>The connections whose ClientHello parsed, in the order they were served.\<close>

definition parsed_connections :: "(socket_addr \<times> 's served) list \<Rightarrow> conn_record list" where
  "parsed_connections served = List.map_filter (\<lambda>(peer, sv). sv_pushed sv) served"

lemma parsed_snoc [simp]:
  "parsed_connections (xs @ [(peer, sv)]) =
     parsed_connections xs @ (case sv_pushed sv of None \<Rightarrow> [] | Some r \<Rightarrow> [r])"
  by (simp add: parsed_connections_def map_filter_def split: option.split)

lemma parsed_mem:
  "r \<in> set (parsed_connections served) \<longleftrightarrow>
     (\<exists>peer sv. (peer, sv) \<in> set served \<and> sv_pushed sv = Some r)"
  by (induction served) (auto simp: parsed_connections_def map_filter_simps split: option.splits)

definition unnumbered :: "conn_record \<Rightarrow> conn_record" where
  "unnumbered r = r\<lparr>lr_seq := 0\<rparr>"

lemma handle_pushed:
  assumes "handle sha md db cfg now poll rec_of b accept tcp peer = Some sv" and "sv_pushed sv = Some r"
  shows "unnumbered r = r \<and> lr_ip r = render_ip peer (sc_ip_mode cfg)"
  using assms
  by (auto simp: handle_def conclude_def unnumbered_def record_new_def Let_def
      split: timed.splits sum.splits prod.splits option.splits)

definition server_ok :: "('c, 's, 'e) server \<Rightarrow> 's server_state \<Rightarrow> bool" where
  "server_ok srv s \<longleftrightarrow>
     map unnumbered (ad_history (ss_admin s)) = parsed_connections (ss_served s) \<and>
     ss_lines s = map (sv_line \<circ> snd) (ss_served s) \<and>
     (\<forall>(peer, sv) \<in> set (ss_served s). \<forall>r. sv_pushed sv = Some r \<longrightarrow>
        unnumbered r = r \<and> lr_ip r = render_ip peer (sc_ip_mode (sr_cfg srv)))"

lemma server_okD:
  assumes "server_ok srv s"
  shows "map unnumbered (ad_history (ss_admin s)) = parsed_connections (ss_served s)"
    "ss_lines s = map (sv_line \<circ> snd) (ss_served s)"
    "(peer, sv) \<in> set (ss_served s) \<Longrightarrow> sv_pushed sv = Some r \<Longrightarrow>
       unnumbered r = r \<and> lr_ip r = render_ip peer (sc_ip_mode (sr_cfg srv))"
  using assms by (auto simp: server_ok_def)

lemma server_ok_start: "server_ok srv (server_start srv)"
  by (simp add: server_ok_def server_start_def admin_start_def parsed_connections_def map_filter_simps)

lemma server_ok_step:
  assumes "server_step srv s s'" and "server_ok srv s"
  shows "server_ok srv s'"
  using assms
proof cases
  case (recorded now b tcp peer sv r stored l)
  have p: "unnumbered r = r \<and> lr_ip r = render_ip peer (sc_ip_mode (sr_cfg srv))"
    using handle_pushed recorded(2,3) by (simp add: server_handle_def)
  have "unnumbered stored = r"
    using recorded(4) p by (auto simp: publisher_store_Some unnumbered_def)
  with assms(2) p show ?thesis by (auto simp: recorded server_ok_def)
next
  case (publish a)
  with assms(2) show ?thesis by (simp add: server_ok_def)
qed (auto simp: server_ok_def)

lemma server_ok_run: "server_run srv (server_start srv) s \<Longrightarrow> server_ok srv s"
  by (induction rule: rtranclp_induct) (auto intro: server_ok_start server_ok_step)

text \<open>Nothing but stored records goes through the socket.\<close>

definition from_history :: "admin_state \<Rightarrow> bool" where
  "from_history s \<longleftrightarrow>
     set (cl_records (ad_log s)) \<union> set (ad_pending s) \<union>
     (case ad_queue s of None \<Rightarrow> {} | Some q \<Rightarrow> set q) \<union>
     (case ad_viewer s of None \<Rightarrow> {} | Some v \<Rightarrow> set (written v)) \<subseteq> set (ad_history s)"

lemma set_log_store: "set (cl_records (log_store r l)) \<subseteq> insert r (set (cl_records l))"
  by (auto simp: log_store_def evict_front_drop dest: in_set_dropD)

lemma set_broadcast: "broadcast_send r q = (q', lag) \<Longrightarrow> set q' \<subseteq> insert r (set q)"
  by (cases q) (auto simp: broadcast_send_def split: if_splits)

lemma set_uncovered: "set (uncovered h rs) \<subseteq> set rs"
  by (auto simp: uncovered_def)

lemma from_history_step:
  assumes "admin_step ord s s'" and "from_history s"
  shows "from_history s'"
  using assms
proof cases
  case (store r stored l)
  with assms(2) set_log_store [of stored "ad_log s\<lparr>cl_next_seq := Suc (cl_next_seq (ad_log s))\<rparr>"]
  show ?thesis by (auto simp: from_history_def publisher_store_Some split: option.splits)
next
  case (send xs r ys q q' lag)
  with assms(2) set_broadcast [OF send(5)] show ?thesis
    by (auto simp: from_history_def split: option.splits)
next
  case (recv r q v)
  with assms(2) set_uncovered [of "vw_highest v" "[r]"] show ?thesis
    by (auto simp: from_history_def written_recv)
qed (auto simp: from_history_def publisher_snapshot_def log_snapshot_def written_start split: option.splits)

lemma from_history_start: "from_history (admin_start n)"
  by (simp add: from_history_def admin_start_def log_with_capacity_def)

lemma from_history_run: "admin_run ord (admin_start n) s \<Longrightarrow> from_history s"
  by (induction rule: rtranclp_induct) (auto intro: from_history_start from_history_step)

lemma numbered_history:
  assumes "map lr_seq rs = [0..<n]"
  shows "rs = map (\<lambda>(i, r). r\<lparr>lr_seq := i\<rparr>) (enumerate 0 (map unnumbered rs))"
proof (rule nth_equalityI)
  fix i
  assume i: "i < length rs"
  have "lr_seq (rs ! i) = [0..<n] ! i"
    using i by (simp flip: assms)
  also have "\<dots> = i"
    using i assms by (metis add_0 length_map length_upt minus_nat.diff_0 nth_upt)
  finally show "rs ! i = map (\<lambda>(i, r). r\<lparr>lr_seq := i\<rparr>) (enumerate 0 (map unnumbered rs)) ! i"
    using i by (simp add: nth_enumerate_eq unnumbered_def)
qed simp

lemma server_run_start:
  assumes "server_run srv (server_start srv) s"
  shows "admin_run False (admin_start (sc_log_capacity (sr_cfg srv))) (ss_admin s)"
  using server_run_admin [OF assms] by (simp add: server_start_def)

section \<open>Properties\<close>


text \<open>
  C13. A viewer sees connections and nothing else: each record it is sent is that of a connection this
  server served, with the address rendered in the configured mode, and it is sent at most once.
\<close>

theorem viewer_sees_connections:
  assumes "server_run srv (server_start srv) s" and "ad_viewer (ss_admin s) = Some v"
    and "r \<in> set (written v)"
  shows "(\<exists>peer sv. (peer, sv) \<in> set (ss_served s) \<and> sv_pushed sv = Some (r\<lparr>lr_seq := 0\<rparr>) \<and>
      lr_ip r = render_ip peer (sc_ip_mode (sr_cfg srv))) \<and>
    distinct (map lr_seq (written v))"
proof
  note a = server_run_start [OF assms(1)] and ok = server_ok_run [OF assms(1)]
  have "r \<in> set (ad_history (ss_admin s))"
    using from_history_run [OF a] assms(2,3) by (auto simp: from_history_def)
  then have "unnumbered r \<in> set (parsed_connections (ss_served s))"
    unfolding server_okD(1) [OF ok, symmetric] by simp
  then obtain peer sv where p: "(peer, sv) \<in> set (ss_served s)" "sv_pushed sv = Some (unnumbered r)"
    unfolding parsed_mem by blast
  have "lr_ip (unnumbered r) = render_ip peer (sc_ip_mode (sr_cfg srv))"
    using server_okD(3) [OF ok p] by simp
  then have "lr_ip r = render_ip peer (sc_ip_mode (sr_cfg srv))"
    by (simp add: unnumbered_def)
  with p show "\<exists>peer sv. (peer, sv) \<in> set (ss_served s) \<and> sv_pushed sv = Some (r\<lparr>lr_seq := 0\<rparr>) \<and>
      lr_ip r = render_ip peer (sc_ip_mode (sr_cfg srv))"
    unfolding unnumbered_def by blast
  show "distinct (map lr_seq (written v))"
    using viewers_ok_run [OF a] assms(2)
    by (simp add: viewers_ok_def viewer_ok_def strict_sorted_iff)
qed

section \<open>What an operator sees\<close>

text \<open>Levels are ordered by verbosity: a filter shows what is at most as verbose as it.\<close>

instantiation log_level :: linorder
begin

definition less_eq_log_level :: "log_level \<Rightarrow> log_level \<Rightarrow> bool" where
  "less_eq_log_level a b \<longleftrightarrow> a = Warn \<or> b = Info"

definition less_log_level :: "log_level \<Rightarrow> log_level \<Rightarrow> bool" where
  "less_log_level a b \<longleftrightarrow> a = Warn \<and> b = Info"

instance
proof
  fix a b c :: log_level
  show "a < b \<longleftrightarrow> a \<le> b \<and> \<not> b \<le> a"
    by (cases a; cases b) (simp_all add: less_eq_log_level_def less_log_level_def)
  show "a \<le> a" by (cases a) (simp_all add: less_eq_log_level_def)
  show "a \<le> b \<Longrightarrow> b \<le> c \<Longrightarrow> a \<le> c" by (auto simp: less_eq_log_level_def)
  show "a \<le> b \<Longrightarrow> b \<le> a \<Longrightarrow> a = b" by (cases a; cases b) (simp_all add: less_eq_log_level_def)
  show "a \<le> b \<or> b \<le> a" by (cases a; cases b) (simp_all add: less_eq_log_level_def)
qed

end

text \<open>The filter of \<open>serve\<close>: the environment's, read by the logging library, or \<open>info\<close>; of the
  levels there are, only the two the program logs connections at.\<close>

definition log_filter :: "(string \<Rightarrow> log_level option) \<Rightarrow> string option \<Rightarrow> log_level" where
  "log_filter parse env = (case Option.bind env parse of None \<Rightarrow> Info | Some l \<Rightarrow> l)"

definition shown :: "log_level \<Rightarrow> log_line list \<Rightarrow> log_line list" where
  "shown level lines = filter (\<lambda>l. fst l \<le> level) lines"

definition mismatched :: "'s served \<Rightarrow> bool" where
  "mismatched sv \<longleftrightarrow> (\<exists>r. sv_pushed sv = Some r \<and> lr_mismatch r)"

lemma level_simps [simp]: "l \<le> Info" "l \<le> Warn \<longleftrightarrow> l = Warn"
  by (cases l; simp add: less_eq_log_level_def)+

lemma handle_level:
  assumes "handle sha md db cfg now poll rec_of b accept tcp peer = Some sv"
  shows "fst (sv_line sv) = Warn \<longleftrightarrow> mismatched sv"
  using assms
  by (auto simp: handle_def conclude_def log_connection_def record_new_def Let_def mismatched_def
      split: timed.splits sum.splits prod.splits option.splits)

lemma server_step_levels:
  assumes "server_step srv s s'"
    and "\<forall>x \<in> set (ss_served s). fst (sv_line (snd x)) = Warn \<longleftrightarrow> mismatched (snd x)"
  shows "\<forall>x \<in> set (ss_served s'). fst (sv_line (snd x)) = Warn \<longleftrightarrow> mismatched (snd x)"
  using assms by cases (auto simp: server_handle_def handle_level)

lemma server_run_levels:
  "server_run srv (server_start srv) s \<Longrightarrow>
     \<forall>x \<in> set (ss_served s). fst (sv_line (snd x)) = Warn \<longleftrightarrow> mismatched (snd x)"
  by (induction rule: rtranclp_induct) (simp_all add: server_start_def server_step_levels)

text \<open>
  An operator who filters at \<open>warn\<close> sees the mismatches and only them, one line for each connection
  whose User-Agent contradicts its fingerprint; without a filter of his own he sees every connection.
\<close>

theorem operator_view:
  assumes "server_run srv (server_start srv) s"
  shows "shown Warn (ss_lines s) = map (sv_line \<circ> snd) (filter (mismatched \<circ> snd) (ss_served s)) \<and>
    shown (log_filter parse None) (ss_lines s) = map (sv_line \<circ> snd) (ss_served s)"
proof
  have l: "ss_lines s = map (sv_line \<circ> snd) (ss_served s)"
    by (rule server_okD(2) [OF server_ok_run [OF assms]])
  have "filter (\<lambda>x. fst (sv_line (snd x)) = Warn) (ss_served s) = filter (mismatched \<circ> snd) (ss_served s)"
    using server_run_levels [OF assms] by (intro filter_cong) simp_all
  then show "shown Warn (ss_lines s) = map (sv_line \<circ> snd) (filter (mismatched \<circ> snd) (ss_served s))"
    by (simp add: shown_def l filter_map o_def)
  show "shown (log_filter parse None) (ss_lines s) = map (sv_line \<circ> snd) (ss_served s)"
    by (simp add: shown_def log_filter_def l)
qed

section \<open>A run\<close>

definition sample_server :: "(event list, event list, string) server" where
  "sample_server =
     \<lparr>sr_cfg = serve_config_new (V4 127 0 0 1, 8443) (V4 127 0 0 1, 8080), sr_db = [],
      sr_acceptor = silent_tls, sr_cert_pem = [], sr_local = (V4 127 0 0 1, 8443), sr_poll = wire_poll,
      sr_rec_of = (\<lambda>_. \<lparr>rc_inner = [], rc_seen = wire_bytes sample_wire, rc_poisoned = False, rc_cap = 65536\<rparr>),
      sr_sha = (\<lambda>b. b), sr_md = (\<lambda>b. b)\<rparr>"

lemma sample_connection:
  "\<exists>sv r. server_handle sample_server 0 100 [] (V4 203 0 113 42, 443) = Some sv \<and> sv_pushed sv = Some r"
proof -
  obtain f where f: "fingerprint (\<lambda>b. b) (\<lambda>b. b) (wire_bytes sample_wire) = Inr f"
    using sample_wire_hello
    by (cases "fingerprint (\<lambda>b. b) (\<lambda>b. b) (wire_bytes sample_wire)")
      (auto simp: fingerprint_def Let_def try_res_Inl)
  then show ?thesis
    by (simp add: server_handle_def sample_server_def handle_def silent_tls_def take_preamble_def
        build_report_def seen_bytes_def conclude_def Let_def)
qed

lemma sample_run:
  "\<exists>s v r. server_run sample_server (server_start sample_server) s \<and> ad_viewer (ss_admin s) = Some v \<and>
     written v = [r] \<and> ss_served s \<noteq> []"
proof -
  let ?s0 = "server_start sample_server :: event list server_state"
  obtain sv r where h: "server_handle sample_server 0 100 [] (V4 203 0 113 42, 443) = Some sv"
      "sv_pushed sv = Some r"
    using sample_connection by blast
  obtain stored l where p: "publisher_store False r (ad_log (ss_admin ?s0)) = Some (stored, l)"
    using publisher_store_Some [of False r "ad_log (ss_admin ?s0)"] by blast
  let ?s1 = "serve_one (V4 203 0 113 42, 443) sv (?s0\<lparr>ss_admin := (ss_admin ?s0)\<lparr>ad_log := l,
      ad_pending := ad_pending (ss_admin ?s0) @ [stored], ad_history := ad_history (ss_admin ?s0) @ [stored]\<rparr>\<rparr>)"
  have s1: "server_step sample_server ?s0 ?s1"
    by (rule recorded [OF h p])
  let ?a2 = "(ss_admin ?s1)\<lparr>ad_queue := Some []\<rparr>"
  have s2: "server_step sample_server ?s1 (?s1\<lparr>ss_admin := ?a2\<rparr>)"
  proof (rule publish)
    show "admin_step False (ss_admin ?s1) ?a2"
      by (rule subscribe) (simp add: server_start_def admin_start_def)
  qed simp
  let ?v = "viewer_start (publisher_snapshot False (ad_log ?a2))"
  have s3: "server_step sample_server (?s1\<lparr>ss_admin := ?a2\<rparr>) (?s1\<lparr>ss_admin := ?a2\<lparr>ad_viewer := Some ?v\<rparr>\<rparr>)"
  proof -
    have "admin_step False ?a2 (?a2\<lparr>ad_viewer := Some ?v\<rparr>)"
      by (rule snapshot [where q = "[]"]) (simp_all add: server_start_def admin_start_def)
    from publish [of "?s1\<lparr>ss_admin := ?a2\<rparr>" "?a2\<lparr>ad_viewer := Some ?v\<rparr>" sample_server] this
    show ?thesis by simp
  qed
  have "cl_records l = [stored]"
    using p by (auto simp: publisher_store_Some log_store_def server_start_def admin_start_def
        log_with_capacity_def)
  then have "written ?v = [stored]"
    by (simp add: written_start publisher_snapshot_def log_snapshot_def)
  moreover have "server_run sample_server ?s0 (?s1\<lparr>ss_admin := ?a2\<lparr>ad_viewer := Some ?v\<rparr>\<rparr>)"
    using s1 s2 s3 by (meson r_into_rtranclp rtranclp_trans)
  ultimately show ?thesis by (intro exI conjI) (assumption | simp)+
qed


lemma viewer_sees_connections_witness:
  "\<exists>s v r peer sv. ad_viewer (ss_admin s) = Some v \<and> r \<in> set (written v) \<and>
     server_run sample_server (server_start sample_server) s \<and>
     (peer, sv) \<in> set (ss_served s) \<and> lr_ip r = render_ip peer Truncated_Ip"
proof -
  obtain s v r where s: "server_run sample_server (server_start sample_server) s"
      "ad_viewer (ss_admin s) = Some v" "r \<in> set (written v)"
    using sample_run by (metis list.set_intros(1))
  have "sc_ip_mode (sr_cfg sample_server) = Truncated_Ip"
    by (simp add: sample_server_def serve_config_new_def)
  with viewer_sees_connections [OF s] s show ?thesis by metis
qed

lemma admin_bind_private_witness:
  "open_to_others (Some (Unix_Socket (bound_mode 0x12))) \<and>
   \<not> open_to_others (last (snd (admin_bind \<lparr>so_umask = 0x12, so_remove = True, so_listen = True, so_chmod = True\<rparr>
       ''fpd.sock'' (\<lambda>_. None))) ''fpd.sock'')"
proof -
  let ?os = "\<lparr>so_umask = 0x12, so_remove = True, so_listen = True, so_chmod = True\<rparr>"
  obtain states where b: "admin_bind ?os ''fpd.sock'' (\<lambda>_. None) = (True, states)"
    by (simp add: admin_bind_def Let_def)
  from admin_bind_private [OF b] b show ?thesis
    by (simp add: bound_mode_def owner_only_def)
qed

end
