(* ===== verification/Tower.thy ===== *)
theory Tower
  imports Serve
begin

text \<open>
  The acceptor for Rust applications, \<open>fingerprint-tower\<close>: \<open>acceptor.rs\<close>, which fingerprints as
  it accepts, and \<open>layer.rs\<close>, which puts the result into every request. The TLS library is the
  parameter it is for the probe. The lemmas relate it to the proxy: on the same connection both
  hand on the same stream and the same verdict.
\<close>

datatype 'e accept_error = Tw_Io 'e | Tw_Handshake | Tw_Timeout | Tw_NoClientHello

record client_fingerprint =
  cf_ja4 :: string
  cf_ja3 :: string
  cf_akamai :: "string option"
  cf_verdict :: string
  cf_confidence :: rat
  cf_claimed :: "family option"
  cf_report :: client_report

definition cf_mismatch :: "client_fingerprint \<Rightarrow> bool" where
  "cf_mismatch f \<longleftrightarrow> cf_claimed f \<noteq> None"

record 's accepted =
  ac_stream :: "'s replaying"
  ac_fingerprint :: client_fingerprint
  ac_is_h2 :: bool

record acceptor =
  at_db :: profile_db
  at_handshake_timeout :: nat
  at_capture_timeout :: nat

definition acceptor_new :: "'e profile_error + profile_db \<Rightarrow> acceptor" where
  "acceptor_new shipped =
     \<lparr>at_db = (case shipped of Inl _ \<Rightarrow> [] | Inr db \<Rightarrow> db), at_handshake_timeout = 10,
      at_capture_timeout = 10\<rparr>"

definition with_profiles :: "profile_db \<Rightarrow> acceptor \<Rightarrow> acceptor" where
  "with_profiles db a = a\<lparr>at_db := db\<rparr>"

definition with_timeouts :: "nat \<Rightarrow> nat \<Rightarrow> acceptor \<Rightarrow> acceptor" where
  "with_timeouts handshake capture a =
     a\<lparr>at_handshake_timeout := handshake, at_capture_timeout := capture\<rparr>"

text \<open>This crate's copy of the capture.\<close>

definition capture_preamble :: "'s source \<Rightarrow> nat \<Rightarrow> 's \<Rightarrow> bytes \<times> 's" where
  "capture_preamble poll b s =
     (case read_exact poll b 24 s of
        (preface, s, None) \<Rightarrow> ([], s)
      | (preface, s, Some b) \<Rightarrow> (case capture_loop poll b preface s of (captured, s, _) \<Rightarrow> (captured, s)))"

definition client_fingerprint_of :: "client_report \<Rightarrow> identification \<Rightarrow> client_fingerprint" where
  "client_fingerprint_of report idn =
     \<lparr>cf_ja4 = tf_ja4 (cr_tls report), cf_ja3 = tf_ja3 (cr_tls report),
      cf_akamai = map_option hf_akamai (cr_h2 report),
      cf_verdict = (case id_best idn of None \<Rightarrow> ''unknown'' | Some b \<Rightarrow> cd_label b),
      cf_confidence = (case id_best idn of None \<Rightarrow> 0 | Some b \<Rightarrow> cd_score b),
      cf_claimed = map_option cm_claimed (id_mismatch idn), cf_report = report\<rparr>"

definition tower_accept ::
    "digest \<Rightarrow> digest \<Rightarrow> acceptor \<Rightarrow> 's source \<Rightarrow> ('s \<Rightarrow> 'c recording_stream) \<Rightarrow> nat
      \<Rightarrow> ('c, 's, 'e) tls_accept \<Rightarrow> 'c \<Rightarrow> 'e accept_error + 's accepted" where
  "tower_accept sha md a poll rec_of b accept stream =
     (case accept (recording_new stream) of
        (In_Time (Inr (proto, tls)), _) \<Rightarrow>
          let is_h2 = (proto = Some (as_bytes ''h2''));
              alpn = map_option from_utf8_lossy proto;
              (preamble, tls) = (if is_h2 then capture_preamble poll b tls else ([], tls));
              raw = seen_bytes (rec_of tls)
          in try_res (map_err (\<lambda>_. Tw_NoClientHello) (fingerprint sha md raw)) (\<lambda>tls_fp.
             let report = \<lparr>cr_tls = tls_fp, cr_raw_hello = retain raw,
                           cr_h2 = res_ok (fingerprint_h2 preamble), cr_alpn = alpn,
                           cr_handshake_failed = False\<rparr>;
                 idn = identify report (at_db a)
             in Inr \<lparr>ac_stream = replaying_new preamble tls,
                     ac_fingerprint = client_fingerprint_of report idn, ac_is_h2 = is_h2\<rparr>)
      | (In_Time (Inl _), _) \<Rightarrow> Inl Tw_Handshake
      | (Elapsed, _) \<Rightarrow> Inl Tw_Timeout)"

section \<open>The layer\<close>

text \<open>A request with the slot its extensions have for a fingerprint.\<close>

record 'r tower_request =
  tr_request :: 'r
  tr_fingerprint :: "client_fingerprint option"

record ('r, 'o) fingerprint_service =
  fs_inner :: "'r tower_request \<Rightarrow> 'o"
  fs_fingerprint :: client_fingerprint

definition layer_over :: "client_fingerprint \<Rightarrow> ('r tower_request \<Rightarrow> 'o) \<Rightarrow> ('r, 'o) fingerprint_service" where
  "layer_over f inner = \<lparr>fs_inner = inner, fs_fingerprint = f\<rparr>"

definition service_call :: "('r, 'o) fingerprint_service \<Rightarrow> 'r tower_request \<Rightarrow> 'o" where
  "service_call s req = fs_inner s (req\<lparr>tr_fingerprint := Some (fs_fingerprint s)\<rparr>)"

section \<open>Agreement with the proxy\<close>

lemma capture_preamble_serve:
  "capture_preamble poll b s = (case capture_h2_preamble poll b s of (c, t, _) \<Rightarrow> (c, t))"
  by (simp add: capture_preamble_def capture_h2_preamble_def split: prod.splits option.splits)

lemma lossy_h2: "from_utf8_lossy v = ''h2'' \<longleftrightarrow> v = as_bytes ''h2''"
proof
  assume l: "from_utf8_lossy v = ''h2''"
  then have b: "utf8_lossy v = as_bytes ''h2''"
    by (metis from_utf8_lossy_def as_bytes_bytes_str)
  have "\<forall>c \<in> set (as_bytes ''h2''). c < 0x80" by code_simp
  with b lossy_ascii [of v] have "\<forall>c \<in> set v. c < 0x80" by simp
  then have "utf8_lossy v = v" by (simp add: utf8_lossy_valid utf8_valid_ascii)
  with b show "v = as_bytes ''h2''" by simp
next
  assume "v = as_bytes ''h2''"
  moreover have "from_utf8_lossy (as_bytes ''h2'') = ''h2''" by code_simp
  ultimately show "from_utf8_lossy v = ''h2''" by simp
qed

lemma alpn_h2: "map_option from_utf8_lossy proto = Some ''h2'' \<longleftrightarrow> proto = Some (as_bytes ''h2'')"
  by (cases proto) (simp_all add: lossy_h2)

lemma take_preamble_tower:
  "take_preamble poll b (map_option from_utf8_lossy proto = Some ''h2'') tls =
     (if proto = Some (as_bytes ''h2'') then capture_preamble poll b tls else ([], tls))"
  by (simp only: take_preamble_def alpn_h2 capture_preamble_serve)

lemma tower_accept_connected:
  assumes "accept (recording_new c) = (In_Time (Inr (proto, tls)), recorded)"
    and "(if proto = Some (as_bytes ''h2'') then capture_preamble poll b tls else ([], tls)) = (pre, rest)"
  shows "tower_accept sha md a poll rec_of b accept c =
    (case build_report sha md (seen_bytes (rec_of rest)) pre (map_option from_utf8_lossy proto) of
       None \<Rightarrow> Inl Tw_NoClientHello
     | Some r \<Rightarrow> Inr \<lparr>ac_stream = replaying_new pre rest,
                     ac_fingerprint = client_fingerprint_of r (identify r (at_db a)),
                     ac_is_h2 = (proto = Some (as_bytes ''h2''))\<rparr>)"
  by (cases "fingerprint sha md (seen_bytes (rec_of rest))")
    (simp_all only: tower_accept_def assms prod.case timed.case sum.case Let_def map_err_simps
      try_res_simps build_report_def option.case)

lemma tower_accept_refused:
  assumes "accept (recording_new c) = (hs, recorded)" and "\<nexists>proto tls. hs = In_Time (Inr (proto, tls))"
  shows "tower_accept sha md a poll rec_of b accept c \<in> {Inl Tw_Handshake, Inl Tw_Timeout} \<and>
    handle sha md db cfg now poll rec_of b accept c peer = None"
  using assms by (auto simp: tower_accept_def handle_def split: timed.splits sum.splits)

text \<open>
  C11. The acceptor and the proxy agree on every connection: where the acceptor yields a fingerprint the
  proxy serves the same stream and attaches the headers of the same report; where it
  finds no ClientHello the proxy still serves, unparsed; and its other errors are the
  connections the proxy drops.
\<close>

theorem tower_matches_serve:
  "case tower_accept sha md a poll rec_of b accept c of
     Inr ac \<Rightarrow> (\<exists>sv. handle sha md (at_db a) cfg now poll rec_of b accept c peer = Some sv \<and>
        sv_stream sv = ac_stream ac \<and> sv_is_h2 sv = ac_is_h2 ac \<and>
        sv_fp sv = fp_headers (cf_report (ac_fingerprint ac))
                     (identify (cf_report (ac_fingerprint ac)) (at_db a)))
   | Inl Tw_NoClientHello \<Rightarrow>
       (\<exists>sv. handle sha md (at_db a) cfg now poll rec_of b accept c peer = Some sv \<and> sv_fp sv = unparsed_headers)
   | Inl _ \<Rightarrow> handle sha md (at_db a) cfg now poll rec_of b accept c peer = None"
proof -
  obtain hs recorded where a: "accept (recording_new c) = (hs, recorded)" by fastforce
  show ?thesis
  proof (cases "\<exists>proto tls. hs = In_Time (Inr (proto, tls))")
    case False
    from tower_accept_refused [where accept = accept, OF a False, of sha md "a" poll rec_of b "at_db a" cfg now peer]
    show ?thesis by auto
  next
    case True
    then obtain proto tls where h: "accept (recording_new c) = (In_Time (Inr (proto, tls)), recorded)"
      using a by auto
    obtain pre rest where p: "(if proto = Some (as_bytes ''h2'') then capture_preamble poll b tls else ([], tls))
        = (pre, rest)"
      by fastforce
    let ?rep = "build_report sha md (seen_bytes (rec_of rest)) pre (map_option from_utf8_lossy proto)"
    obtain line pushed fp where q: "conclude (at_db a) cfg now peer ?rep = (line, pushed, fp)"
      by (metis prod_cases3)
    note hd = handle_accepted [where accept = accept and rec_of = rec_of, OF h
        take_preamble_tower [of poll b proto tls, unfolded p] q, unfolded alpn_h2]
    note tw = tower_accept_connected [where accept = accept and rec_of = rec_of, OF h p]
    show ?thesis
    proof (cases ?rep)
      case None
      with q hd tw show ?thesis by (simp add: conclude_def)
    next
      case (Some r)
      with q hd tw show ?thesis by (simp add: conclude_def Let_def client_fingerprint_of_def)
    qed
  qed
qed

end
