(* ===== verification/Emulate.thy ===== *)
theory Emulate
  imports Verdict
begin

text \<open>
  Reproducing a profile, \<open>fingerprint-emulate\<close>: the cipher names (\<open>ciphers.rs\<close>), how the TLS
  client is set up (\<open>build.rs\<close>), the HTTP/2 preamble it writes (\<open>h2.rs\<close>) and the verification
  loop (\<open>verify.rs\<close>). BoringSSL is third-party: setting it up is the list of the calls made of
  it, and the parameter \<open>api\<close> says which of them fail. The lemmas show that nothing of a profile
  is silently dropped from the cipher list, and that the preamble, read back by the program's
  own parser, agrees with the profile it was built from.
\<close>

unbundle bit_operations_syntax

datatype emulate_error =
    UnknownCipher u16 | Em_Tls string | Em_Io string | NoCapture | NotCompiledIn

section \<open>Ciphers\<close>

definition CIPHER_NAMES :: "(u16 \<times> string) list" where
  "CIPHER_NAMES =
     [(0x1301, ''TLS_AES_128_GCM_SHA256''),
      (0x1302, ''TLS_AES_256_GCM_SHA384''),
      (0x1303, ''TLS_CHACHA20_POLY1305_SHA256''),
      (0xc02b, ''ECDHE-ECDSA-AES128-GCM-SHA256''),
      (0xc02c, ''ECDHE-ECDSA-AES256-GCM-SHA384''),
      (0xc02f, ''ECDHE-RSA-AES128-GCM-SHA256''),
      (0xc030, ''ECDHE-RSA-AES256-GCM-SHA384''),
      (0xcca8, ''ECDHE-RSA-CHACHA20-POLY1305''),
      (0xcca9, ''ECDHE-ECDSA-CHACHA20-POLY1305''),
      (0xc009, ''ECDHE-ECDSA-AES128-SHA''),
      (0xc00a, ''ECDHE-ECDSA-AES256-SHA''),
      (0xc013, ''ECDHE-RSA-AES128-SHA''),
      (0xc014, ''ECDHE-RSA-AES256-SHA''),
      (0x009c, ''AES128-GCM-SHA256''),
      (0x009d, ''AES256-GCM-SHA384''),
      (0x002f, ''AES128-SHA''),
      (0x0035, ''AES256-SHA''),
      (0x000a, ''DES-CBC3-SHA'')]"

definition cipher_name :: "u16 \<Rightarrow> string option" where
  "cipher_name k = map_of CIPHER_NAMES k"

definition is_tls13 :: "u16 \<Rightarrow> bool" where
  "is_tls13 k \<longleftrightarrow> 0x1301 \<le> k \<and> k \<le> 0x1303"

definition BORINGSSL_TLS13_ORDER :: "u16 list" where
  "BORINGSSL_TLS13_ORDER = [0x1301, 0x1302, 0x1303]"

definition names_for :: "profile \<Rightarrow> bool \<Rightarrow> emulate_error + string" where
  "names_for p tls13 =
     try_res (try_fold (\<lambda>out k.
         try_res (ok_or (UnknownCipher k) (cipher_name k)) (\<lambda>name.
         Inr (if is_tls13 k = tls13 then out @ [name] else out))) [] (tp_ciphers (pf_tls p)))
       (\<lambda>out. Inr (str_join '':'' out))"

definition cipher_list_for :: "profile \<Rightarrow> emulate_error + string" where
  "cipher_list_for p = names_for p False"

definition ciphersuites_for :: "profile \<Rightarrow> emulate_error + string" where
  "ciphersuites_for p = names_for p True"

section \<open>The TLS client\<close>

definition EXT_STATUS_REQUEST :: u16 where "EXT_STATUS_REQUEST = 5"
definition EXT_SCT :: u16 where "EXT_SCT = 18"
definition EXT_COMPRESS_CERTIFICATE :: u16 where "EXT_COMPRESS_CERTIFICATE = 27"
definition EXT_ALPS :: u16 where "EXT_ALPS = 17613"
definition EXT_ECH :: u16 where "EXT_ECH = 65037"

datatype ssl_call =
    Ssl_Builder | Verify_None | Min_Version u16 | Max_Version u16 | Cipher_List string
  | Grease_Enabled bool | Permute_Extensions bool | Alpn_Protos bytes | Ocsp_Stapling
  | Signed_Timestamps | Compress_Brotli
  | Ssl_Configure | Ech_Grease bool | Application_Settings bytes | Use_Sni bool

text \<open>A call that may fail, and one that cannot.\<close>

definition ssl_try ::
    "(ssl_call \<Rightarrow> string option) \<Rightarrow> ssl_call \<Rightarrow> ssl_call list \<Rightarrow> emulate_error + ssl_call list" where
  "ssl_try api c calls = (case api c of None \<Rightarrow> Inr (calls @ [c]) | Some e \<Rightarrow> Inl (Em_Tls e))"

definition encode_alpn :: "string \<Rightarrow> bytes" where
  "encode_alpn proto =
     concat (map (\<lambda>p. if length p \<le> 255 then of_nat (length p) # as_bytes p else [])
       [proto, ''http/1.1''])"

definition build :: "(ssl_call \<Rightarrow> string option) \<Rightarrow> profile \<Rightarrow> emulate_error + ssl_call list" where
  "build api p =
     try_res (ssl_try api Ssl_Builder []) (\<lambda>b.
     try_res (ssl_try api (Min_Version 0x0303) (b @ [Verify_None])) (\<lambda>b.
     try_res (ssl_try api (Max_Version 0x0304) b) (\<lambda>b.
     try_res (cipher_list_for p) (\<lambda>tls12.
     try_res (if tls12 \<noteq> [] then ssl_try api (Cipher_List tls12) b else Inr b) (\<lambda>b.
     let wants_grease = (tp_grease_cipher_positions (pf_tls p) \<noteq> [] \<or>
                         tp_grease_ext_positions (pf_tls p) \<noteq> []);
         b = b @ [Grease_Enabled wants_grease,
                  Permute_Extensions (eq_extension_order (pf_equivalence p) = Permuted)]
     in
     try_res (case tp_alpn (pf_tls p) of
                Some alpn \<Rightarrow> ssl_try api (Alpn_Protos (encode_alpn alpn)) b
              | None \<Rightarrow> Inr b) (\<lambda>b.
     let ext = tp_extensions (pf_tls p);
         b = (if EXT_STATUS_REQUEST \<in> set ext then b @ [Ocsp_Stapling] else b);
         b = (if EXT_SCT \<in> set ext then b @ [Signed_Timestamps] else b)
     in
     if EXT_COMPRESS_CERTIFICATE \<in> set ext then ssl_try api Compress_Brotli b else Inr b))))))"

definition enable_alps ::
    "(ssl_call \<Rightarrow> string option) \<Rightarrow> bytes \<Rightarrow> ssl_call list \<Rightarrow> string + ssl_call list" where
  "enable_alps api proto cfg =
     (case api (Application_Settings proto) of
        None \<Rightarrow> Inr (cfg @ [Application_Settings proto])
      | Some _ \<Rightarrow> Inl ''SSL_add_application_settings failed'')"

definition configure ::
    "(ssl_call \<Rightarrow> string option) \<Rightarrow> ssl_call list \<Rightarrow> profile \<Rightarrow> emulate_error + ssl_call list" where
  "configure api connector p =
     try_res (ssl_try api Ssl_Configure connector) (\<lambda>cfg.
     let ext = tp_extensions (pf_tls p);
         cfg = (if EXT_ECH \<in> set ext then cfg @ [Ech_Grease True] else cfg)
     in
     try_res (if EXT_ALPS \<in> set ext then
                (case tp_alpn (pf_tls p) of
                   Some alpn \<Rightarrow> map_err Em_Tls (enable_alps api (as_bytes alpn) cfg)
                 | None \<Rightarrow> Inr cfg)
              else Inr cfg) (\<lambda>cfg.
     Inr (cfg @ [Use_Sni (tp_has_sni (pf_tls p))])))"

section \<open>The HTTP/2 preamble\<close>

definition FLAG_END_STREAM :: u8 where "FLAG_END_STREAM = 0x1"

definition emit_frame :: "u8 \<Rightarrow> u8 \<Rightarrow> u32 \<Rightarrow> bytes \<Rightarrow> bytes" where
  "emit_frame kind flags stream_id payload =
     (let len = length payload in
      [of_nat (len div 2 ^ 16), of_nat (len div 2 ^ 8), of_nat len, kind, flags]
      @ to_be32 (stream_id AND 0x7fffffff) @ payload)"

text \<open>\<open>str::trim\<close>: the characters of Unicode's White_Space, as they are encoded.\<close>

definition WHITE_SPACE :: "string list" where
  "WHITE_SPACE = map bytes_str
     ([[9], [10], [11], [12], [13], [32], [0xC2, 0x85], [0xC2, 0xA0], [0xE1, 0x9A, 0x80]] @
      map (\<lambda>b. [0xE2, 0x80, b])
        [0x80, 0x81, 0x82, 0x83, 0x84, 0x85, 0x86, 0x87, 0x88, 0x89, 0x8A, 0xA8, 0xA9, 0xAF] @
      [[0xE2, 0x81, 0x9F], [0xE3, 0x80, 0x80]])"

lemma drop_prefix_less: "w \<noteq> [] \<Longrightarrow> prefix w s \<Longrightarrow> length (drop (length w) s) < length s"
  by (cases w) (auto simp: prefix_def)

function trim_front :: "string list \<Rightarrow> string \<Rightarrow> string" where
  "trim_front ws s =
     (case List.find (\<lambda>w. w \<noteq> [] \<and> prefix w s) ws of
        None \<Rightarrow> s
      | Some w \<Rightarrow> trim_front ws (drop (length w) s))"
  by pat_completeness auto
termination
  by (relation "measure (\<lambda>(ws, s). length s)") (auto simp: find_Some_iff simp del: length_drop intro: drop_prefix_less)

declare trim_front.simps [simp del]

definition trim :: "string \<Rightarrow> string" where
  "trim s = rev (trim_front (map rev WHITE_SPACE) (rev (trim_front WHITE_SPACE s)))"

definition pseudo_header :: "string \<Rightarrow> string \<Rightarrow> string \<Rightarrow> string \<Rightarrow> header option" where
  "pseudo_header authority scheme path letter =
     (let l = trim letter in
      if l = ''m'' then Some ('':method'', ''GET'')
      else if l = ''a'' then Some ('':authority'', authority)
      else if l = ''s'' then Some ('':scheme'', scheme)
      else if l = ''p'' then Some ('':path'', path)
      else None)"

definition pseudo_headers :: "string \<Rightarrow> string \<Rightarrow> string \<Rightarrow> string \<Rightarrow> header list" where
  "pseudo_headers order authority scheme path =
     List.map_filter (pseudo_header authority scheme path) (split_char (CHR '','') order)"

definition regular_headers :: "header list \<Rightarrow> string list \<Rightarrow> header list" where
  "regular_headers vals names =
     map (\<lambda>name. (name, case List.find (\<lambda>nv. eq_ignore_ascii_case (fst nv) name) vals of
                          None \<Rightarrow> [] | Some nv \<Rightarrow> snd nv)) names"

definition emitted_headers :: "profile \<Rightarrow> h2_profile \<Rightarrow> string \<Rightarrow> header list \<Rightarrow> header list" where
  "emitted_headers p h2 authority vals =
     pseudo_headers (h2p_pseudo_order h2) authority ''https'' ''/'' @
     (case pf_http p of None \<Rightarrow> [] | Some http \<Rightarrow> regular_headers vals (hs_header_names http))"

definition preamble_with_values :: "profile \<Rightarrow> string \<Rightarrow> header list \<Rightarrow> emulate_error + bytes" where
  "preamble_with_values p authority vals =
     try_res (ok_or (Em_Tls ''profile has no HTTP/2 section'') (pf_h2 p)) (\<lambda>h2.
     let settings = concat (map (\<lambda>(k, v). to_be16 k @ to_be32 v) (h2p_settings h2));
         block = encode_headers (emitted_headers p h2 authority vals)
     in Inr (PREFACE @ emit_frame FRAME_SETTINGS 0 0 settings @
        (case h2p_window_update h2 of
           None \<Rightarrow> []
         | Some increment \<Rightarrow> emit_frame FRAME_WINDOW_UPDATE 0 0 (to_be32 (increment AND 0x7fffffff))) @
        emit_frame FRAME_HEADERS (FLAG_END_STREAM OR FLAG_END_HEADERS) 1 block))"

definition preamble_for :: "profile \<Rightarrow> string \<Rightarrow> emulate_error + bytes" where
  "preamble_for p authority = preamble_with_values p authority []"

section \<open>The verification loop\<close>

text \<open>
  The client is set up and its preamble built before the probe accepts; what the probe then
  reports is the argument \<open>report\<close>, a function of the client's set-up and what it writes.
\<close>

definition verify_profile ::
    "string option \<Rightarrow> (ssl_call \<Rightarrow> string option) \<Rightarrow> (ssl_call list \<Rightarrow> bytes \<Rightarrow> client_report option)
      \<Rightarrow> profile \<Rightarrow> emulate_error + diff_result" where
  "verify_profile bind_error api report p =
     (case bind_error of
        Some e \<Rightarrow> Inl (Em_Tls e)
      | None \<Rightarrow>
          try_res (build api p) (\<lambda>connector.
          try_res (configure api connector p) (\<lambda>cfg.
          let preamble = (case preamble_for p ''localhost'' of Inl _ \<Rightarrow> [] | Inr b \<Rightarrow> b) in
          try_res (ok_or NoCapture (report cfg preamble)) (\<lambda>r.
          Inr (diff r p)))))"

section \<open>The cipher list\<close>

lemma names_fold:
  "try_fold (\<lambda>out k.
      try_res (ok_or (UnknownCipher k) (cipher_name k)) (\<lambda>name.
      Inr (if is_tls13 k = b then out @ [name] else out))) out ks =
   (if list_all (\<lambda>k. cipher_name k \<noteq> None) ks
    then Inr (out @ map (the \<circ> cipher_name) (filter (\<lambda>k. is_tls13 k = b) ks))
    else Inl (UnknownCipher (hd (filter (\<lambda>k. cipher_name k = None) ks))))"
proof (induction ks arbitrary: out)
  case (Cons k ks)
  then show ?case by (cases "cipher_name k") simp_all
qed simp

lemma names_for_eq:
  "names_for p b =
     (if list_all (\<lambda>k. cipher_name k \<noteq> None) (tp_ciphers (pf_tls p))
      then Inr (str_join '':'' (map (the \<circ> cipher_name)
             (filter (\<lambda>k. is_tls13 k = b) (tp_ciphers (pf_tls p)))))
      else Inl (UnknownCipher (hd (filter (\<lambda>k. cipher_name k = None) (tp_ciphers (pf_tls p))))))"
  by (simp add: names_for_def names_fold)

lemma cipher_names_distinct: "distinct (map fst CIPHER_NAMES)" "distinct (map snd CIPHER_NAMES)"
  by code_simp+

lemma cipher_names_plain: "\<forall>n \<in> snd ` set CIPHER_NAMES. n \<noteq> [] \<and> CHR '':'' \<notin> set n"
  by code_simp

lemma cipher_name_mem: "cipher_name k = Some n \<Longrightarrow> (k, n) \<in> set CIPHER_NAMES"
  by (simp add: cipher_name_def map_of_SomeD)

lemma cipher_name_inj: "cipher_name k = Some n \<Longrightarrow> cipher_name k' = Some n \<Longrightarrow> k = k'"
  using cipher_names_distinct(2) cipher_name_mem by (metis distinct_map inj_onD prod.inject snd_conv)

lemma cipher_name_plain: "cipher_name k = Some n \<Longrightarrow> CHR '':'' \<notin> set n \<and> n \<noteq> []"
  using cipher_names_plain cipher_name_mem by force

lemma names_for_Inr:
  "names_for p b = Inr s \<longleftrightarrow>
     (\<forall>k \<in> set (tp_ciphers (pf_tls p)). cipher_name k \<noteq> None) \<and>
     s = str_join '':'' (map (the \<circ> cipher_name) (filter (\<lambda>k. is_tls13 k = b) (tp_ciphers (pf_tls p))))"
  by (auto simp: names_for_eq list_all_iff)

lemma names_plain:
  assumes "\<forall>k \<in> set ks. cipher_name k \<noteq> None"
  shows "\<forall>x \<in> set (map (the \<circ> cipher_name) ks). CHR '':'' \<notin> set x \<and> x \<noteq> []"
proof
  fix x assume "x \<in> set (map (the \<circ> cipher_name) ks)"
  then obtain k where "k \<in> set ks" "x = the (cipher_name k)" by auto
  with assms have "cipher_name k = Some x" by auto
  then show "CHR '':'' \<notin> set x \<and> x \<noteq> []" by (rule cipher_name_plain)
qed

lemma names_inj:
  "\<forall>k \<in> set ks. cipher_name k \<noteq> None \<Longrightarrow> \<forall>k \<in> set ls. cipher_name k \<noteq> None \<Longrightarrow>
     map (the \<circ> cipher_name) ks = map (the \<circ> cipher_name) ls \<Longrightarrow> ks = ls"
proof (induction ks arbitrary: ls)
  case (Cons k ks)
  then obtain l ls' where ls: "ls = l # ls'" by (cases ls) auto
  with Cons.prems obtain n m where "cipher_name k = Some n" "cipher_name l = Some m" by auto
  with Cons ls cipher_name_inj [of k n l] show ?case by simp
qed simp

lemma names_determine:
  assumes "names_for p b = Inr s" and "names_for q b = Inr s"
  shows "filter (\<lambda>k. is_tls13 k = b) (tp_ciphers (pf_tls p)) = filter (\<lambda>k. is_tls13 k = b) (tp_ciphers (pf_tls q))"
proof -
  let ?f = "\<lambda>p. filter (\<lambda>k. is_tls13 k = b) (tp_ciphers (pf_tls p))"
  have known: "\<forall>k \<in> set (?f p). cipher_name k \<noteq> None" "\<forall>k \<in> set (?f q). cipher_name k \<noteq> None"
    using assms by (simp_all add: names_for_Inr)
  have "str_join [CHR '':''] (map (the \<circ> cipher_name) (?f p)) = str_join [CHR '':''] (map (the \<circ> cipher_name) (?f q))"
    using assms by (simp only: names_for_Inr)
  from str_join_inj [OF this names_plain [OF known(1)] names_plain [OF known(2)]]
  show ?thesis by (rule names_inj [OF known])
qed

text \<open>
  The cipher list names every TLS 1.2 suite of the profile in the stored order and nothing else; an unknown suite, of either version, is an error that names the first one.
\<close>

theorem cipher_list_exact:
  "cipher_list_for p =
     (if list_all (\<lambda>k. cipher_name k \<noteq> None) (tp_ciphers (pf_tls p))
      then Inr (str_join '':'' (map (the \<circ> cipher_name)
             (filter (\<lambda>k. is_tls13 k = False) (tp_ciphers (pf_tls p)))))
      else Inl (UnknownCipher (hd (filter (\<lambda>k. cipher_name k = None) (tp_ciphers (pf_tls p))))))"
  by (simp only: cipher_list_for_def names_for_eq)

section \<open>The set-up\<close>

lemma ssl_try_Inr: "ssl_try api c calls = Inr out \<longleftrightarrow> api c = None \<and> out = calls @ [c]"
  by (auto simp: ssl_try_def split: option.splits)

text \<open>
  A client is only ever built with the profile's whole TLS 1.2 list: when the set-up
  succeeds every suite of the profile was known, and the one cipher list set is that list.
\<close>

theorem build_sets_ciphers:
  assumes "build api p = Inr calls"
  shows "(\<forall>k \<in> set (tp_ciphers (pf_tls p)). cipher_name k \<noteq> None) \<and>
    (\<forall>s. Cipher_List s \<in> set calls \<longleftrightarrow> s \<noteq> [] \<and> cipher_list_for p = Inr s)"
proof -
  from assms obtain s where s: "cipher_list_for p = Inr s"
    by (auto simp: build_def res_simps)
  have "Cipher_List t \<in> set calls \<longleftrightarrow> t \<noteq> [] \<and> s = t" for t
    using assms s
    by (auto simp: build_def res_simps ssl_try_Inr Let_def split: if_splits option.splits)
  with s show ?thesis by (auto simp: cipher_list_for_def names_for_Inr)
qed

text \<open>
  The profile's TLS 1.3 order has no effect and is not checked: two profiles that differ
  only in the order, or the presence, of known TLS 1.3 suites build the same client.
\<close>

theorem tls13_order_ignored:
  assumes "filter (\<lambda>k. \<not> is_tls13 k) cs = filter (\<lambda>k. \<not> is_tls13 k) (tp_ciphers (pf_tls p))"
    and "\<forall>k \<in> set cs \<union> set (tp_ciphers (pf_tls p)). cipher_name k \<noteq> None"
  shows "build api (p\<lparr>pf_tls := (pf_tls p)\<lparr>tp_ciphers := cs\<rparr>\<rparr>) = build api p"
proof -
  let ?q = "p\<lparr>pf_tls := (pf_tls p)\<lparr>tp_ciphers := cs\<rparr>\<rparr>"
  have "cipher_list_for ?q = cipher_list_for p"
    using assms by (simp add: cipher_list_for_def names_for_eq list_all_iff)
  then show ?thesis by (simp add: build_def)
qed

lemma build_sets_ciphers_witness:
  "\<exists>calls. build (\<lambda>_. None) sample_profile = Inr calls \<and>
     (\<forall>s. Cipher_List s \<in> set calls \<longleftrightarrow> s \<noteq> [] \<and> cipher_list_for sample_profile = Inr s)"
proof -
  have "case build (\<lambda>_. None) sample_profile of Inl _ \<Rightarrow> False | Inr _ \<Rightarrow> True" by code_simp
  then obtain calls where c: "build (\<lambda>_. None) sample_profile = Inr calls"
    by (auto split: sum.splits)
  from build_sets_ciphers [OF c] c show ?thesis by blast
qed

lemma tls13_order_ignored_witness:
  "build (\<lambda>_. None) (sample_profile\<lparr>pf_tls := (pf_tls sample_profile)\<lparr>tp_ciphers := [0x1303, 0x1302, 0x1301]\<rparr>\<rparr>)
     = build (\<lambda>_. None) sample_profile"
  by (rule tls13_order_ignored) code_simp+

section \<open>The preamble, read back\<close>

lemma low31: "(v :: u32) AND 0x7fffffff = take_bit 31 v"
proof -
  have "(0x7fffffff :: u32) = mask 31" by (simp add: mask_eq_exp_minus_1)
  then show ?thesis by (simp only: take_bit_eq_mask)
qed

lemma unat_low31: "unat ((v :: u32) AND 0x7fffffff) = unat v mod 2147483648"
proof -
  have "unat (take_bit 31 v) = take_bit 31 (unat v)"
    by (rule unsigned_take_bit_eq)
  then show ?thesis unfolding low31 by (simp add: take_bit_nat_def)
qed

lemma low31_bound: "unat ((v :: u32) AND 0x7fffffff) < 2147483648"
  unfolding unat_low31 by simp

lemma low31_small: "unat (v :: u32) < 2147483648 \<Longrightarrow> v AND 0x7fffffff = v"
  by (simp add: word_unat_eq_iff unat_low31)

lemma emit_frame_bytes:
  assumes "length payload < 16777216" and "unat sid < 2147483648"
  shows "emit_frame kind flags sid payload =
    frame_bytes (0, \<lparr>fr_kind = kind, fr_flags = flags, fr_stream_id = sid, fr_payload = payload\<rparr>)"
proof -
  let ?n = "length payload"
  have u: "uint (of_nat ?n :: u32) = int ?n"
    using assms(1) by (simp add: uint_nat unat_of_nat)
  have d: "int ?n div 65536 = int (?n div 65536)" "int ?n div 256 = int (?n div 256)"
    by (simp_all add: zdiv_int)
  have l: "tl (to_be32 (of_nat ?n)) = [of_nat (?n div 65536), of_nat (?n div 256), of_nat ?n]"
    unfolding to_be32_def u d by simp
  obtain a b c e where "to_be32 sid = [a, b, c, e]" by (rule to_be32_cases)
  then show ?thesis
    by (simp add: emit_frame_def frame_bytes_def l low31_small [OF assms(2)] Let_def)
qed

lemma emit_frame_wf:
  "length payload < 16777216 \<Longrightarrow> unat sid < 2147483648 \<Longrightarrow>
     frame_wf (0, \<lparr>fr_kind = kind, fr_flags = flags, fr_stream_id = sid, fr_payload = payload\<rparr>)"
  by (simp add: frame_wf_def)

text \<open>The three frames written, as the parser sees them.\<close>

definition settings_frame :: "h2_profile \<Rightarrow> frame" where
  "settings_frame h2 =
     \<lparr>fr_kind = FRAME_SETTINGS, fr_flags = 0, fr_stream_id = 0, fr_payload = settings_bytes (h2p_settings h2)\<rparr>"

definition window_frames :: "h2_profile \<Rightarrow> frame list" where
  "window_frames h2 =
     (case h2p_window_update h2 of None \<Rightarrow> []
      | Some v \<Rightarrow> [\<lparr>fr_kind = FRAME_WINDOW_UPDATE, fr_flags = 0, fr_stream_id = 0,
                  fr_payload = to_be32 (v AND 0x7fffffff)\<rparr>])"

definition headers_frame :: "header list \<Rightarrow> frame" where
  "headers_frame hs =
     \<lparr>fr_kind = FRAME_HEADERS, fr_flags = FLAG_END_STREAM OR FLAG_END_HEADERS, fr_stream_id = 1,
      fr_payload = encode_headers hs\<rparr>"

definition emitted_frames :: "profile \<Rightarrow> h2_profile \<Rightarrow> string \<Rightarrow> header list \<Rightarrow> frame list" where
  "emitted_frames p h2 authority vals =
     settings_frame h2 # window_frames h2 @ [headers_frame (emitted_headers p h2 authority vals)]"

text \<open>What has to fit its frame, and be text the encoder's reader takes.\<close>

definition emittable :: "profile \<Rightarrow> h2_profile \<Rightarrow> string \<Rightarrow> header list \<Rightarrow> bool" where
  "emittable p h2 authority vals \<longleftrightarrow>
     6 * length (h2p_settings h2) < 16777216 \<and>
     (let hs = emitted_headers p h2 authority vals in
      length (encode_headers hs) < 16777216 \<and> length hs \<le> 512 \<and>
      (\<forall>h \<in> set hs. header_text (fst h) \<and> header_text (snd h)))"

lemma length_to_be32 [simp]: "length (to_be32 v) = 4"
  by (simp add: to_be32_def)

lemma preamble_frames:
  assumes "pf_h2 p = Some h2" and "emittable p h2 authority vals"
  shows "preamble_with_values p authority vals =
    Inr (PREFACE @ concat (map frame_bytes (map (\<lambda>f. (0, f)) (emitted_frames p h2 authority vals))))"
    and "list_all frame_wf (map (\<lambda>f. (0, f)) (emitted_frames p h2 authority vals))"
proof -
  let ?block = "encode_headers (emitted_headers p h2 authority vals)"
  have l: "length (settings_bytes (h2p_settings h2)) < 16777216" "length ?block < 16777216"
    using assms(2) by (simp_all add: emittable_def length_settings_bytes Let_def)
  have s: "concat (map (\<lambda>(k, v). to_be16 k @ to_be32 v) (h2p_settings h2)) = settings_bytes (h2p_settings h2)"
    by (simp add: settings_bytes_def)
  show "preamble_with_values p authority vals =
    Inr (PREFACE @ concat (map frame_bytes (map (\<lambda>f. (0, f)) (emitted_frames p h2 authority vals))))"
    using l by (cases "h2p_window_update h2")
      (simp_all add: preamble_with_values_def assms(1) s emitted_frames_def settings_frame_def
        window_frames_def headers_frame_def emit_frame_bytes Let_def)
  show "list_all frame_wf (map (\<lambda>f. (0, f)) (emitted_frames p h2 authority vals))"
    using l by (cases "h2p_window_update h2")
      (simp_all add: emitted_frames_def settings_frame_def window_frames_def headers_frame_def emit_frame_wf)
qed

text \<open>What the server reads out of the emitted frames, part by part.\<close>

lemma emitted_settings:
  "settings_pairs (emitted_frames p h2 authority vals) = h2p_settings h2"
  using settings_pairs_frame [of "settings_frame h2" "h2p_settings h2"]
  by (cases "h2p_window_update h2")
    (simp_all add: emitted_frames_def settings_pairs_append [of "[settings_frame h2]", simplified]
      settings_frame_def window_frames_def headers_frame_def frame_kinds settings_pairs_def)

lemma emitted_window:
  "window_update (emitted_frames p h2 authority vals) =
     map_option (\<lambda>v. v AND 0x7fffffff) (h2p_window_update h2)"
proof (cases "h2p_window_update h2")
  case None
  then have "window_update (emitted_frames p h2 authority vals) = None"
    by (intro window_update_none)
      (simp add: emitted_frames_def settings_frame_def window_frames_def headers_frame_def frame_kinds)
  with None show ?thesis by simp
next
  case (Some v)
  let ?hs = "emitted_headers p h2 authority vals"
  let ?w = "\<lparr>fr_kind = FRAME_WINDOW_UPDATE, fr_flags = 0, fr_stream_id = 0,
    fr_payload = to_be32 (v AND 0x7fffffff)\<rparr>"
  have "emitted_frames p h2 authority vals = [settings_frame h2] @ ?w # [headers_frame ?hs]"
    by (simp add: emitted_frames_def window_frames_def Some)
  moreover have "window_update ([settings_frame h2] @ ?w # [headers_frame ?hs]) = Some (v AND 0x7fffffff)"
    by (rule window_update_frame) (simp_all add: low31_bound settings_frame_def frame_kinds)
  ultimately show ?thesis by (simp add: Some)
qed

lemma emitted_no_priorities:
  "priorities (emitted_frames p h2 authority vals) = []"
  by (cases "h2p_window_update h2")
    (simp_all add: priorities_def emitted_frames_def settings_frame_def window_frames_def
      headers_frame_def frame_kinds)

lemma fingerprint_preamble:
  assumes "pf_h2 p = Some h2" and "emittable p h2 authority vals"
    and "preamble_with_values p authority vals = Inr raw" and "length raw \<le> usize_max"
  shows "fingerprint_h2 raw = Inr
    (let hs = emitted_headers p h2 authority vals; order = pseudo_header_order hs;
         wu = map_option (\<lambda>v. v AND 0x7fffffff) (h2p_window_update h2)
     in \<lparr>hf_settings = h2p_settings h2, hf_window_update = wu, hf_priorities = [],
         hf_pseudo_order = order, hf_headers = hs,
         hf_akamai = akamai_string (h2p_settings h2) wu [] order, hf_http = from_headers hs\<rparr>)"
proof -
  let ?hs = "emitted_headers p h2 authority vals"
  let ?fs = "emitted_frames p h2 authority vals"
  let ?xs = "map (\<lambda>f. (0 :: u8, f)) ?fs"
  have m: "map snd ?xs = ?fs" by (simp add: comp_def)
  have raw: "raw = PREFACE @ concat (map frame_bytes ?xs) @ []"
    using preamble_frames(1) [OF assms(1,2)] assms(3) by simp
  have "walk_ends (map snd ?xs) []"
    by (cases "h2p_window_update h2")
      (simp_all add: emitted_frames_def settings_frame_def window_frames_def headers_frame_def frame_kinds)
  from parse_preamble_complete [OF preamble_frames(2) [OF assms(1,2)] this] assms(4)
  have parse: "parse_preamble raw = Inr ?fs"
    by (simp only: raw m)
  have find: "List.find (\<lambda>f. fr_kind f = FRAME_HEADERS) ?fs = Some (headers_frame ?hs)"
    by (cases "h2p_window_update h2")
      (simp_all add: emitted_frames_def settings_frame_def window_frames_def headers_frame_def frame_kinds)
  have hs: "decode_headers (headers_frame ?hs) = ?hs"
    by (rule decode_headers_encode [where padding = None and prio = None])
      (use assms(2) in \<open>simp_all add: headers_frame_def headers_payload_def emittable_def Let_def
        FLAG_END_STREAM_def FLAG_END_HEADERS_def FLAG_PADDED_def FLAG_PRIORITY_def\<close>)
  show ?thesis
    by (simp only: fingerprint_h2_def parse try_res_simps find option.case hs emitted_settings emitted_window
        emitted_no_priorities Let_def)
qed

section \<open>A captured profile is reproduced\<close>

abbreviation pseudo_letters :: "string set" where
  "pseudo_letters \<equiv> {''m'', ''a'', ''s'', ''p''}"

lemma trim_letters: "trim ''m'' = ''m''" "trim ''a'' = ''a''" "trim ''s'' = ''s''" "trim ''p'' = ''p''"
  "trim [] = []"
  by code_simp+

lemma pseudo_header_simps:
  "pseudo_header a sch p ''m'' = Some ('':method'', ''GET'')"
  "pseudo_header a sch p ''a'' = Some ('':authority'', a)"
  "pseudo_header a sch p ''s'' = Some ('':scheme'', sch)"
  "pseudo_header a sch p ''p'' = Some ('':path'', p)"
  "pseudo_header a sch p [] = None"
  by (simp_all only: pseudo_header_def trim_letters Let_def) simp_all

lemma pseudo_letter_simps:
  "pseudo_letter ('':method'', v) = Some ''m''" "pseudo_letter ('':authority'', v) = Some ''a''"
  "pseudo_letter ('':scheme'', v) = Some ''s''" "pseudo_letter ('':path'', v) = Some ''p''"
  by (simp_all add: pseudo_letter_def)

lemma pseudo_letter_header:
  "l \<in> pseudo_letters \<Longrightarrow> \<exists>h. pseudo_header a sch p l = Some h \<and> pseudo_letter h = Some l"
  by (elim insertE emptyE)
    (simp_all only: pseudo_header_simps option.inject simp_thms ex_simps pseudo_letter_simps)

lemma map_filter_letters:
  "set ls \<subseteq> pseudo_letters \<Longrightarrow>
     List.map_filter pseudo_letter (List.map_filter (pseudo_header a sch p) ls) = ls"
proof (induction ls)
  case (Cons l ls)
  then obtain h where "pseudo_header a sch p l = Some h" "pseudo_letter h = Some l"
    using pseudo_letter_header [of l a sch p] by auto
  with Cons show ?case by (simp add: List.map_filter_simps)
qed (simp add: List.map_filter_simps)

lemma pseudo_headers_letters:
  assumes "set ls \<subseteq> pseudo_letters"
  shows "List.map_filter pseudo_letter (pseudo_headers (str_join '','' ls) a sch p) = ls"
proof (cases "ls = []")
  case True
  with True show ?thesis
    by (simp add: pseudo_headers_def List.map_filter_simps pseudo_header_simps(5))
next
  case False
  have "\<forall>x \<in> set ls. CHR '','' \<notin> set x" using assms by auto
  from split_char_join [OF False this] map_filter_letters [OF assms] show ?thesis
    by (simp add: pseudo_headers_def)
qed

lemma map_filter_append: "List.map_filter f (xs @ ys) = List.map_filter f xs @ List.map_filter f ys"
  by (simp add: List.map_filter_def)

lemma pred_if: "pred_option Q x \<Longrightarrow> pred_option Q y \<Longrightarrow> pred_option Q (if b then x else y)"
  by simp

lemma pseudo_names: "is_pseudo (to_ascii_lowercase '':method'')" "is_pseudo (to_ascii_lowercase '':authority'')"
  "is_pseudo (to_ascii_lowercase '':scheme'')" "is_pseudo (to_ascii_lowercase '':path'')"
  by code_simp+

lemma pseudo_header_pseudo:
  "pred_option (\<lambda>h. is_pseudo (to_ascii_lowercase (fst h))) (pseudo_header a sch p l)"
  unfolding pseudo_header_def Let_def
  by (intro pred_if) (simp_all only: pseudo_names option.pred_inject fst_conv)

lemma pseudo_headers_uncounted: "h \<in> set (pseudo_headers order a sch p) \<Longrightarrow> \<not> counted h"
proof -
  assume "h \<in> set (pseudo_headers order a sch p)"
  then obtain l where "pseudo_header a sch p l = Some h"
    by (auto simp only: pseudo_headers_def List.map_filter_def set_map set_filter comp_def
        option.sel image_iff mem_Collect_eq not_None_eq)
  with pseudo_header_pseudo [of a sch p l] show "\<not> counted h"
    by (simp add: counted_def)
qed

text \<open>Names as a profile stores them.\<close>

definition stored_name :: "string \<Rightarrow> bool" where
  "stored_name n \<longleftrightarrow> \<not> is_pseudo n \<and> \<not> starts_with n FP_PREFIX \<and> n \<notin> set REQUEST_SCOPED \<and>
     to_ascii_lowercase n = n"

lemma pseudo_letter_pseudo: "pseudo_letter h = Some l \<Longrightarrow> is_pseudo (fst h)"
  by (auto simp: pseudo_letter_def is_pseudo_def split: if_splits)

lemma regular_letters:
  assumes "\<forall>n \<in> set names. stored_name n"
  shows "List.map_filter pseudo_letter (regular_headers vals names) = []"
proof -
  have "pseudo_letter h = None" if "h \<in> set (regular_headers vals names)" for h
    using that assms pseudo_letter_pseudo [of h]
    by (cases "pseudo_letter h") (auto simp: regular_headers_def stored_name_def)
  then show ?thesis by (simp add: List.map_filter_def filter_empty_conv)
qed

lemma regular_counted:
  "\<forall>n \<in> set names. stored_name n \<Longrightarrow>
     map lower_name (filter counted (regular_headers vals names)) = names"
  by (induction names) (auto simp: regular_headers_def counted_def lower_name_def stored_name_def)

lemma emitted_profile:
  assumes "set ls \<subseteq> pseudo_letters" and "h2p_pseudo_order h2 = str_join '','' ls"
    and "pf_http p = Some w" and "\<forall>n \<in> set (hs_header_names w). stored_name n"
  shows "pseudo_header_order (emitted_headers p h2 authority vals) = h2p_pseudo_order h2"
    and "comparable_headers (from_headers (emitted_headers p h2 authority vals)) = hs_header_names w"
    and "hp_has_accept_language (from_headers (emitted_headers p h2 authority vals)) \<longleftrightarrow>
      ''accept-language'' \<in> set (hs_header_names w)"
proof -
  let ?ps = "pseudo_headers (h2p_pseudo_order h2) authority ''https'' ''/''"
  let ?rs = "regular_headers vals (hs_header_names w)"
  have e: "emitted_headers p h2 authority vals = ?ps @ ?rs"
    by (simp add: emitted_headers_def assms(3))
  show "pseudo_header_order (emitted_headers p h2 authority vals) = h2p_pseudo_order h2"
    by (simp add: pseudo_header_order_def e map_filter_append regular_letters [OF assms(4)]
        pseudo_headers_letters [OF assms(1)] assms(2))
  have "filter counted ?ps = []"
    using pseudo_headers_uncounted by (auto simp: filter_empty_conv)
  then have names: "map lower_name (filter counted (?ps @ ?rs)) = hs_header_names w"
    using regular_counted [OF assms(4)] by simp
  have "filter (\<lambda>n. n \<notin> set REQUEST_SCOPED) (hs_header_names w) = hs_header_names w"
    using assms(4) by (simp add: stored_name_def filter_id_conv)
  with names show "comparable_headers (from_headers (emitted_headers p h2 authority vals)) = hs_header_names w"
    by (simp only: e comparable_headers_def from_headers_eq http_profile.select_convs)
  have "lower_name ` set (filter counted (?ps @ ?rs)) = set (hs_header_names w)"
    using arg_cong [OF names, of set] by (simp only: set_map)
  then show "hp_has_accept_language (from_headers (emitted_headers p h2 authority vals)) \<longleftrightarrow>
      ''accept-language'' \<in> set (hs_header_names w)"
    by (simp only: e from_headers_eq http_profile.select_convs)
qed

text \<open>What \<open>from_report\<close> stores has that form.\<close>

lemma letters_set: "set (List.map_filter pseudo_letter hs) \<subseteq> pseudo_letters"
  by (auto simp: List.map_filter_def pseudo_letter_def split: if_splits)

lemma comparable_stored:
  assumes "n \<in> set (comparable_headers (from_headers hs))"
  shows "stored_name n"
proof -
  from assms have n: "n \<in> lower_name ` set (filter counted hs)" "n \<notin> set REQUEST_SCOPED"
    by (auto simp only: comparable_headers_def from_headers_eq http_profile.select_convs set_filter
        set_map mem_Collect_eq image_iff)
  from n(1) obtain h where h: "counted h" "n = to_ascii_lowercase (fst h)"
    by (auto simp only: lower_name_def image_iff set_filter mem_Collect_eq)
  with n(2) show ?thesis
    by (simp only: stored_name_def counted_def lower_idem) simp
qed

lemma accept_language_comparable:
  "hp_has_accept_language (from_headers hs) \<longleftrightarrow>
     ''accept-language'' \<in> set (comparable_headers (from_headers hs))"
  by (auto simp: comparable_headers_def from_headers_eq REQUEST_SCOPED_def)

lemma window_update_bound: "window_update fs = Some v \<Longrightarrow> unat v < 2147483648"
proof -
  assume "window_update fs = Some v"
  then obtain a b c d where "v = be32 (a AND 0x7f) b c d"
    by (auto simp: window_update_def Let_def bind_eq_Some_conv)
  moreover have "(a AND 0x7f) AND 0x7f = a AND (0x7f :: u8)"
    by (simp add: and.assoc)
  ultimately show ?thesis by (simp only: be32_small)
qed

lemma fingerprint_h2_fields:
  assumes "fingerprint_h2 raw = Inr fp"
  shows "hf_pseudo_order fp = pseudo_header_order (hf_headers fp)"
    and "hf_http fp = from_headers (hf_headers fp)"
    and "hf_window_update fp = Some v \<Longrightarrow> unat v < 2147483648"
    and "hf_akamai fp = akamai_string (hf_settings fp) (hf_window_update fp) (hf_priorities fp) (hf_pseudo_order fp)"
  using assms window_update_bound
  by (auto simp: fingerprint_h2_def res_simps Let_def)

lemma captured_profile_h2:
  assumes "cr_h2 rep = Some fp" and "pf_h2 (from_report rep label captured) = Some h2"
  shows "h2p_settings h2 = hf_settings fp" "h2p_window_update h2 = hf_window_update fp"
    "h2p_pseudo_order h2 = hf_pseudo_order fp" "h2p_akamai h2 = hf_akamai fp"
  using assms by (auto simp: from_report_def Let_def)

lemma captured_profile_http:
  assumes "cr_h2 rep = Some fp"
  obtains w where "pf_http (from_report rep label captured) = Some w"
    "hs_header_names w = comparable_headers (hf_http fp)"
    "hs_has_accept_language w = hp_has_accept_language (hf_http fp)"
  using assms by (auto simp: from_report_def Let_def)

lemma emulated_fingerprint:
  assumes "fingerprint_h2 raw = Inr fp" and "cr_h2 rep = Some fp"
    and "p = from_report rep label captured" and "pf_h2 p = Some h2"
    and "emittable p h2 authority vals" and "preamble_with_values p authority vals = Inr out"
    and "length out \<le> usize_max"
  obtains fp' where "fingerprint_h2 out = Inr fp'" "hf_settings fp' = hf_settings fp"
    "hf_window_update fp' = hf_window_update fp" "hf_pseudo_order fp' = hf_pseudo_order fp"
    "hf_priorities fp' = []" "comparable_headers (hf_http fp') = comparable_headers (hf_http fp)"
    "hp_has_accept_language (hf_http fp') = hp_has_accept_language (hf_http fp)"
proof -
  note h2 = captured_profile_h2 [OF assms(2) assms(4) [unfolded assms(3)]]
  obtain w where w: "pf_http p = Some w" "hs_header_names w = comparable_headers (hf_http fp)"
    "hs_has_accept_language w = hp_has_accept_language (hf_http fp)"
    by (rule captured_profile_http [OF assms(2), of label captured, folded assms(3)])
  have order: "h2p_pseudo_order h2 = str_join '','' (List.map_filter pseudo_letter (hf_headers fp))"
    by (simp add: h2(3) fingerprint_h2_fields(1) [OF assms(1)] pseudo_header_order_def)
  have stored: "\<forall>n \<in> set (hs_header_names w). stored_name n"
    by (simp add: w(2) fingerprint_h2_fields(2) [OF assms(1)] comparable_stored)
  note e = emitted_profile [OF letters_set order w(1) stored, of authority vals]
  have wu: "map_option (\<lambda>v. v AND 0x7fffffff) (h2p_window_update h2) = hf_window_update fp"
    using fingerprint_h2_fields(3) [OF assms(1)] low31_small
    by (cases "hf_window_update fp") (simp_all add: h2(2))
  note f = fingerprint_preamble [OF assms(4-7), unfolded Let_def]
  show thesis
    by (rule that [OF f])
      (simp_all only: h2_fingerprint.select_convs h2(1) wu e w(2) h2(3)
        accept_language_comparable [of "hf_headers fp"] fingerprint_h2_fields(2) [OF assms(1)])
qed


text \<open>A captured client, and the profile taken from it.\<close>

definition sample_captured_fp :: h2_fingerprint where
  "sample_captured_fp =
     \<lparr>hf_settings = [(4, 6291456)], hf_window_update = None, hf_priorities = [],
      hf_pseudo_order = ''m'', hf_headers = [('':method'', ''GET'')], hf_akamai = ''4:6291456|0|0|m'',
      hf_http = \<lparr>hp_header_names = [], hp_header_count = 0, hp_has_accept_language = False,
                 hp_method = Some ''GET'', hp_cookie_header_count = 0, hp_has_referer = False\<rparr>\<rparr>"

definition sample_captured :: client_report where
  "sample_captured = sample_report\<lparr>cr_h2 := Some sample_captured_fp\<rparr>"

definition sample_h2p :: h2_profile where
  "sample_h2p = \<lparr>h2p_akamai = ''4:6291456|0|0|m'', h2p_settings = [(4, 6291456)],
                 h2p_window_update = None, h2p_pseudo_order = ''m''\<rparr>"

lemma sample_captured_ok:
  "fingerprint_h2 sample_preamble = Inr sample_captured_fp"
  "cr_h2 sample_captured = Some sample_captured_fp"
  "pf_h2 (from_report sample_captured ''a'' ''b'') = Some sample_h2p"
  "emittable (from_report sample_captured ''a'' ''b'') sample_h2p ''localhost'' []"
  "case preamble_with_values (from_report sample_captured ''a'' ''b'') ''localhost'' [] of
     Inl _ \<Rightarrow> False | Inr out \<Rightarrow> length out \<le> usize_max"
  by code_simp+

lemma sample_out:
  obtains out where "preamble_with_values (from_report sample_captured ''a'' ''b'') ''localhost'' [] = Inr out"
    "length out \<le> usize_max"
  using sample_captured_ok(5) by (auto split: sum.splits)


text \<open>
  The Akamai string is reproduced only for clients that sent no PRIORITY frame: a profile
  does not store them and the preamble has none, and yet the comparison reports no difference.
\<close>

theorem emulated_akamai_iff:
  assumes "fingerprint_h2 raw = Inr fp" and "cr_h2 rep = Some fp"
    and "p = from_report rep label captured" and "pf_h2 p = Some h2"
    and "emittable p h2 authority vals" and "preamble_with_values p authority vals = Inr out"
    and "length out \<le> usize_max"
  shows "\<exists>fp'. fingerprint_h2 out = Inr fp' \<and>
    (hf_akamai fp' = h2p_akamai h2 \<longleftrightarrow> hf_priorities fp = [])"
proof -
  note h2 = captured_profile_h2 [OF assms(2) assms(4) [unfolded assms(3)]]
  obtain fp' where f: "fingerprint_h2 out = Inr fp'" "hf_settings fp' = hf_settings fp"
    "hf_window_update fp' = hf_window_update fp" "hf_pseudo_order fp' = hf_pseudo_order fp"
    "hf_priorities fp' = []"
    by (rule emulated_fingerprint [OF assms])
  have "hf_akamai fp' = h2p_akamai h2 \<longleftrightarrow> render_priorities [] @ ''|'' @ hf_pseudo_order fp
      = render_priorities (hf_priorities fp) @ ''|'' @ hf_pseudo_order fp"
    by (simp only: h2(4) fingerprint_h2_fields(4) [OF f(1)] fingerprint_h2_fields(4) [OF assms(1)] f(2-5)
        akamai_string_def append.assoc same_append_eq)
  also have "\<dots> \<longleftrightarrow> render_priorities [] = render_priorities (hf_priorities fp)"
    by simp
  also have "\<dots> \<longleftrightarrow> hf_priorities fp = []"
    using render_priorities_inj by metis
  finally show ?thesis using f(1) by blast
qed

lemma emulated_akamai_iff_witness:
  "\<exists>out fp'. preamble_with_values (from_report sample_captured ''a'' ''b'') ''localhost'' [] = Inr out \<and>
     fingerprint_h2 out = Inr fp' \<and> hf_akamai fp' = h2p_akamai sample_h2p"
proof -
  obtain out where o: "preamble_with_values (from_report sample_captured ''a'' ''b'') ''localhost'' [] = Inr out"
    "length out \<le> usize_max" by (rule sample_out)
  from emulated_akamai_iff [OF sample_captured_ok(1,2) refl sample_captured_ok(3,4) o] o(1)
  show ?thesis by (auto simp: sample_captured_fp_def)
qed

end
