(* ===== verification/Commands.thy ===== *)
theory Commands
  imports Emulate Serve
begin

text \<open>
  The subcommands, \<open>fpd/src/commands\<close>: what each reads from its arguments, in which order it
  fails, and its exit code. The world outside (files, sockets, the runtime, the client's process)
  is a record of what those operations return. The lemmas say what each exit code means.
\<close>

definition EXIT_MATCH :: nat where "EXIT_MATCH = 0"
definition EXIT_MISMATCH :: nat where "EXIT_MISMATCH = 1"
definition EXIT_OPERATIONAL :: nat where "EXIT_OPERATIONAL = 2"

section \<open>check\<close>

text \<open>\<open>str::replace\<close> with a nonempty pattern.\<close>

function str_replace :: "string \<Rightarrow> string \<Rightarrow> string \<Rightarrow> string" where
  "str_replace pat rep s =
     (if s = [] then []
      else if pat \<noteq> [] \<and> prefix pat s then rep @ str_replace pat rep (drop (length pat) s)
      else hd s # str_replace pat rep (tl s))"
  by pat_completeness auto
termination
  by (relation "measure (\<lambda>(pat, rep, s). length s)") (auto simp: prefix_def)

declare str_replace.simps [simp del]

definition substitute :: "string list \<Rightarrow> string \<Rightarrow> string list" where
  "substitute args url = map (str_replace ''{url}'' url) args"

record check_args =
  ca_profile :: "string option"
  ca_timeout_secs :: nat
  ca_cacert_out :: "string option"
  ca_command :: "string list"

text \<open>What the operations \<open>check\<close> needs return: the profiles, the runtime, the probe's port, whether a
  file can be written and a program be run, and what the probe's \<open>accept_one\<close> gives.\<close>

record 'e check_world =
  cw_db :: "'e profile_error + profile_db"
  cw_runtime :: bool
  cw_probe :: "nat option"
  cw_write :: "string \<Rightarrow> bool"
  cw_spawn :: "string \<Rightarrow> string list \<Rightarrow> bool"
  cw_accept :: "'e probe_error + client_report"

datatype child = No_Child | Left_Running | Killed

definition line :: "string \<Rightarrow> string" where "line s = s @ newline"

definition percent :: "rat \<Rightarrow> string" where
  "percent s = fmt_fixed0 (f32_round (s * 100)) @ ''%''"

definition identified_text :: "identification \<Rightarrow> string" where
  "identified_text v =
     (case id_best v of
        Some best \<Rightarrow>
          line (''  identified: '' @ cd_label best @ '' ('' @ percent (cd_score best) @ '' match)'') @
          (case get_at (id_ranked v) 1 of
             Some runner \<Rightarrow>
               line (''  runner-up:  '' @ cd_label runner @ '' ('' @ percent (cd_score runner) @ '')'')
           | None \<Rightarrow> []) @
          newline @ show_diff (cd_diff best)
      | None \<Rightarrow>
          line ''  identified: no profile matches this client'' @
          (case id_ranked v of
             closest # _ \<Rightarrow>
               line (''  closest:    '' @ cd_label closest @ '' ('' @ percent (cd_score closest) @ '')'')
           | [] \<Rightarrow> []))"

definition mismatch_text :: "identification \<Rightarrow> string" where
  "mismatch_text v =
     (case id_mismatch v of
        Some m \<Rightarrow>
          newline @
          line (''  CLAIM MISMATCH: User-Agent says '' @ family_str (cm_claimed m) @
            '', fingerprint says '' @ family_str (cm_observed m)) @
          line ''  no real browser produces this combination''
      | None \<Rightarrow> [])"

text \<open>The comparison asked for, or the identification: its text, and whether it is clean.\<close>

definition check_verdict :: "profile option \<Rightarrow> profile_db \<Rightarrow> client_report \<Rightarrow> string \<times> bool" where
  "check_verdict named db report =
     (case named of
        Some p \<Rightarrow> (let d = diff report p in (show_diff d, is_clean d))
      | None \<Rightarrow>
          (let v = identify report db
           in (identified_text v @ mismatch_text v, id_best v \<noteq> None \<and> id_mismatch v = None)))"

text \<open>Exit code, standard output and what became of the client.\<close>

definition check_run :: "'e check_world \<Rightarrow> check_args \<Rightarrow> nat \<times> string \<times> child" where
  "check_run w args =
     (case cw_db w of
        Inl _ \<Rightarrow> (EXIT_OPERATIONAL, [], No_Child)
      | Inr db \<Rightarrow>
     (case (case ca_profile args of
              Some label \<Rightarrow> map_sum id Some (db_get db label :: 'e profile_error + profile)
            | None \<Rightarrow> Inr None) of
        Inl _ \<Rightarrow> (EXIT_OPERATIONAL, [], No_Child)
      | Inr named \<Rightarrow>
     (case ca_command args of
        [] \<Rightarrow> (EXIT_OPERATIONAL, [], No_Child)
      | program # rest \<Rightarrow>
     if \<not> cw_runtime w then (EXIT_OPERATIONAL, [], No_Child)
     else (case cw_probe w of
        None \<Rightarrow> (EXIT_OPERATIONAL, [], No_Child)
      | Some port \<Rightarrow>
          if (case ca_cacert_out args of None \<Rightarrow> False | Some path \<Rightarrow> \<not> cw_write w path)
          then (EXIT_OPERATIONAL, [], No_Child)
          else if \<not> cw_spawn w program (substitute rest (probe_url port))
          then (EXIT_OPERATIONAL, [], No_Child)
          else (case cw_accept w of
             Inl _ \<Rightarrow> (EXIT_OPERATIONAL, [], Left_Running)
           | Inr report \<Rightarrow>
               (case check_verdict named db report of (txt, clean) \<Rightarrow>
                  (if clean then EXIT_MATCH else EXIT_MISMATCH,
                   txt @ line ''  (checked TLS, HTTP/2 and HTTP headers)'', Killed)))))))"

section \<open>capture\<close>

definition infer_order :: "u16 list list \<Rightarrow> ordering" where
  "infer_order samples =
     (if length samples < 2 then Unknown_Order
      else case samples of
        [] \<Rightarrow> Unknown_Order
      | first # _ \<Rightarrow> if list_all (\<lambda>s. s = first) samples then Fixed else Permuted)"

record capture_args =
  pa_label :: string
  pa_samples :: nat
  pa_out :: string
  pa_timeout_secs :: nat

text \<open>The probe's answer to the \<open>n\<close>th wait, and the JSON library's text of a profile.\<close>

record 'e capture_world =
  pw_runtime :: bool
  pw_probe :: "nat option"
  pw_accept :: "nat \<Rightarrow> 'e probe_error + client_report"
  pw_print :: "profile \<Rightarrow> string option"
  pw_write :: "string \<Rightarrow> bool"

text \<open>The loop over the samples, \<open>n\<close> the number of the next one: what it prints, and the reports.\<close>

fun take_samples ::
    "'e capture_world \<Rightarrow> nat \<Rightarrow> nat \<Rightarrow> nat \<Rightarrow> client_report list
      \<Rightarrow> string \<times> ('e probe_error + client_report list)" where
  "take_samples w wanted n 0 reports = ([], Inr reports)"
| "take_samples w wanted n (Suc k) reports =
     (case pw_accept w n of
        Inl e \<Rightarrow> ([], Inl e)
      | Inr r \<Rightarrow>
          (case take_samples w wanted (n + 1) k (reports @ [r]) of (out, res) \<Rightarrow>
             (line (''  sample '' @ dec_string n @ ''/'' @ dec_string wanted @ '': '' @ tf_ja4 (cr_tls r)) @ out,
              res)))"

definition captured_profile :: "capture_args \<Rightarrow> client_report list \<Rightarrow> profile" where
  "captured_profile args reports =
     (let p = from_report (last reports) (pa_label args) ''unknown'';
          cipher_samples = map (\<lambda>r. strip (tf_ciphers (cr_tls r))) reports;
          ext_samples = map (\<lambda>r. strip (tf_extensions (cr_tls r))) reports
      in p\<lparr>pf_equivalence := \<lparr>eq_cipher_order = infer_order cipher_samples,
                              eq_extension_order = infer_order ext_samples\<rparr>,
           pf_source := ''capture/'' @ dec_string (pa_samples args)\<rparr>)"

fun order_debug :: "ordering \<Rightarrow> string" where
  "order_debug Fixed = ''Fixed''"
| "order_debug Permuted = ''Permuted''"
| "order_debug Unknown_Order = ''Unknown''"

definition capture_intro :: "nat \<Rightarrow> capture_args \<Rightarrow> string" where
  "capture_intro port args =
     line (''Point the client at '' @ probe_url port @ '' ('' @ dec_string (pa_samples args) @
       '' sample(s) needed).'') @
     (if pa_samples args = 1 then
        line ''Note: a single sample cannot tell a fixed field order from a'' @
        line ''      permuted one, so equivalence will be recorded as unknown.''
      else [])"

definition capture_outro :: "string \<Rightarrow> profile \<Rightarrow> string" where
  "capture_outro path p =
     line (''wrote '' @ path) @
     line (''  cipher order: '' @ order_debug (eq_cipher_order (pf_equivalence p)) @
       '', extension order: '' @ order_debug (eq_extension_order (pf_equivalence p)))"

definition capture_path :: "capture_args \<Rightarrow> string" where
  "capture_path args = path_join (pa_out args) (pa_label args @ ''.json'')"

text \<open>Exit code, standard output, and the file written if one was.\<close>

definition capture_run :: "'e capture_world \<Rightarrow> capture_args \<Rightarrow> nat \<times> string \<times> (string \<times> string) option" where
  "capture_run w args =
     (if pa_samples args = 0 then (2, [], None)
      else if \<not> pw_runtime w then (2, [], None)
      else case pw_probe w of
        None \<Rightarrow> (2, [], None)
      | Some port \<Rightarrow>
          (case take_samples w (pa_samples args) 1 (pa_samples args) [] of (samples, res) \<Rightarrow>
             let out = capture_intro port args @ samples in
             (case res of
                Inl _ \<Rightarrow> (2, out, None)
              | Inr reports \<Rightarrow>
                  if reports = [] then (2, out, None)
                  else (let p = captured_profile args reports in
                    (case pw_print w p of
                       None \<Rightarrow> (2, out, None)
                     | Some t \<Rightarrow>
                         if pw_write w (capture_path args)
                         then (0, out @ capture_outro (capture_path args) p, Some (capture_path args, t @ newline))
                         else (2, out, None))))))"

section \<open>serve\<close>

record serve_args =
  sa_listen :: string
  sa_upstream :: string
  sa_ip_mode :: string
  sa_cacert_out :: "string option"
  sa_admin_socket :: "string option"

definition parse_ip_mode :: "string \<Rightarrow> ip_mode option" where
  "parse_ip_mode s =
     (if s = ''full'' then Some Full_Ip
      else if s = ''truncated'' then Some Truncated_Ip
      else if s = ''omitted'' then Some Omitted_Ip
      else None)"

text \<open>The configuration the server is bound with, or the exit code; \<open>parse\<close> is the standard
  library's reading of a socket address, \<open>unix\<close> the platform.\<close>

definition serve_config_of ::
    "(string \<Rightarrow> socket_addr option) \<Rightarrow> bool \<Rightarrow> serve_args \<Rightarrow> nat + serve_config" where
  "serve_config_of parse unix args =
     try_res (ok_or 2 (parse (sa_listen args))) (\<lambda>listen.
     try_res (ok_or 2 (parse (sa_upstream args))) (\<lambda>upstream.
     try_res (ok_or 2 (parse_ip_mode (sa_ip_mode args))) (\<lambda>mode.
     let cfg = (serve_config_new listen upstream)\<lparr>sc_ip_mode := mode\<rparr> in
     Inr (case sa_admin_socket args of
            Some path \<Rightarrow> if unix then cfg\<lparr>sc_admin_socket := Some path\<rparr> else cfg
          | None \<Rightarrow> cfg))))"

record 'e serve_world =
  sw_db :: "'e profile_error + profile_db"
  sw_runtime :: bool
  sw_bind :: "serve_config \<Rightarrow> socket_addr option"
  sw_write :: "string \<Rightarrow> bool"

definition socket_string :: "socket_addr \<Rightarrow> string" where
  "socket_string addr =
     (case addr of (ip, port) \<Rightarrow>
        (case ip of V4 a b c d \<Rightarrow> ip_string ip | V6 s \<Rightarrow> ''['' @ ip_string ip @ '']'') @ '':'' @ dec_string port)"

definition serve_banner :: "socket_addr \<Rightarrow> serve_config \<Rightarrow> serve_args \<Rightarrow> string" where
  "serve_banner local cfg args =
     line ''fpd serve'' @
     line (''  listening  https://'' @ socket_string local) @
     line (''  upstream   http://'' @ socket_string (sc_upstream cfg)) @
     line (''  ip mode    '' @ sa_ip_mode args) @
     newline @
     line ''Injected headers: x-fp-ja4, x-fp-ja3, x-fp-h2, x-fp-http-headers,'' @
     line ''                  x-fp-verdict, x-fp-confidence, x-fp-mismatch'' @
     line ''Inbound x-fp-* headers from clients are stripped.''"

text \<open>The exit code, or the configuration, the profiles and the output of a server that runs.\<close>

definition serve_run ::
    "(string \<Rightarrow> socket_addr option) \<Rightarrow> bool \<Rightarrow> 'e serve_world \<Rightarrow> serve_args
      \<Rightarrow> nat + serve_config \<times> profile_db \<times> string" where
  "serve_run parse unix w args =
     try_res (serve_config_of parse unix args) (\<lambda>cfg.
     try_res (map_err (\<lambda>_. 2) (sw_db w)) (\<lambda>db.
     if \<not> sw_runtime w then Inl 2
     else try_res (ok_or 2 (sw_bind w cfg)) (\<lambda>local.
     if (case sa_cacert_out args of None \<Rightarrow> False | Some path \<Rightarrow> \<not> sw_write w path) then Inl 2
     else Inr (cfg, db, serve_banner local cfg args))))"

section \<open>tui\<close>

record tui_args =
  ta_attach :: "string option"
  ta_listen :: "string option"

datatype row_source = Attach_To string | Listen_On socket_addr

text \<open>Where the rows come from and the label shown, or the exit code.\<close>

definition tui_source_of ::
    "(string \<Rightarrow> socket_addr option) \<Rightarrow> (string \<Rightarrow> bool) \<Rightarrow> bool \<Rightarrow> bool \<Rightarrow> tui_args
      \<Rightarrow> nat + row_source \<times> string" where
  "tui_source_of parse exists unix runtime args =
     (if ta_attach args \<noteq> None \<and> ta_listen args \<noteq> None then Inl 2
      else if \<not> runtime then Inl 2
      else case (ta_attach args, ta_listen args) of
        (Some path, None) \<Rightarrow>
          if \<not> unix then Inl 2
          else if exists path then Inr (Attach_To path, path) else Inl 2
      | (None, Some addr) \<Rightarrow>
          (case parse addr of None \<Rightarrow> Inl 2 | Some a \<Rightarrow> Inr (Listen_On a, addr))
      | _ \<Rightarrow> Inl 2)"

section \<open>emulate\<close>

record emulate_args =
  ea_profile :: string
  ea_verify :: bool

text \<open>\<open>compiled\<close> is the \<open>emulation\<close> feature; \<open>outcome\<close> what the verification of a profile gives.\<close>

definition emulate_run ::
    "bool \<Rightarrow> 'e profile_error + profile_db \<Rightarrow> bool \<Rightarrow> (profile \<Rightarrow> emulate_error + diff_result)
      \<Rightarrow> emulate_args \<Rightarrow> nat \<times> string" where
  "emulate_run compiled shipped runtime outcome args =
     (if \<not> compiled then (EXIT_OPERATIONAL, [])
      else case shipped of
        Inl _ \<Rightarrow> (EXIT_OPERATIONAL, [])
      | Inr db \<Rightarrow>
          (case (db_get db (ea_profile args) :: 'e profile_error + profile) of
             Inl _ \<Rightarrow> (EXIT_OPERATIONAL, [])
           | Inr p \<Rightarrow>
               if \<not> ea_verify args then
                 (EXIT_MATCH, line (''Built a client for '' @ pf_label p @ ''.'') @
                    line ''Pass --verify to prove it reproduces the profile.'')
               else if \<not> runtime then (EXIT_OPERATIONAL, [])
               else (case outcome p of
                  Inl _ \<Rightarrow> (EXIT_OPERATIONAL, [])
                | Inr d \<Rightarrow> (if is_clean d then EXIT_MATCH else EXIT_MISMATCH, show_diff d))))"

section \<open>What the exit codes mean\<close>

text \<open>Everything \<open>check\<close> needs before the comparison: the named profile, the profiles and the report.\<close>

definition check_ready ::
    "'e check_world \<Rightarrow> check_args \<Rightarrow> profile option \<Rightarrow> profile_db \<Rightarrow> client_report \<Rightarrow> bool" where
  "check_ready w args named db report \<longleftrightarrow>
     cw_db w = Inr db \<and>
     (case ca_profile args of
        None \<Rightarrow> named = None
      | Some label \<Rightarrow> (\<exists>p. db_get db label = (Inr p :: 'e profile_error + profile) \<and> named = Some p)) \<and>
     cw_runtime w \<and>
     (\<exists>program rest port. ca_command args = program # rest \<and> cw_probe w = Some port \<and>
        cw_spawn w program (substitute rest (probe_url port))) \<and>
     (\<forall>path. ca_cacert_out args = Some path \<longrightarrow> cw_write w path) \<and>
     cw_accept w = Inr report"

lemma check_run_ready:
  assumes "check_ready w args named db report"
  shows "check_run w args =
    (case check_verdict named db report of (txt, clean) \<Rightarrow>
       (if clean then EXIT_MATCH else EXIT_MISMATCH,
        txt @ line ''  (checked TLS, HTTP/2 and HTTP headers)'', Killed))"
  using assms
  by (cases "ca_profile args"; cases "ca_cacert_out args") (auto simp: check_ready_def check_run_def)

lemma check_run_op:
  "fst (check_run w args) \<noteq> EXIT_OPERATIONAL \<Longrightarrow> \<exists>named db report. check_ready w args named db report"
proof -
  assume a: "fst (check_run w args) \<noteq> EXIT_OPERATIONAL"
  from a obtain db where db: "cw_db w = Inr db"
    by (cases "cw_db w") (simp_all add: check_run_def)
  let ?named = "case ca_profile args of
      Some label \<Rightarrow> map_sum id Some (db_get db label :: 'a profile_error + profile) | None \<Rightarrow> Inr None"
  from a db obtain named where n: "?named = Inr named"
    by (cases ?named) (simp_all add: check_run_def)
  from a db n obtain program rest where c: "ca_command args = program # rest"
    by (cases "ca_command args") (simp_all add: check_run_def)
  from a db n c have rt: "cw_runtime w"
    by (cases "cw_runtime w") (simp_all add: check_run_def)
  from a db n c rt obtain port where pr: "cw_probe w = Some port"
    by (cases "cw_probe w") (simp_all add: check_run_def)
  from a db n c rt pr have wr: "\<not> (case ca_cacert_out args of None \<Rightarrow> False | Some path \<Rightarrow> \<not> cw_write w path)"
    "cw_spawn w program (substitute rest (probe_url port))"
    by (auto simp: check_run_def split: if_splits)
  from a db n c rt pr wr obtain report where r: "cw_accept w = Inr report"
    by (cases "cw_accept w") (simp_all add: check_run_def)
  have "case ca_profile args of None \<Rightarrow> named = None
      | Some label \<Rightarrow> (\<exists>p. db_get db label = (Inr p :: 'a profile_error + profile) \<and> named = Some p)"
  proof (cases "ca_profile args")
    case None
    with n show ?thesis by simp
  next
    case (Some label)
    with n show ?thesis
      by (cases "db_get db label :: 'a profile_error + profile") auto
  qed
  with db c rt pr wr r have "check_ready w args named db report"
    by (auto simp: check_ready_def split: option.splits)
  then show ?thesis by blast
qed

lemma check_ready_unique:
  "check_ready w args named db report \<Longrightarrow> check_ready w args named' db' report' \<Longrightarrow>
     named' = named \<and> db' = db \<and> report' = report"
  by (cases "ca_profile args") (auto simp: check_ready_def)

lemma check_ready_ex:
  assumes "check_ready w args named db report"
  shows "(\<exists>named db report. check_ready w args named db report \<and> P named db report) \<longleftrightarrow> P named db report"
    "(\<exists>named db report. check_ready w args named db report) \<longleftrightarrow> True"
  using assms check_ready_unique [OF assms] by metis+


section \<open>What capture writes\<close>

text \<open>The probe's answers to \<open>k\<close> waits from the \<open>n\<close>th on.\<close>

definition answers :: "'e capture_world \<Rightarrow> nat \<Rightarrow> nat \<Rightarrow> ('e probe_error + client_report) list" where
  "answers w n k = map (pw_accept w) [n..<n + k]"

lemma answers_simps [simp]:
  "answers w n 0 = []"
  "answers w n (Suc k) = pw_accept w n # answers w (Suc n) k"
  by (simp_all add: answers_def upt_conv_Cons del: upt_Suc)

lemma answers_empty [simp]: "answers w n k = [] \<longleftrightarrow> k = 0"
  by (cases k) simp_all

lemma take_samples_Inr:
  "snd (take_samples w wanted n k reports) = Inr all \<longleftrightarrow>
     (\<exists>more. all = reports @ more \<and> answers w n k = map Inr more)"
proof (induction k arbitrary: n reports)
  case (Suc k)
  show ?case
  proof (cases "pw_accept w n")
    case (Inr r)
    then have "snd (take_samples w wanted n (Suc k) reports) = snd (take_samples w wanted (n + 1) k (reports @ [r]))"
      by (simp split: prod.split)
    then show ?thesis by (auto simp: Suc.IH Inr Cons_eq_map_conv)
  qed (auto simp: Cons_eq_map_conv)
qed auto

lemma map_Inr_inj [simp]: "map Inr xs = map Inr ys \<longleftrightarrow> xs = ys"
  by (simp add: inj_map_eq_map)

lemma fixed_iff: "infer_order samples = Fixed \<longleftrightarrow> (\<exists>s n. 2 \<le> n \<and> samples = replicate n s)"
proof
  assume f: "infer_order samples = Fixed"
  then obtain s rest where c: "samples = s # rest"
    by (cases samples) (auto simp: infer_order_def)
  with f have "2 \<le> length samples" "\<forall>x \<in> set samples. x = s"
    by (auto simp: infer_order_def list_all_iff Suc_le_eq split: if_splits)
  then show "\<exists>s n. 2 \<le> n \<and> samples = replicate n s"
    by (metis replicate_length_same)
next
  assume "\<exists>s n. 2 \<le> n \<and> samples = replicate n s"
  then obtain s n where "samples = replicate (Suc n) s" "0 < n"
    by (metis Suc_le_D less_eq_Suc_le numeral_2_eq_2 Suc_le_mono)
  then show "infer_order samples = Fixed"
    by (simp add: infer_order_def list_all_iff)
qed

text \<open>
  \<open>capture\<close> writes a profile only from complete evidence: it exits with 0 exactly when every sample
  asked for was taken and the profile of all of them was printed and written; in every other case it exits with 2
  and writes nothing. A field order is called fixed exactly when two or more samples agree on it.
\<close>

theorem capture_writes:
  "(case capture_run w args of (code, out, file) \<Rightarrow>
      (code = 0 \<longleftrightarrow>
        (\<exists>reports t. 0 < pa_samples args \<and> pw_runtime w \<and> pw_probe w \<noteq> None \<and>
           answers w 1 (pa_samples args) = map Inr reports \<and>
           pw_print w (captured_profile args reports) = Some t \<and> pw_write w (capture_path args) \<and>
           file = Some (capture_path args, t @ newline))) \<and>
      (code = 0 \<and> file \<noteq> None \<or> code = 2 \<and> file = None)) \<and>
   (infer_order samples = Fixed \<longleftrightarrow> (\<exists>s n. 2 \<le> n \<and> samples = replicate n s))"
proof
  let ?n = "pa_samples args"
  obtain samples res where s: "take_samples w ?n 1 ?n [] = (samples, res)" by fastforce
  then have r: "res = Inr all \<longleftrightarrow> answers w 1 ?n = map Inr all" for all
    using take_samples_Inr [of w ?n 1 ?n "[]" all] by simp
  show "case capture_run w args of (code, out, file) \<Rightarrow>
      (code = 0 \<longleftrightarrow>
        (\<exists>reports t. 0 < ?n \<and> pw_runtime w \<and> pw_probe w \<noteq> None \<and>
           answers w 1 ?n = map Inr reports \<and>
           pw_print w (captured_profile args reports) = Some t \<and> pw_write w (capture_path args) \<and>
           file = Some (capture_path args, t @ newline))) \<and>
      (code = 0 \<and> file \<noteq> None \<or> code = 2 \<and> file = None)"
  proof (cases "0 < ?n \<and> pw_runtime w \<and> pw_probe w \<noteq> None")
    case False
    then show ?thesis by (auto simp: capture_run_def)
  next
    case True
    show ?thesis
    proof (cases res)
      case (Inl e)
      with r have "answers w 1 ?n \<noteq> map Inr all" for all by (metis sum.distinct(1))
      with True s Inl show ?thesis by (auto simp: capture_run_def Let_def)
    next
      case (Inr reports)
      with r have m: "answers w 1 ?n = map Inr reports" by blast
      then have "reports \<noteq> []" using True answers_empty [of w 1 ?n] by (metis list.map_disc_iff not_gr_zero)
      then show ?thesis using True s Inr m
        by (cases "pw_print w (captured_profile args reports)"; cases "pw_write w (capture_path args)")
          (auto simp: capture_run_def Let_def)
    qed
  qed
qed (rule fixed_iff)

section \<open>Capture, then check\<close>

lemma clean_source [simp]: "is_clean (diff r (p\<lparr>pf_source := s\<rparr>)) \<longleftrightarrow> is_clean (diff r p)"
  by (simp add: is_clean_iff tls_agrees_def h2_agrees_def http_agrees_def)

lemma captured_profile_clean: "is_clean (diff (last reports) (captured_profile cargs reports))"
  unfolding captured_profile_def Let_def clean_source by (rule diff_self_clean)


definition sample_capture :: capture_args where
  "sample_capture = \<lparr>pa_label = ''mine'', pa_samples = 1, pa_out = ''.'', pa_timeout_secs = 30\<rparr>"

definition sample_check :: check_args where
  "sample_check = \<lparr>ca_profile = Some ''mine'', ca_timeout_secs = 10, ca_cacert_out = None,
                   ca_command = [''curl'', ''-k'', ''{url}'']\<rparr>"

definition sample_world :: "string check_world" where
  "sample_world = \<lparr>cw_db = Inr [captured_profile sample_capture [sample_report]], cw_runtime = True,
     cw_probe = Some 4433, cw_write = (\<lambda>_. False), cw_spawn = (\<lambda>_ _. True), cw_accept = Inr sample_report\<rparr>"

lemma captured_label: "pf_label (captured_profile cargs reports) = pa_label cargs"
  by (simp add: captured_profile_def from_report_def Let_def)


section \<open>check over the probe\<close>

text \<open>
  What \<open>check\<close> finds when its probe is \<open>Probe\<close>: the port is the bound one, and the report is that of
  \<open>accept_one\<close> on the connection the client makes.
\<close>

definition probe_check_world ::
    "'e profile_error + profile_db \<Rightarrow> bool \<Rightarrow> (('c, 's, 'e) tls_accept, 'e) probe_parts \<Rightarrow> (string \<Rightarrow> bool)
      \<Rightarrow> (string \<Rightarrow> string list \<Rightarrow> bool) \<Rightarrow> digest \<Rightarrow> digest \<Rightarrow> 's source \<Rightarrow> nat \<Rightarrow> ('e + 'c) timed
      \<Rightarrow> 'e check_world" where
  "probe_check_world shipped runtime parts write spawn sha md poll b accepted =
     \<lparr>cw_db = shipped, cw_runtime = runtime, cw_probe = map_option pb_port (res_ok (probe_bind parts)),
      cw_write = write, cw_spawn = spawn,
      cw_accept = try_res (probe_bind parts) (\<lambda>p. accept_one sha md poll b (pb_acceptor p) accepted)\<rparr>"

text \<open>A TLS library that takes from the connection only by reading it.\<close>

definition only_reads :: "'c source \<Rightarrow> ('c, 's, 'e) tls_accept \<Rightarrow> bool" where
  "only_reads poll accept \<longleftrightarrow> (\<forall>r. \<exists>ns bs. reads (recording_poll poll) ns r = (bs, snd (accept r)))"

text \<open>
  C14. \<open>check\<close> judges the client by what it sent: whenever it gives a verdict at all, a client connected,
  the fingerprint compared is that of an initial part of the client's bytes, and the exit code is 0 exactly
  when that comparison is clean.
\<close>

theorem check_measures_client:
  assumes "async_read poll content" and "probe_bind parts = Inr p" and "only_reads poll (pb_acceptor p)"
    and "w = probe_check_world shipped runtime parts write spawn sha md poll' b accepted"
    and "fst (check_run w args) \<noteq> 2"
  shows "\<exists>tcp sent rest report named db.
    accepted = In_Time (Inr tcp) \<and> content tcp = sent @ rest \<and> length sent \<le> DEFAULT_CAP \<and>
    fingerprint sha md sent = Inr (cr_tls report) \<and> check_ready w args named db report \<and>
    (fst (check_run w args) = 0 \<longleftrightarrow> snd (check_verdict named db report))"
proof -
  obtain named db report where r: "check_ready w args named db report"
    using check_run_op [of w args] assms(5) by (auto simp: EXIT_OPERATIONAL_def)
  then have a: "accept_one sha md poll' b (pb_acceptor p) accepted = Inr report"
    by (simp add: check_ready_def probe_check_world_def assms(2,4))
  obtain tcp where t: "accepted = In_Time (Inr tcp)"
    by (rule accept_one_report [OF a])
  have reads: "\<exists>ns bs. reads (recording_poll poll) ns r = (bs, snd (pb_acceptor p r))" for r
    using assms(3) by (simp add: only_reads_def)
  obtain sent rest where s: "content tcp = sent @ rest" "length sent \<le> DEFAULT_CAP"
      "fingerprint sha md sent = Inr (cr_tls report)"
    using accept_one_client_bytes [OF assms(1) reads a [unfolded t]] by blast
  have e: "fst (check_run w args) = 0 \<longleftrightarrow> snd (check_verdict named db report)"
    using check_run_ready [OF r] by (simp add: EXIT_MATCH_def EXIT_MISMATCH_def split: prod.split)
  show ?thesis
    by (rule exI [of _ tcp], rule exI [of _ sent], rule exI [of _ rest], rule exI [of _ report],
      rule exI [of _ named], rule exI [of _ db]) (intro conjI t s r e)
qed

definition sample_parts :: "((event list, event list, string) tls_accept, string) probe_parts" where
  "sample_parts =
     \<lparr>pp_certificate = Inr ''pem'', pp_key = Inr (), pp_tls = Inr reading_tls, pp_listen = (\<lambda>_. Inr 4433)\<rparr>"

lemma check_measures_client_witness:
  "\<exists>sent rest f. wire_content [Segment (wire_bytes sample_wire)] = sent @ rest \<and>
     fingerprint (\<lambda>b. b) (\<lambda>b. b) sent = Inr f"
proof -
  let ?acc = "In_Time (Inr [Segment (wire_bytes sample_wire)]) :: (string + event list) timed"
  let ?w = "probe_check_world (Inr []) True sample_parts (\<lambda>_. False) (\<lambda>_ _. True) (\<lambda>b. b) (\<lambda>b. b) wire_poll 100 ?acc"
  let ?args = "sample_check\<lparr>ca_profile := None\<rparr>"
  obtain p where p: "probe_bind sample_parts = Inr p" "pb_acceptor p = reading_tls"
    by (simp add: probe_bind_def probe_bind_on_def sample_parts_def)
  obtain rep where "accept_one (\<lambda>b. b) (\<lambda>b. b) wire_poll 100 reading_tls ?acc = Inr rep"
    by (rule sample_report_read)
  then have "check_ready ?w ?args None [] rep"
    by (simp add: check_ready_def probe_check_world_def sample_check_def p)
  from check_run_ready [OF this] have e: "fst (check_run ?w ?args) \<noteq> 2"
    by (simp add: EXIT_MATCH_def EXIT_MISMATCH_def split: prod.split)
  have o: "only_reads wire_poll (pb_acceptor p)"
    unfolding only_reads_def p(2) by (metis prod.collapse reading_tls_def snd_conv)
  from check_measures_client [OF wire_async p(1) o refl e] show ?thesis by auto
qed

end
