(* ===== verification/Terms.thy ===== *)
theory Terms
  imports Ja Json
begin

text \<open>
  The terms gate, \<open>fingerprint-terms\<close>: which invocations it blocks (\<open>gate.rs\<close>), the acceptance
  record and its tag (\<open>record.rs\<close>), where it is kept (\<open>store.rs\<close>) and the history of acceptances
  (\<open>history.rs\<close>). Parameters: the keyed hash \<open>mac\<close>, the hash of the terms text the build computes,
  and the JSON library's reading and writing of a record. The disk is a map from paths to contents with the
  paths that cannot be opened; a write that has opened its file completes.
\<close>

section \<open>The gate's rule\<close>

definition CARVE_OUT_COMMANDS :: "string list" where "CARVE_OUT_COMMANDS = [''terms'']"

definition CARVE_OUT_FLAGS :: "string list" where
  "CARVE_OUT_FLAGS = [''--help'', ''-h'', ''--version'', ''-V'']"

definition applies_to :: "string list \<Rightarrow> bool" where
  "applies_to argv =
     (if list_ex (\<lambda>a. a \<in> set CARVE_OUT_FLAGS) argv then False
      else case argv of
        first # _ \<Rightarrow> first \<notin> set CARVE_OUT_COMMANDS
      | [] \<Rightarrow> True)"

definition gate_message :: string where
  "gate_message =
     ''fpd: you must accept the terms and conditions first.'' @ [char_of (10 :: nat), char_of (10 :: nat)] @
     ''  This tool can both measure and reproduce TLS/HTTP-2 client identities.'' @ [char_of (10 :: nat)] @
     ''  Responsibility for how it is used rests solely with you, not the author.'' @
     [char_of (10 :: nat), char_of (10 :: nat)] @
     ''  Read them:    fpd terms show'' @ [char_of (10 :: nat)] @
     ''  Accept them:  fpd terms accept'' @ [char_of (10 :: nat)]"

definition env_accepted :: "(string \<Rightarrow> string option) \<Rightarrow> bool" where
  "env_accepted env \<longleftrightarrow> env ''FPD_ACCEPT_TERMS'' = Some ''1''"

section \<open>The record\<close>

definition RECORD_KEY :: bytes where "RECORD_KEY = as_bytes ''fpd-acceptance-v1-9a3f2c7e41b8''"

record acceptance =
  ar_terms_version :: string
  ar_fpd_version :: string
  ar_accepted_at :: string
  ar_sig :: string

text \<open>The outside world of the record: the hash of the terms, and HMAC-SHA256 of a key and a text.\<close>

record seal =
  sl_terms_hash :: string
  sl_mac :: "bytes \<Rightarrow> bytes \<Rightarrow> bytes"

definition payload :: "acceptance \<Rightarrow> string" where
  "payload r = ar_terms_version r @ ''|'' @ ar_fpd_version r @ ''|'' @ ar_accepted_at r"

definition compute_sig :: "seal \<Rightarrow> acceptance \<Rightarrow> string" where
  "compute_sig sl r = ''hmac-sha256:'' @ hex_bytes (sl_mac sl RECORD_KEY (as_bytes (payload r)))"

text \<open>\<open>accepted_at\<close> is the time formatted, or the epoch where that fails.\<close>

definition acceptance_new :: "seal \<Rightarrow> string \<Rightarrow> string option \<Rightarrow> acceptance" where
  "acceptance_new sl fpd_version now =
     (let accepted_at = (case now of None \<Rightarrow> ''1970-01-01T00:00:00Z'' | Some t \<Rightarrow> t);
          r = \<lparr>ar_terms_version = sl_terms_hash sl, ar_fpd_version = fpd_version,
               ar_accepted_at = accepted_at, ar_sig = []\<rparr>
      in r\<lparr>ar_sig := compute_sig sl r\<rparr>)"

definition verify_record :: "seal \<Rightarrow> acceptance \<Rightarrow> bool" where
  "verify_record sl r \<longleftrightarrow>
     ar_sig r \<noteq> [] \<and> ar_sig r = compute_sig sl r \<and> ar_terms_version r = sl_terms_hash sl"

section \<open>The store\<close>

record disk =
  dk_files :: "string \<Rightarrow> bytes option"
  dk_fault :: "string \<Rightarrow> bool"

datatype terms_error = NoConfigDir | Terms_Io string | Terms_Serde

text \<open>\<open>FPD_CONFIG_DIR\<close>, or the platform's directory where there is one.\<close>

definition config_dir :: "(string \<Rightarrow> string option) \<Rightarrow> string option \<Rightarrow> terms_error + string" where
  "config_dir env platform =
     (case env ''FPD_CONFIG_DIR'' of Some p \<Rightarrow> Inr p | None \<Rightarrow> ok_or NoConfigDir platform)"

definition record_path :: "string \<Rightarrow> string" where "record_path dir = path_join dir ''terms-accepted''"

definition history_path :: "string \<Rightarrow> string" where "history_path dir = path_join dir ''terms-history.jsonl''"

definition disk_read :: "string \<Rightarrow> disk \<Rightarrow> bytes option" where
  "disk_read p d = (if dk_fault d p then None else dk_files d p)"

definition disk_write :: "string \<Rightarrow> bytes \<Rightarrow> disk \<Rightarrow> terms_error + disk" where
  "disk_write p b d =
     (if dk_fault d p then Inl (Terms_Io p) else Inr (d\<lparr>dk_files := (dk_files d)(p := Some b)\<rparr>))"

definition disk_append :: "string \<Rightarrow> bytes \<Rightarrow> disk \<Rightarrow> terms_error + disk" where
  "disk_append p b d =
     (if dk_fault d p then Inl (Terms_Io p)
      else Inr (d\<lparr>dk_files := (dk_files d)(p := Some ((case dk_files d p of None \<Rightarrow> [] | Some c \<Rightarrow> c) @ b))\<rparr>))"

text \<open>Creating the directory: it does nothing to the files, and may fail.\<close>

definition create_dir_all :: "string \<Rightarrow> disk \<Rightarrow> terms_error + disk" where
  "create_dir_all dir d = (if dk_fault d dir then Inl (Terms_Io dir) else Inr d)"

text \<open>The JSON library on a record: writing may fail, reading refuses what is not a record.\<close>

record acceptance_json =
  rj_print :: "acceptance \<Rightarrow> bytes option"
  rj_parse :: "bytes \<Rightarrow> acceptance option"

definition save :: "acceptance_json \<Rightarrow> string \<Rightarrow> acceptance \<Rightarrow> disk \<Rightarrow> terms_error + disk" where
  "save js dir r d =
     try_res (create_dir_all dir d) (\<lambda>d.
     try_res (ok_or Terms_Serde (rj_print js r)) (\<lambda>b. disk_write (record_path dir) b d))"

definition load :: "acceptance_json \<Rightarrow> seal \<Rightarrow> string \<Rightarrow> disk \<Rightarrow> acceptance option" where
  "load js sl dir d =
     Option.bind (disk_read (record_path dir) d) (\<lambda>b.
     Option.bind (rj_parse js b) (\<lambda>r.
     if verify_record sl r then Some r else None))"

datatype gate_refusal = GateRefusal

definition check_with :: "acceptance_json \<Rightarrow> seal \<Rightarrow> string \<Rightarrow> bool \<Rightarrow> disk \<Rightarrow> gate_refusal + unit" where
  "check_with js sl dir accepted d =
     (if accepted then Inr () else ok_or GateRefusal (map_option (\<lambda>_. ()) (load js sl dir d)))"

definition gate_check :: "acceptance_json \<Rightarrow> seal \<Rightarrow> (string \<Rightarrow> string option) \<Rightarrow> string \<Rightarrow> disk \<Rightarrow> gate_refusal + unit" where
  "gate_check js sl env dir d = check_with js sl dir (env_accepted env) d"

section \<open>The history\<close>

definition history_value :: "acceptance \<Rightarrow> string \<Rightarrow> json" where
  "history_value r source =
     JObj [(''accepted_at'', JStr (ar_accepted_at r)), (''fpd_version'', JStr (ar_fpd_version r)),
           (''sig'', JStr (ar_sig r)), (''source'', JStr source),
           (''terms_version'', JStr (ar_terms_version r))]"

definition history_append ::
    "(json \<Rightarrow> string) \<Rightarrow> string \<Rightarrow> acceptance \<Rightarrow> string \<Rightarrow> disk \<Rightarrow> terms_error + disk" where
  "history_append print dir r source d =
     try_res (create_dir_all dir d) (\<lambda>d.
     disk_append (history_path dir) (as_bytes (print (history_value r source) @ [char_of (10 :: nat)])) d)"

section \<open>Lemmas\<close>

lemma hex_value_pad [simp]: "hex_value (pad_zero w s) = hex_value s"
proof -
  have "foldl (\<lambda>n c. n * 16 + hex_digit c) 0 (replicate k (CHR ''0'')) = 0" for k
    by (induction k) (simp_all add: hex_digit_def is_digit_def)
  then show ?thesis by (simp add: hex_value_def pad_zero_def)
qed

lemma length_hex_octet: "length (pad_zero 2 (hex_string (unat (b :: u8)))) = 2"
  using length_hex_string_256 [of "unat b"] unat_u8_bound [of b] by (simp add: length_pad_zero)

lemma hex_bytes_inj: "hex_bytes xs = hex_bytes ys \<Longrightarrow> xs = ys"
proof (induction xs arbitrary: ys)
  case Nil
  then show ?case using length_hex_bytes [of ys] by (simp add: hex_bytes_def [of "[]"])
next
  case (Cons x xs)
  from Cons.prems length_hex_bytes [of ys] length_hex_bytes [of "x # xs"] obtain y zs where
      y: "ys = y # zs" by (cases ys) simp_all
  from Cons.prems have "pad_zero 2 (hex_string (unat x)) @ hex_bytes xs
      = pad_zero 2 (hex_string (unat y)) @ hex_bytes zs"
    by (simp add: hex_bytes_def y)
  then have e: "pad_zero 2 (hex_string (unat x)) = pad_zero 2 (hex_string (unat y))"
    "hex_bytes xs = hex_bytes zs"
    using length_hex_octet by (auto simp: append_eq_append_conv)
  from e(1) have "unat x = unat y" by (metis hex_value_pad hex_value_hex_string)
  with Cons.IH [OF e(2)] show ?case by (simp add: y word_unat_eq_iff)
qed

lemma payload_update [simp]: "payload (r\<lparr>ar_sig := x\<rparr>) = payload r"
  by (simp add: payload_def)

lemma compute_sig_update [simp]: "compute_sig sl (r\<lparr>ar_sig := x\<rparr>) = compute_sig sl r"
  by (simp only: compute_sig_def payload_update)

lemma compute_sig_nonempty [simp]: "compute_sig sl r \<noteq> []"
  by (simp add: compute_sig_def)

lemma acceptance_new_fields [simp]:
  "ar_terms_version (acceptance_new sl v now) = sl_terms_hash sl"
  "ar_fpd_version (acceptance_new sl v now) = v"
  "ar_accepted_at (acceptance_new sl v (Some t)) = t"
  "ar_sig (acceptance_new sl v now) = compute_sig sl (acceptance_new sl v now)"
proof -
  let ?r = "\<lparr>ar_terms_version = sl_terms_hash sl, ar_fpd_version = v,
    ar_accepted_at = (case now of None \<Rightarrow> ''1970-01-01T00:00:00Z'' | Some t \<Rightarrow> t), ar_sig = []\<rparr>"
  have n: "acceptance_new sl v now = ?r\<lparr>ar_sig := compute_sig sl ?r\<rparr>"
    by (simp only: acceptance_new_def Let_def)
  show "ar_terms_version (acceptance_new sl v now) = sl_terms_hash sl"
    "ar_fpd_version (acceptance_new sl v now) = v"
    by (simp_all add: n)
  show "ar_accepted_at (acceptance_new sl v (Some t)) = t"
    by (simp add: acceptance_new_def Let_def)
  show "ar_sig (acceptance_new sl v now) = compute_sig sl (acceptance_new sl v now)"
    unfolding n compute_sig_update by simp
qed

lemma verify_new [simp]: "verify_record sl (acceptance_new sl v now)"
  by (simp add: verify_record_def)

lemma load_Some:
  "load js sl dir d = Some r \<longleftrightarrow>
     (\<exists>b. disk_read (record_path dir) d = Some b \<and> rj_parse js b = Some r \<and> verify_record sl r)"
  by (auto simp: load_def bind_eq_Some_conv)

lemma save_Inr:
  assumes "save js dir r d = Inr d'"
  obtains b where "rj_print js r = Some b" "\<not> dk_fault d (record_path dir)" "\<not> dk_fault d dir"
    "d' = d\<lparr>dk_files := (dk_files d)(record_path dir := Some b)\<rparr>"
  using assms by (auto simp: save_def create_dir_all_def disk_write_def res_simps split: if_splits)

lemma save_load:
  assumes "save js dir r d = Inr d'" and "\<And>b. rj_print js r = Some b \<Longrightarrow> rj_parse js b = Some r"
    and "verify_record sl r"
  shows "load js sl dir d' = Some r"
proof -
  obtain b where b: "rj_print js r = Some b" "\<not> dk_fault d (record_path dir)"
      "d' = d\<lparr>dk_files := (dk_files d)(record_path dir := Some b)\<rparr>"
    by (rule save_Inr [OF assms(1)])
  have "disk_read (record_path dir) d' = Some b"
    using b(2) by (simp add: b(3) disk_read_def)
  with assms(2) [OF b(1)] assms(3) show ?thesis unfolding load_Some by blast
qed

lemma paths_differ [simp]: "record_path dir \<noteq> history_path dir" "history_path dir \<noteq> record_path dir"
  by (simp_all add: record_path_def history_path_def)

lemma append_load [simp]:
  assumes "history_append print dir r source d = Inr d'"
  shows "load js sl dir d' = load js sl dir d"
  using assms
  by (auto simp: load_def history_append_def create_dir_all_def disk_append_def disk_read_def res_simps
      split: if_splits)

lemma check_with_Inr:
  "check_with js sl dir accepted d = Inr () \<longleftrightarrow> accepted \<or> load js sl dir d \<noteq> None"
  by (auto simp: check_with_def ok_or_def split: option.split)

section \<open>Properties\<close>

text \<open>
  C8. The gate fails closed: without the environment's acceptance it opens exactly when a record can be
  read, is one, carries the tag of its own fields and is bound to this binary's terms. A missing,
  unreadable, malformed or altered file is a refusal.
\<close>

theorem gate_opens_iff:
  "check_with js sl dir accepted d = Inr () \<longleftrightarrow>
     accepted \<or>
     (\<exists>b r. \<not> dk_fault d (record_path dir) \<and> dk_files d (record_path dir) = Some b \<and>
        rj_parse js b = Some r \<and> ar_sig r = compute_sig sl r \<and> ar_terms_version r = sl_terms_hash sl)"
  by (auto simp: check_with_Inr load_Some verify_record_def disk_read_def not_None_eq)

lemma bar_split:
  assumes "a @ c # b = x @ c # y" and "c \<notin> set x" and "c \<notin> set y"
  shows "a = x \<and> b = y"
proof -
  have "count_list (a @ c # b) c = count_list (x @ c # y) c" using assms(1) by simp
  with assms(2,3) have "count_list a c = 0" by simp
  then have "c \<notin> set a" by (simp only: count_list_0_iff not_False_eq_True)
  from sep_inj [OF assms(1) this assms(2)] show ?thesis .
qed

text \<open>
  C38. A record cannot be edited: one that verifies under the tag of a record this program wrote
  is that record, unless its text collides with the original's under the keyed hash.
\<close>

theorem record_tamper_evident:
  assumes "verify_record sl r" and "ar_sig r = ar_sig (acceptance_new sl v (Some t))"
    and "CHR ''|'' \<notin> set v" and "CHR ''|'' \<notin> set t"
  shows "r = acceptance_new sl v (Some t) \<or>
    (payload r \<noteq> payload (acceptance_new sl v (Some t)) \<and>
     sl_mac sl RECORD_KEY (as_bytes (payload r)) =
       sl_mac sl RECORD_KEY (as_bytes (payload (acceptance_new sl v (Some t)))))"
proof -
  let ?n = "acceptance_new sl v (Some t)"
  have s: "compute_sig sl r = compute_sig sl ?n"
    using assms(1,2) by (simp add: verify_record_def)
  then have "hex_bytes (sl_mac sl RECORD_KEY (as_bytes (payload r))) =
      hex_bytes (sl_mac sl RECORD_KEY (as_bytes (payload ?n)))"
    by (simp only: compute_sig_def same_append_eq)
  then have mac: "sl_mac sl RECORD_KEY (as_bytes (payload r)) = sl_mac sl RECORD_KEY (as_bytes (payload ?n))"
    by (rule hex_bytes_inj)
  show ?thesis
  proof (cases "payload r = payload ?n")
    case True
    have h: "ar_terms_version r = sl_terms_hash sl"
      using assms(1) by (simp add: verify_record_def)
    with True have "ar_fpd_version r @ CHR ''|'' # ar_accepted_at r = v @ CHR ''|'' # t"
      by (simp add: payload_def)
    from bar_split [OF this assms(3,4)] h assms(2) have "r = ?n"
      by (intro acceptance.equality) simp_all
    then show ?thesis by simp
  qed (use mac in simp)
qed

definition plain_seal :: seal where
  "plain_seal = \<lparr>sl_terms_hash = ''sha256:00'', sl_mac = (\<lambda>k b. k @ b)\<rparr>"

lemma record_tamper_evident_witness:
  "acceptance_new plain_seal ''0.1.0'' (Some ''2024'') = acceptance_new plain_seal ''0.1.0'' (Some ''2024'') \<and>
   \<not> verify_record plain_seal ((acceptance_new plain_seal ''0.1.0'' (Some ''2024''))\<lparr>ar_accepted_at := ''2025''\<rparr>)"
proof
  let ?n = "acceptance_new plain_seal ''0.1.0'' (Some ''2024'')"
  let ?r = "?n\<lparr>ar_accepted_at := ''2025''\<rparr>"
  show "\<not> verify_record plain_seal ?r"
  proof
    assume v: "verify_record plain_seal ?r"
    have "ar_sig ?r = ar_sig ?n" by simp
    from record_tamper_evident [OF v this]
    have "?r = ?n \<or> RECORD_KEY @ as_bytes (payload ?r) = RECORD_KEY @ as_bytes (payload ?n)"
      by (auto simp: plain_seal_def)
    then have "payload ?r = payload ?n" by (auto simp: as_bytes_inj)
    then show False by (simp add: payload_def)
  qed
qed simp

end
