(* ===== verification/Cli.thy ===== *)
theory Cli
  imports Commands Terms
begin

text \<open>
  The program's entry, \<open>fpd/src/main.rs\<close>, with the command line it accepts (\<open>cli.rs\<close>) and the
  \<open>terms\<close> command (\<open>commands/terms.rs\<close>): the gate before the arguments are parsed, the trace an
  acceptance by the environment leaves, and the dispatch. The argument parser is a parameter; so is what
  each subcommand finds outside the process. The disk holds the program's own two files, not those the user
  names on a command line. The lemmas say what no invocation does before acceptance, and what a sequence of
  invocations leaves in the history.
\<close>

section \<open>The command line\<close>

datatype terms_action = Show bool | Accept

datatype command =
    Terms_Command terms_action
  | Serve_Command serve_args
  | Tui_Command tui_args
  | Check_Command check_args
  | Capture_Command capture_args
  | Emulate_Command emulate_args

text \<open>The environment of one invocation. \<open>parse\<close> ends the process with a code or returns the
  command, where there is one.\<close>

record machine =
  mc_env :: "string \<Rightarrow> string option"
  mc_platform :: "string option"
  mc_version :: string
  mc_now :: "string option"
  mc_seal :: seal
  mc_terms :: string
  mc_json :: acceptance_json
  mc_print :: "json \<Rightarrow> string"
  mc_parse :: "string list \<Rightarrow> nat + command option"

text \<open>What the subcommands find: each one's operations, as its theory has them.\<close>

record 'e worlds =
  wl_check :: "'e check_world"
  wl_capture :: "'e capture_world"
  wl_serve :: "'e serve_world"
  wl_parse_addr :: "string \<Rightarrow> socket_addr option"
  wl_unix :: bool
  wl_exists :: "string \<Rightarrow> bool"
  wl_compiled :: bool
  wl_runtime :: bool
  wl_shipped :: "'e profile_error + profile_db"
  wl_verify :: "profile \<Rightarrow> emulate_error + diff_result"

text \<open>How a run ends: with a code, or as a server or a viewer that goes on.\<close>

datatype ending = Exit nat | Serving serve_config | Viewing row_source string

datatype complaint = Terms_Failed terms_error | Refused gate_refusal | No_Command

record run_result =
  rr_ending :: ending
  rr_started :: "command option"
  rr_output :: string
  rr_complaint :: "complaint option"
  rr_disk :: disk

definition SUCCESS :: ending where "SUCCESS = Exit 0"
definition FAILURE :: ending where "FAILURE = Exit 1"

section \<open>terms show, terms accept\<close>

definition terms_show :: "machine \<Rightarrow> bool \<Rightarrow> string" where
  "terms_show m hash_only =
     (if hash_only then line (sl_terms_hash (mc_seal m))
      else line (mc_terms m) @ line (''terms hash: '' @ sl_terms_hash (mc_seal m)))"

text \<open>The result and the disk, which keeps what was written before a failure.\<close>

definition terms_accept :: "machine \<Rightarrow> disk \<Rightarrow> (terms_error + string) \<times> disk" where
  "terms_accept m d =
     (case config_dir (mc_env m) (mc_platform m) of
        Inl e \<Rightarrow> (Inl e, d)
      | Inr dir \<Rightarrow>
          let r = acceptance_new (mc_seal m) (mc_version m) (mc_now m) in
          (case save (mc_json m) dir r d of
             Inl e \<Rightarrow> (Inl e, d)
           | Inr d1 \<Rightarrow>
               (case history_append (mc_print m) dir r ''interactive'' d1 of
                  Inl e \<Rightarrow> (Inl e, d1)
                | Inr d2 \<Rightarrow>
                    (Inr (line ''Terms accepted.'' @
                          line (''  version:  '' @ ar_terms_version r) @
                          line (''  recorded: '' @ record_path dir)), d2))))"

section \<open>main\<close>

text \<open>The gate: a complaint that ends the run, or the disk to go on with.\<close>

definition gate_phase :: "machine \<Rightarrow> string list \<Rightarrow> disk \<Rightarrow> complaint + disk" where
  "gate_phase m argv d =
     (if \<not> applies_to argv then Inr d
      else case config_dir (mc_env m) (mc_platform m) of
        Inl e \<Rightarrow> Inl (Terms_Failed e)
      | Inr dir \<Rightarrow>
          let accepted = env_accepted (mc_env m) in
          (case check_with (mc_json m) (mc_seal m) dir accepted d of
             Inl refusal \<Rightarrow> Inl (Refused refusal)
           | Inr _ \<Rightarrow>
               if accepted \<and> load (mc_json m) (mc_seal m) dir d = None then
                 (case history_append (mc_print m) dir
                     (acceptance_new (mc_seal m) (mc_version m) (mc_now m)) ''env'' d of
                    Inl _ \<Rightarrow> Inr d
                  | Inr d' \<Rightarrow> Inr d')
               else Inr d))"

definition dispatch :: "machine \<Rightarrow> 'e worlds \<Rightarrow> command option \<Rightarrow> disk \<Rightarrow> run_result" where
  "dispatch m wl cmd d =
     (let done = (\<lambda>ending out. \<lparr>rr_ending = ending, rr_started = cmd, rr_output = out,
                    rr_complaint = None, rr_disk = d\<rparr>)
      in case cmd of
        Some (Terms_Command (Show hash)) \<Rightarrow> done SUCCESS (terms_show m hash)
      | Some (Terms_Command Accept) \<Rightarrow>
          (case terms_accept m d of
             (Inl e, d') \<Rightarrow> (done FAILURE [])\<lparr>rr_complaint := Some (Terms_Failed e), rr_disk := d'\<rparr>
           | (Inr out, d') \<Rightarrow> (done SUCCESS out)\<lparr>rr_disk := d'\<rparr>)
      | Some (Serve_Command args) \<Rightarrow>
          (case serve_run (wl_parse_addr wl) (wl_unix wl) (wl_serve wl) args of
             Inl code \<Rightarrow> done (Exit code) []
           | Inr (cfg, _, out) \<Rightarrow> done (Serving cfg) out)
      | Some (Tui_Command args) \<Rightarrow>
          (case tui_source_of (wl_parse_addr wl) (wl_exists wl) (wl_unix wl) (wl_runtime wl) args of
             Inl code \<Rightarrow> done (Exit code) []
           | Inr (rows, label) \<Rightarrow> done (Viewing rows label) [])
      | Some (Check_Command args) \<Rightarrow>
          (case check_run (wl_check wl) args of (code, out, _) \<Rightarrow> done (Exit code) out)
      | Some (Capture_Command args) \<Rightarrow>
          (case capture_run (wl_capture wl) args of (code, out, _) \<Rightarrow> done (Exit code) out)
      | Some (Emulate_Command args) \<Rightarrow>
          (case emulate_run (wl_compiled wl) (wl_shipped wl) (wl_runtime wl) (wl_verify wl) args of
             (code, out) \<Rightarrow> done (Exit code) out)
      | None \<Rightarrow> (done FAILURE [])\<lparr>rr_complaint := Some No_Command\<rparr>)"

definition fpd_main :: "machine \<Rightarrow> 'e worlds \<Rightarrow> string list \<Rightarrow> disk \<Rightarrow> run_result" where
  "fpd_main m wl argv d =
     (case gate_phase m argv d of
        Inl c \<Rightarrow> \<lparr>rr_ending = FAILURE, rr_started = None, rr_output = [], rr_complaint = Some c, rr_disk = d\<rparr>
      | Inr d' \<Rightarrow>
          (case mc_parse m argv of
             Inl code \<Rightarrow> \<lparr>rr_ending = Exit code, rr_started = None, rr_output = [], rr_complaint = None,
                          rr_disk = d'\<rparr>
           | Inr cmd \<Rightarrow> dispatch m wl cmd d'))"

section \<open>Lemmas\<close>

definition path_base :: "string \<Rightarrow> string" where
  "path_base dir = (if dir = [] then [] else if last dir = CHR ''/'' then dir else dir @ ''/'')"

lemma record_path_base: "record_path dir = path_base dir @ ''terms-accepted''"
  by (simp add: record_path_def path_join_def path_base_def)

lemma history_path_base: "history_path dir = path_base dir @ ''terms-history.jsonl''"
  by (simp add: history_path_def path_join_def path_base_def)

lemma record_not_history [simp]:
  "record_path dir \<noteq> history_path dir'" "history_path dir' \<noteq> record_path dir"
proof -
  have "last (record_path dir) \<noteq> last (history_path dir')"
    by (simp add: record_path_base history_path_base)
  then show "record_path dir \<noteq> history_path dir'" "history_path dir' \<noteq> record_path dir" by auto
qed

text \<open>The files a run can change: one history appended to, one record replaced.\<close>

definition file_of :: "disk \<Rightarrow> string \<Rightarrow> bytes" where
  "file_of d p = (case dk_files d p of None \<Rightarrow> [] | Some b \<Rightarrow> b)"

definition history_line :: "(json \<Rightarrow> string) \<Rightarrow> acceptance \<Rightarrow> string \<Rightarrow> bytes" where
  "history_line print r source = as_bytes (print (history_value r source) @ newline)"

lemma history_line_nonempty [simp]: "history_line print r source \<noteq> []"
  by (simp add: history_line_def newline_def)

lemma history_append_Inr:
  "history_append print dir r source d = Inr d' \<longleftrightarrow>
     \<not> dk_fault d dir \<and> \<not> dk_fault d (history_path dir) \<and>
     d' = d\<lparr>dk_files := (dk_files d)(history_path dir :=
            Some (file_of d (history_path dir) @ history_line print r source))\<rparr>"
  by (auto simp: history_append_def create_dir_all_def disk_append_def res_simps history_line_def
      file_of_def newline_def split: if_splits)

lemma save_Inr_iff:
  "save js dir r d = Inr d' \<longleftrightarrow>
     \<not> dk_fault d dir \<and> \<not> dk_fault d (record_path dir) \<and>
     (\<exists>b. rj_print js r = Some b \<and> d' = d\<lparr>dk_files := (dk_files d)(record_path dir := Some b)\<rparr>)"
  by (auto simp: save_def create_dir_all_def disk_write_def res_simps split: if_splits)

text \<open>One change to the disk.\<close>

inductive disk_step :: "disk \<Rightarrow> disk \<Rightarrow> bool" where
  appended: "history_append print dir r source d = Inr d' \<Longrightarrow> disk_step d d'"
| saved: "save js dir r d = Inr d' \<Longrightarrow> disk_step d d'"

inductive_cases disk_stepE: "disk_step d d'"

lemma gate_phase_steps: "gate_phase m argv d = Inr d' \<Longrightarrow> disk_step\<^sup>*\<^sup>* d d'"
  by (auto simp: gate_phase_def Let_def split: if_splits sum.splits intro: appended)

lemma terms_accept_steps: "disk_step\<^sup>*\<^sup>* d (snd (terms_accept m d))"
  by (auto simp: terms_accept_def Let_def split: sum.splits
      intro: saved appended rtranclp.rtrancl_into_rtrancl)

lemma dispatch_disk:
  "rr_disk (dispatch m wl cmd d) =
     (if cmd = Some (Terms_Command Accept) then snd (terms_accept m d) else d)"
  by (auto simp: dispatch_def Let_def split: option.splits command.splits terms_action.splits
      sum.splits prod.splits)

lemma dispatch_started [simp]: "rr_started (dispatch m wl cmd d) = cmd"
  by (auto simp: dispatch_def Let_def split: option.splits command.splits terms_action.splits
      sum.splits prod.splits)

lemma main_steps: "disk_step\<^sup>*\<^sup>* d (rr_disk (fpd_main m wl argv d))"
  using terms_accept_steps [of _ m]
  by (auto simp: fpd_main_def dispatch_disk split: sum.splits
      intro: gate_phase_steps rtranclp_trans)

lemma gate_phase_free: "\<not> applies_to argv \<Longrightarrow> gate_phase m argv d = Inr d"
  by (simp add: gate_phase_def)

lemma gate_phase_Inr:
  assumes "gate_phase m argv d = Inr d'" and "applies_to argv"
  shows "\<exists>dir. config_dir (mc_env m) (mc_platform m) = Inr dir \<and>
    (env_accepted (mc_env m) \<or> load (mc_json m) (mc_seal m) dir d \<noteq> None)"
proof -
  obtain dir where dir: "config_dir (mc_env m) (mc_platform m) = Inr dir"
    using assms by (auto simp: gate_phase_def split: sum.splits)
  have "check_with (mc_json m) (mc_seal m) dir (env_accepted (mc_env m)) d = Inr ()"
    using assms dir by (auto simp: gate_phase_def Let_def split: sum.splits)
  with dir show ?thesis unfolding check_with_Inr by blast
qed

lemma main_started:
  "rr_started (fpd_main m wl argv d) = Some c \<longleftrightarrow>
     (\<exists>d'. gate_phase m argv d = Inr d') \<and> mc_parse m argv = Inr (Some c)"
  by (auto simp: fpd_main_def split: sum.splits)

section \<open>Properties\<close>

text \<open>
  C3. No command starts before the terms are accepted: when one does, the environment accepted, or a
  record that verifies under this binary's terms can be read, or the arguments name \<open>terms\<close> first or hold one
  of the four help and version flags.
\<close>

theorem starts_only_accepted:
  assumes "rr_started (fpd_main m wl argv d) = Some c"
  shows "env_accepted (mc_env m) \<or>
    (\<exists>dir r. config_dir (mc_env m) (mc_platform m) = Inr dir \<and>
       load (mc_json m) (mc_seal m) dir d = Some r \<and> verify_record (mc_seal m) r) \<or>
    (argv \<noteq> [] \<and> hd argv = ''terms'') \<or> set argv \<inter> set CARVE_OUT_FLAGS \<noteq> {}"
proof (cases "applies_to argv")
  case True
  from assms obtain d' where "gate_phase m argv d = Inr d'" unfolding main_started by blast
  from gate_phase_Inr [OF this True] show ?thesis by (auto simp: load_Some)
next
  case False
  then show ?thesis
    by (auto simp: applies_to_def CARVE_OUT_COMMANDS_def list_ex_iff split: if_splits list.splits)
qed

text \<open>
  The flag exemption is wider than help and version: any command the parser returns starts,
  accepted or not, when one of the four flags stands anywhere among the arguments, and a client's own
  flag after \<open>check\<close> is among them.
\<close>

theorem gate_bypassed:
  assumes "set argv \<inter> set CARVE_OUT_FLAGS \<noteq> {}" and "mc_parse m argv = Inr (Some c)"
  shows "rr_started (fpd_main m wl argv d) = Some c"
proof -
  have "\<not> applies_to argv" using assms(1) by (auto simp: applies_to_def list_ex_iff)
  from gate_phase_free [OF this] assms(2) show ?thesis unfolding main_started by blast
qed

section \<open>What a run leaves on the disk\<close>

lemma disk_step_grows: "disk_step d d' \<Longrightarrow> prefix (file_of d (history_path dir)) (file_of d' (history_path dir))"
  by (cases rule: disk_step.cases) (auto simp: history_append_Inr save_Inr_iff file_of_def)

lemma disk_steps_grow:
  "disk_step\<^sup>*\<^sup>* d d' \<Longrightarrow> prefix (file_of d (history_path dir)) (file_of d' (history_path dir))"
  by (induction rule: rtranclp_induct) (auto intro: disk_step_grows prefix_order.trans)

text \<open>Any number of invocations, each in its own environment; between two of them the files that can be
  opened may change.\<close>

inductive invocations :: "disk \<Rightarrow> disk \<Rightarrow> bool" where
  first: "invocations d d"
| run: "invocations d d' \<Longrightarrow> invocations d (rr_disk (fpd_main m (wl :: string worlds) argv d'))"
| faults: "invocations d d' \<Longrightarrow> invocations d (d'\<lparr>dk_fault := f\<rparr>)"

lemma file_of_fault [simp]: "file_of (d\<lparr>dk_fault := f\<rparr>) p = file_of d p"
  by (simp add: file_of_def)


lemma save_append_faults:
  "save js dir r d = Inr d' \<Longrightarrow> dk_fault d' = dk_fault d"
  by (auto simp: save_Inr_iff)

lemma terms_accept_Inr:
  assumes "terms_accept m d = (Inr out, d')"
  shows "\<exists>dir b. config_dir (mc_env m) (mc_platform m) = Inr dir \<and>
    \<not> dk_fault d (record_path dir) \<and>
    rj_print (mc_json m) (acceptance_new (mc_seal m) (mc_version m) (mc_now m)) = Some b \<and>
    d' = d\<lparr>dk_files := (dk_files d)(record_path dir := Some b,
           history_path dir := Some (file_of d (history_path dir) @
             history_line (mc_print m) (acceptance_new (mc_seal m) (mc_version m) (mc_now m)) ''interactive''))\<rparr>"
  using assms
  by (auto simp: terms_accept_def Let_def save_Inr_iff history_append_Inr file_of_def
      split: sum.splits)

lemma accept_admits:
  assumes "terms_accept m d = (Inr out, d')"
    and "\<And>r b. rj_print (mc_json m) r = Some b \<Longrightarrow> rj_parse (mc_json m) b = Some r"
    and "mc_seal m' = mc_seal m" and "mc_json m' = mc_json m"
    and "config_dir (mc_env m') (mc_platform m') = config_dir (mc_env m) (mc_platform m)"
  shows "gate_phase m' argv d' = Inr d'"
    and "\<exists>dir. config_dir (mc_env m) (mc_platform m) = Inr dir \<and>
      file_of d' (history_path dir) = file_of d (history_path dir) @
        history_line (mc_print m) (acceptance_new (mc_seal m) (mc_version m) (mc_now m)) ''interactive'' \<and>
      (\<forall>p. p \<noteq> record_path dir \<and> p \<noteq> history_path dir \<longrightarrow> dk_files d' p = dk_files d p)"
proof -
  let ?r = "acceptance_new (mc_seal m) (mc_version m) (mc_now m)"
  obtain dir b where x: "config_dir (mc_env m) (mc_platform m) = Inr dir" "\<not> dk_fault d (record_path dir)"
      "rj_print (mc_json m) ?r = Some b"
      "d' = d\<lparr>dk_files := (dk_files d)(record_path dir := Some b,
         history_path dir := Some (file_of d (history_path dir) @ history_line (mc_print m) ?r ''interactive''))\<rparr>"
    using terms_accept_Inr [OF assms(1)] by blast
  have "disk_read (record_path dir) d' = Some b"
    using x(2) by (simp add: x(4) disk_read_def)
  then have "load (mc_json m) (mc_seal m) dir d' = Some ?r"
    using assms(2) [OF x(3)] by (simp add: load_Some)
  then show "gate_phase m' argv d' = Inr d'"
    using x(1) assms(3-5) by (simp add: gate_phase_def Let_def check_with_def)
  show "\<exists>dir. config_dir (mc_env m) (mc_platform m) = Inr dir \<and>
      file_of d' (history_path dir) = file_of d (history_path dir) @
        history_line (mc_print m) ?r ''interactive'' \<and>
      (\<forall>p. p \<noteq> record_path dir \<and> p \<noteq> history_path dir \<longrightarrow> dk_files d' p = dk_files d p)"
    using x(1) by (simp add: x(4) file_of_def)
qed

text \<open>
  C23. Accepting works and leaves its trace: when \<open>terms accept\<close> succeeds it has written the record
  and added one line to the history, nothing else, and from then on the gate lets every invocation of
  this build with this directory pass and changes nothing.
\<close>

theorem accept_then_admitted:
  assumes "terms_accept m d = (Inr out, d')"
    and "\<And>r b. rj_print (mc_json m) r = Some b \<Longrightarrow> rj_parse (mc_json m) b = Some r"
    and "mc_seal m' = mc_seal m" and "mc_json m' = mc_json m"
    and "config_dir (mc_env m') (mc_platform m') = config_dir (mc_env m) (mc_platform m)"
  shows "gate_phase m' argv d' = Inr d' \<and>
    (\<exists>dir. config_dir (mc_env m) (mc_platform m) = Inr dir \<and>
      file_of d' (history_path dir) = file_of d (history_path dir) @
        history_line (mc_print m) (acceptance_new (mc_seal m) (mc_version m) (mc_now m)) ''interactive'' \<and>
      (\<forall>p. p \<noteq> record_path dir \<and> p \<noteq> history_path dir \<longrightarrow> dk_files d' p = dk_files d p))"
  using accept_admits [OF assms] by simp

text \<open>
  Acceptance by the environment is traced once and never stops a run: with no valid record the
  gate adds one line with source \<open>env\<close> to the history when it can be opened, and goes on either way.
\<close>

theorem env_acceptance_traced:
  assumes "applies_to argv" and "env_accepted (mc_env m)"
    and "config_dir (mc_env m) (mc_platform m) = Inr dir"
  shows "gate_phase m argv d = Inr
    (if load (mc_json m) (mc_seal m) dir d = None \<and> \<not> dk_fault d dir \<and> \<not> dk_fault d (history_path dir)
     then d\<lparr>dk_files := (dk_files d)(history_path dir := Some (file_of d (history_path dir) @
            history_line (mc_print m) (acceptance_new (mc_seal m) (mc_version m) (mc_now m)) ''env''))\<rparr>
     else d)"
  using assms
  by (auto simp: gate_phase_def Let_def check_with_def history_append_Inr split: sum.splits)
    (metis history_append_Inr sum.distinct(1))+

section \<open>One machine\<close>

text \<open>A record as its fields, each with its length in unary before it.\<close>

definition put_field :: "string \<Rightarrow> bytes" where
  "put_field s = replicate (length s) 1 @ [0] @ as_bytes s"

definition get_field :: "bytes \<Rightarrow> string \<times> bytes" where
  "get_field bs = (let n = length (takeWhile (\<lambda>b. b = 1) bs); rest = drop (n + 1) bs
                   in (bytes_str (take n rest), drop n rest))"

lemma get_put_field [simp]: "get_field (put_field s @ rest) = (s, rest)"
proof -
  have "takeWhile (\<lambda>b. b = 1) (put_field s @ rest) = replicate (length s) 1"
    by (simp add: put_field_def takeWhile_append)
  then show ?thesis by (simp add: get_field_def Let_def put_field_def)
qed

definition field_json :: acceptance_json where
  "field_json =
     \<lparr>rj_print = (\<lambda>r. Some (put_field (ar_terms_version r) @ put_field (ar_fpd_version r) @
                        put_field (ar_accepted_at r) @ put_field (ar_sig r))),
      rj_parse = (\<lambda>b. case get_field b of (tv, b1) \<Rightarrow> (case get_field b1 of (fv, b2) \<Rightarrow>
                        (case get_field b2 of (ac, b3) \<Rightarrow>
                           Some \<lparr>ar_terms_version = tv, ar_fpd_version = fv, ar_accepted_at = ac,
                                 ar_sig = fst (get_field (b3 @ []))\<rparr>)))\<rparr>"

lemma field_json_roundtrip: "rj_print field_json r = Some b \<Longrightarrow> rj_parse field_json b = Some r"
proof -
  assume "rj_print field_json r = Some b"
  then have b: "b = put_field (ar_terms_version r) @ put_field (ar_fpd_version r) @
      put_field (ar_accepted_at r) @ put_field (ar_sig r) @ []"
    by (simp add: field_json_def)
  show ?thesis unfolding b
    by (simp only: field_json_def acceptance_json.simps get_put_field prod.case append_Nil2 append_assoc,
      simp only: get_put_field [of _ "[]", unfolded append_Nil2] fst_conv, simp)
qed

definition sample_machine :: "(string \<Rightarrow> string option) \<Rightarrow> machine" where
  "sample_machine env =
     \<lparr>mc_env = env, mc_platform = Some ''cfg'', mc_version = ''0.1.0'', mc_now = Some ''2024'',
      mc_seal = plain_seal, mc_terms = ''terms'', mc_json = field_json, mc_print = (\<lambda>_. ''{}''),
      mc_parse = (\<lambda>argv. if argv = [''terms'', ''accept''] then Inr (Some (Terms_Command Accept))
                         else if argv = [] then Inr None
                         else Inr (Some (Check_Command (sample_check\<lparr>ca_command := drop 1 argv\<rparr>))))\<rparr>"

definition no_env :: "string \<Rightarrow> string option" where "no_env = (\<lambda>_. None)"

definition ci_env :: "string \<Rightarrow> string option" where "ci_env = (\<lambda>_. None)(''FPD_ACCEPT_TERMS'' := Some ''1'')"

definition empty_disk :: "(string \<Rightarrow> bool) \<Rightarrow> disk" where
  "empty_disk f = \<lparr>dk_files = (\<lambda>_. None), dk_fault = f\<rparr>"

definition sample_worlds :: "string worlds" where
  "sample_worlds =
     \<lparr>wl_check = sample_world,
      wl_capture = \<lparr>pw_runtime = True, pw_probe = Some 4433, pw_accept = (\<lambda>_. Inr sample_report),
                    pw_print = (\<lambda>_. Some ''{}''), pw_write = (\<lambda>_. True)\<rparr>,
      wl_serve = \<lparr>sw_db = Inr [sample_profile], sw_runtime = True, sw_bind = (\<lambda>cfg. Some (sc_listen cfg)),
                  sw_write = (\<lambda>_. True)\<rparr>,
      wl_parse_addr = (\<lambda>_. None), wl_unix = True, wl_exists = (\<lambda>_. True), wl_compiled = False,
      wl_runtime = True, wl_shipped = Inr [sample_profile], wl_verify = (\<lambda>p. Inr (diff sample_report p))\<rparr>"

lemma sample_dir: "config_dir no_env (Some ''cfg'') = Inr ''cfg''"
  by (simp add: config_dir_def no_env_def ok_or_def)

lemma sample_accepts:
  "\<exists>out d'. terms_accept (sample_machine no_env) (empty_disk (\<lambda>_. False)) = (Inr out, d')"
  by (simp add: terms_accept_def sample_machine_def sample_dir Let_def save_def create_dir_all_def res_simps
      field_json_def disk_write_def empty_disk_def history_append_def disk_append_def)

lemma accept_then_admitted_witness:
  "\<exists>d'. gate_phase (sample_machine no_env) [''serve''] d' = Inr d' \<and>
     file_of d' ''cfg/terms-history.jsonl'' = as_bytes (''{}'' @ newline)"
proof -
  obtain out d' where a: "terms_accept (sample_machine no_env) (empty_disk (\<lambda>_. False)) = (Inr out, d')"
    using sample_accepts by blast
  have r: "rj_print (mc_json (sample_machine no_env)) r = Some b \<Longrightarrow>
      rj_parse (mc_json (sample_machine no_env)) b = Some r" for r b
    by (simp add: sample_machine_def field_json_roundtrip)
  from accept_then_admitted [OF a r refl refl refl, of "[''serve'']"] show ?thesis
    by - (rule exI [of _ d'],
      auto simp: sample_machine_def sample_dir empty_disk_def file_of_def history_line_def
        history_path_def path_join_def)
qed

lemma starts_only_accepted_witness:
  "rr_started (fpd_main (sample_machine ci_env) sample_worlds [''check'', ''curl''] (empty_disk (\<lambda>_. True)))
     \<noteq> None \<and> env_accepted ci_env"
proof
  let ?m = "sample_machine ci_env" and ?argv = "[''check'', ''curl'']" and ?d = "empty_disk (\<lambda>_. True)"
  have "applies_to ?argv" "env_accepted (mc_env ?m)"
    "config_dir (mc_env ?m) (mc_platform ?m) = Inr ''cfg''"
    by code_simp+
  then have "gate_phase ?m ?argv ?d = Inr ?d"
    by (simp add: gate_phase_def Let_def check_with_def history_append_def create_dir_all_def
        empty_disk_def)
  then have "rr_started (fpd_main ?m sample_worlds ?argv ?d) = Some (Check_Command (sample_check\<lparr>ca_command := [''curl'']\<rparr>))"
    unfolding main_started by (simp add: sample_machine_def)
  from starts_only_accepted [OF this] this show
    "rr_started (fpd_main ?m sample_worlds ?argv ?d) \<noteq> None" by simp
  show "env_accepted ci_env" by code_simp
qed

lemma gate_bypassed_witness:
  "rr_started (fpd_main (sample_machine no_env) sample_worlds [''check'', ''curl'', ''-h''] (empty_disk (\<lambda>_. False)))
     = Some (Check_Command (sample_check\<lparr>ca_command := [''curl'', ''-h'']\<rparr>)) \<and>
   load field_json plain_seal ''cfg'' (empty_disk (\<lambda>_. False)) = None"
proof
  show "rr_started (fpd_main (sample_machine no_env) sample_worlds [''check'', ''curl'', ''-h''] (empty_disk (\<lambda>_. False)))
     = Some (Check_Command (sample_check\<lparr>ca_command := [''curl'', ''-h'']\<rparr>))"
    by (rule gate_bypassed) (simp_all add: CARVE_OUT_FLAGS_def sample_machine_def)
  show "load field_json plain_seal ''cfg'' (empty_disk (\<lambda>_. False)) = None"
    by (simp add: load_def disk_read_def empty_disk_def)
qed


lemma env_acceptance_traced_witness:
  "\<exists>d'. gate_phase (sample_machine ci_env) [''check''] (empty_disk (\<lambda>_. False)) = Inr d' \<and>
     file_of d' ''cfg/terms-history.jsonl'' = as_bytes (''{}'' @ newline)"
proof -
  have a: "applies_to [''check'']" "env_accepted (mc_env (sample_machine ci_env))"
    "config_dir (mc_env (sample_machine ci_env)) (mc_platform (sample_machine ci_env)) = Inr ''cfg''"
    by code_simp+
  from env_acceptance_traced [OF a, of "empty_disk (\<lambda>_. False)"] show ?thesis
    by (simp add: load_def disk_read_def empty_disk_def file_of_def history_line_def history_path_def
        path_join_def sample_machine_def)
qed

section \<open>An acceptance without its trace\<close>

text \<open>
  \<open>terms accept\<close> writes the record before the history: when the history cannot be opened it
  reports a failure, and yet the gate is open from then on and the history is as it was.
\<close>

theorem accept_without_trace:
  assumes "config_dir (mc_env m) (mc_platform m) = Inr dir"
    and "rj_print (mc_json m) (acceptance_new (mc_seal m) (mc_version m) (mc_now m)) = Some b"
    and "rj_parse (mc_json m) b = Some (acceptance_new (mc_seal m) (mc_version m) (mc_now m))"
    and "\<not> dk_fault d dir" and "\<not> dk_fault d (record_path dir)" and "dk_fault d (history_path dir)"
    and "\<not> env_accepted (mc_env m)"
  shows "\<exists>e d'. terms_accept m d = (Inl e, d') \<and>
    gate_phase m argv d' = Inr d' \<and> dk_files d' (history_path dir) = dk_files d (history_path dir)"
proof -
  let ?r = "acceptance_new (mc_seal m) (mc_version m) (mc_now m)"
  let ?d = "d\<lparr>dk_files := (dk_files d)(record_path dir := Some b)\<rparr>"
  have a: "terms_accept m d = (Inl (Terms_Io (history_path dir)), ?d)"
    using assms(1,2,4-6)
    by (simp add: terms_accept_def Let_def save_def create_dir_all_def disk_write_def res_simps
        history_append_def disk_append_def)
  have "load (mc_json m) (mc_seal m) dir ?d = Some ?r"
    using assms(3,5) by (simp add: load_Some disk_read_def)
  then have "gate_phase m argv ?d = Inr ?d"
    using assms(1,7) by (simp add: gate_phase_def Let_def check_with_def)
  with a show ?thesis by simp
qed

lemma accept_without_trace_witness:
  "\<exists>e d'. terms_accept (sample_machine no_env) (empty_disk (\<lambda>p. p = history_path ''cfg'')) = (Inl e, d') \<and>
     gate_phase (sample_machine no_env) [''check'', ''curl''] d' = Inr d'"
proof -
  let ?m = "sample_machine no_env" and ?d = "empty_disk (\<lambda>p. p = history_path ''cfg'')"
  obtain b where b: "rj_print (mc_json ?m) (acceptance_new (mc_seal ?m) (mc_version ?m) (mc_now ?m)) = Some b"
    by (simp add: sample_machine_def field_json_def)
  have p: "rj_parse (mc_json ?m) b = Some (acceptance_new (mc_seal ?m) (mc_version ?m) (mc_now ?m))"
    using b by (simp add: sample_machine_def field_json_roundtrip)
  have "\<exists>e d'. terms_accept ?m ?d = (Inl e, d') \<and> gate_phase ?m [''check'', ''curl''] d' = Inr d' \<and>
      dk_files d' (history_path ''cfg'') = dk_files ?d (history_path ''cfg'')"
    by (rule accept_without_trace [OF _ b p])
      (simp_all add: sample_machine_def sample_dir empty_disk_def history_path_def path_join_def
        env_accepted_def no_env_def record_path_def config_dir_def ok_or_def)
  then show ?thesis by blast
qed

end
