(* ===== verification/Spike_Hello.thy ===== *)
theory Spike_Hello
  imports Emulate Probe
begin

text \<open>
  The spikes that read a ClientHello, \<open>spikes/s1-recording-stream\<close> and \<open>spikes/s3-boring-ja4\<close>: the
  tee without a cap, a parser that indexes the raw record, the fixture recorder \<open>dump.rs\<close>, and the
  comparison of what BoringSSL sends with a captured Chrome. They were written before the crates
  and share no code with them. The lemmas say that the two agree: on every hello that the
  program accepts and that has extensions the spike reads the same lists, its comparison is the one \<open>fpd check\<close>
  makes, a fixture it wrote parses as the connection it was cut from, and the client it sets up by hand is
  the one that \<open>build\<close> sets up for the profile.
\<close>

section \<open>The parser\<close>

record spike_hello =
  sh_ciphers :: "u16 list"
  sh_extensions :: "u16 list"

text \<open>The two loops, over an index into the raw bytes.\<close>

function spike_ciphers :: "bytes \<Rightarrow> nat \<Rightarrow> nat \<Rightarrow> u16 list" where
  "spike_ciphers raw p cs_end =
     (if p + 2 \<le> cs_end \<and> p + 2 \<le> length raw
      then be16 (raw ! p) (raw ! (p + 1)) # spike_ciphers raw (p + 2) cs_end
      else [])"
  by pat_completeness auto
termination by (relation "measure (\<lambda>(raw, p, cs_end). cs_end - p)") auto

function spike_extensions :: "bytes \<Rightarrow> nat \<Rightarrow> nat \<Rightarrow> u16 list" where
  "spike_extensions raw p ext_end =
     (if p + 4 \<le> ext_end \<and> p + 4 \<le> length raw
      then be16 (raw ! p) (raw ! (p + 1))
        # spike_extensions raw (p + 4 + unat (be16 (raw ! (p + 2)) (raw ! (p + 3)))) ext_end
      else [])"
  by pat_completeness auto
termination by (relation "measure (\<lambda>(raw, p, ext_end). ext_end - p)") auto

declare spike_ciphers.simps [simp del] spike_extensions.simps [simp del]

definition spike_parse_hello :: "bytes \<Rightarrow> spike_hello option" where
  "spike_parse_hello raw =
     (let p = 5 + 4 + 2 + 32 in
      Option.bind (get_at raw p) (\<lambda>sid.
      let p = p + 1 + unat sid in
      Option.bind (get_at raw p) (\<lambda>c0.
      Option.bind (get_at raw (p + 1)) (\<lambda>c1.
      let p = p + 2;
          cs_end = p + unat (be16 c0 c1);
          ciphers = spike_ciphers raw p cs_end;
          p = cs_end in
      Option.bind (get_at raw p) (\<lambda>comp.
      let p = p + 1 + unat comp in
      Option.bind (get_at raw p) (\<lambda>e0.
      Option.bind (get_at raw (p + 1)) (\<lambda>e1.
      let p = p + 2;
          ext_end = p + unat (be16 e0 e1);
          extensions = spike_extensions raw p ext_end in
      Some \<lparr>sh_ciphers = ciphers, sh_extensions = extensions\<rparr>)))))))"

section \<open>The reports\<close>

text \<open>\<open>{:?}\<close> of a list of integers.\<close>

definition debug_u16s :: "u16 list \<Rightarrow> string" where
  "debug_u16s vs = ''['' @ str_join '', '' (map (\<lambda>v. dec_string (unat v)) vs) @ '']''"

definition spike_report :: "spike_hello \<Rightarrow> string list" where
  "spike_report hello =
     (let grease_ciphers = length (filter is_grease (sh_ciphers hello));
          grease_exts = length (filter is_grease (sh_extensions hello));
          sorted = sort (sh_extensions hello)
      in [''  ciphers ('' @ dec_string (length (sh_ciphers hello)) @ ''): '' @ debug_u16s (sh_ciphers hello),
          ''  extension order ('' @ dec_string (length (sh_extensions hello)) @ ''): ''
            @ debug_u16s (sh_extensions hello),
          ''  extensions sorted: '' @ debug_u16s sorted,
          ''  GREASE: '' @ dec_string grease_ciphers @ '' in ciphers, '' @ dec_string grease_exts
            @ '' in extensions''])"

text \<open>What S1 prints for a connection: \<open>outcome\<close> is the handshake's error, when it failed.\<close>

definition s1_connection :: "string \<Rightarrow> string option \<Rightarrow> bytes \<Rightarrow> string list" where
  "s1_connection peer outcome raw =
     (case outcome of
        None \<Rightarrow>
          (''--- '' @ peer @ '' handshake OK, '' @ dec_string (length raw) @ '' bytes recorded'')
          # (case spike_parse_hello raw of Some h \<Rightarrow> spike_report h | None \<Rightarrow> [''  PARSE FAILED''])
      | Some e \<Rightarrow>
          (''--- '' @ peer @ '' handshake FAILED: '' @ e @ '' ('' @ dec_string (length raw) @ '' bytes)'')
          # (case spike_parse_hello raw of Some h \<Rightarrow> spike_report h | None \<Rightarrow> []))"

section \<open>The fixture recorder\<close>

definition client_hello_record :: "bytes \<Rightarrow> bytes option" where
  "client_hello_record raw =
     Option.bind (get_at raw 0) (\<lambda>kind.
     if kind \<noteq> 0x16 then None else
     Option.bind (get_at raw 3) (\<lambda>l0.
     Option.bind (get_at raw 4) (\<lambda>l1.
     get_range raw 0 (5 + unat (be16 l0 l1)))))"

text \<open>
  The loop of \<open>main\<close> over the connections accepted, each a peer and what was recorded of it, until one is
  written: the lines printed, and the file with whether writing it worked; \<open>None\<close> is a recorder that still waits.
\<close>

fun dump_run :: "(string \<Rightarrow> bytes \<Rightarrow> bool) \<Rightarrow> string \<Rightarrow> string \<Rightarrow> (string \<times> bytes) list
    \<Rightarrow> string list \<times> (bool \<times> string \<times> bytes) option" where
  "dump_run write out_dir label [] = ([], None)"
| "dump_run write out_dir label ((peer, raw) # conns) =
     (case client_hello_record raw of
        Some rec \<Rightarrow>
          let path = out_dir @ ''/'' @ label @ ''.bin'' in
          if write path rec then
            ([''wrote '' @ path @ '' ('' @ dec_string (length rec) @ '' bytes) from '' @ peer], Some (True, path, rec))
          else ([], Some (False, path, rec))
      | None \<Rightarrow>
          let (lines, res) = dump_run write out_dir label conns in
          ((peer @ '': not a handshake record ('' @ dec_string (length raw) @ '' bytes)'') # lines, res))"

section \<open>The tee\<close>

record 's tee =
  te_inner :: 's
  te_seen :: bytes
  te_poisoned :: bool

definition tee_new :: "'s \<Rightarrow> 's tee" where
  "tee_new s = \<lparr>te_inner = s, te_seen = [], te_poisoned = False\<rparr>"

definition tee_poll :: "'s source \<Rightarrow> 's tee source" where
  "tee_poll poll n r =
     (let (res, inner) = poll n (te_inner r); r = r\<lparr>te_inner := inner\<rparr> in
      (res, case res of
              Ready new \<Rightarrow> if new \<noteq> [] \<and> \<not> te_poisoned r then r\<lparr>te_seen := te_seen r @ new\<rparr> else r
            | _ \<Rightarrow> r))"

section \<open>The comparison with Chrome\<close>

definition CHROME_CIPHERS :: "u16 list" where
  "CHROME_CIPHERS =
     [4865, 4866, 4867, 49195, 49199, 49196, 49200, 52393, 52392, 49171, 49172, 156, 157, 47, 53]"

definition CHROME_EXTENSIONS_SORTED :: "u16 list" where
  "CHROME_EXTENSIONS_SORTED = [5, 10, 11, 13, 16, 18, 23, 27, 35, 43, 45, 51, 17613, 65037, 65281]"

definition CHROME_GREASE_CIPHERS :: nat where "CHROME_GREASE_CIPHERS = 1"
definition CHROME_GREASE_EXTENSIONS :: nat where "CHROME_GREASE_EXTENSIONS = 2"

text \<open>The lines for one list, ciphers or extensions, which differ in their wording only.\<close>

definition axis_lines :: "string \<Rightarrow> string \<Rightarrow> u16 list \<Rightarrow> u16 list \<Rightarrow> string list" where
  "axis_lines name how got want =
     (let counts = (dec_string (length got), dec_string (length want)) in
      if got = want then [''  '' @ mark True @ '' '' @ name @ fst counts @ ''/'' @ snd counts @ how]
      else
        let missing = filter (\<lambda>c. c \<notin> set got) want;
            extra = filter (\<lambda>c. c \<notin> set want) got
        in [''  '' @ mark False @ '' '' @ name @ ''got '' @ fst counts @ '' want '' @ snd counts,
            ''      got:  '' @ debug_u16s got, ''      want: '' @ debug_u16s want]
           @ (if missing \<noteq> [] then [''      missing: '' @ debug_u16s missing] else [])
           @ (if extra \<noteq> [] then [''      extra:   '' @ debug_u16s extra] else []))"

definition compare_hello :: "spike_hello \<Rightarrow> bool \<times> string list" where
  "compare_hello observed =
     (let obs_ciphers = filter (\<lambda>c. \<not> is_grease c) (sh_ciphers observed);
          obs_grease_c = length (sh_ciphers observed) - length obs_ciphers;
          obs_exts = filter (\<lambda>e. \<not> is_grease e) (sh_extensions observed);
          obs_grease_e = length (sh_extensions observed) - length obs_exts;
          obs_exts = sort obs_exts;
          cipher_ok = (obs_ciphers = CHROME_CIPHERS);
          ext_ok = (obs_exts = CHROME_EXTENSIONS_SORTED);
          grease_ok = (obs_grease_c = CHROME_GREASE_CIPHERS \<and> obs_grease_e = CHROME_GREASE_EXTENSIONS)
      in (cipher_ok \<and> ext_ok \<and> grease_ok,
          axis_lines ''ciphers        '' '' exact order'' obs_ciphers CHROME_CIPHERS
          @ axis_lines ''extensions     '' '' set matches'' obs_exts CHROME_EXTENSIONS_SORTED
          @ (if grease_ok then
               [''  '' @ mark True @ '' GREASE         '' @ dec_string obs_grease_c @ '' cipher, ''
                  @ dec_string obs_grease_e @ '' extension'']
             else
               [''  '' @ mark False @ '' GREASE         got '' @ dec_string obs_grease_c @ ''c/''
                  @ dec_string obs_grease_e @ ''e, want '' @ dec_string CHROME_GREASE_CIPHERS @ ''c/''
                  @ dec_string CHROME_GREASE_EXTENSIONS @ ''e''])))"

text \<open>The client: the calls \<open>main\<close> makes of BoringSSL, in their order.\<close>

definition S3_CIPHER_LIST :: string where
  "S3_CIPHER_LIST =
     ''ECDHE-ECDSA-AES128-GCM-SHA256:ECDHE-RSA-AES128-GCM-SHA256:'' @
     ''ECDHE-ECDSA-AES256-GCM-SHA384:ECDHE-RSA-AES256-GCM-SHA384:'' @
     ''ECDHE-ECDSA-CHACHA20-POLY1305:ECDHE-RSA-CHACHA20-POLY1305:'' @
     ''ECDHE-RSA-AES128-SHA:ECDHE-RSA-AES256-SHA:AES128-GCM-SHA256:AES256-GCM-SHA384:'' @
     ''AES128-SHA:AES256-SHA''"

definition s3_client :: "ssl_call list" where
  "s3_client =
     [Ssl_Builder, Verify_None, Grease_Enabled True, Min_Version 0x0303, Max_Version 0x0304,
      Cipher_List S3_CIPHER_LIST, Alpn_Protos (2 # as_bytes ''h2'' @ 8 # as_bytes ''http/1.1''),
      Ssl_Configure]"

text \<open>What \<open>main\<close> makes of the hello that its listener sends it, within the timer or not.\<close>

definition em_dash :: string where
  "em_dash = bytes_str [0xE2, 0x80, 0x94]"

definition s3_main :: "spike_hello option timed \<Rightarrow> string + string list" where
  "s3_main received =
     (case received of
        Elapsed \<Rightarrow> Inl ''timed out waiting for captured ClientHello''
      | In_Time None \<Rightarrow> Inl ''capture channel closed''
      | In_Time (Some observed) \<Rightarrow>
          let (ok, lines) = compare_hello observed in
          Inr ([[], ''=== boring output ==='',
                ''  ciphers ('' @ dec_string (length (sh_ciphers observed)) @ ''): '' @ debug_u16s (sh_ciphers observed),
                ''  extensions ('' @ dec_string (length (sh_extensions observed)) @ ''): ''
                  @ debug_u16s (sh_extensions observed),
                [], ''=== vs captured chrome ===''] @ lines @
               [[], ''  S3 VERDICT: '' @
                  (if ok then ''PASS '' @ em_dash @ '' boring reproduces the captured Chrome''
                   else ''PARTIAL '' @ em_dash @ '' see field diffs above; this list is M5''
                     @ [CHR 0x27] @ ''s work queue'')]))"

section \<open>The parser agrees with the program's\<close>

lemma nth_be16_at:
  "length xs = p \<Longrightarrow> q = p + 1 \<Longrightarrow> be16 ((xs @ to_be16 v @ ys) ! p) ((xs @ to_be16 v @ ys) ! q) = v"
  by (auto simp: to_be16_def nth_append)

lemmas nth_be16 = nth_be16_at [OF refl refl]

lemma spike_ciphers_read:
  "spike_ciphers (xs @ concat (map to_be16 vs) @ ys) (length xs) (length xs + 2 * length vs) = vs"
proof (induction vs arbitrary: xs)
  case (Cons v vs)
  have e: "xs @ concat (map to_be16 (v # vs)) @ ys = xs @ to_be16 v @ concat (map to_be16 vs) @ ys" by simp
  from Cons [of "xs @ to_be16 v"]
  have "spike_ciphers (xs @ to_be16 v @ concat (map to_be16 vs) @ ys) (length xs + 2)
      (length xs + 2 * length (v # vs)) = vs" by simp
  then show ?case
    unfolding e spike_ciphers.simps [of _ "length xs"] nth_be16 by simp
qed (simp add: spike_ciphers.simps)

lemma spike_extensions_read:
  "\<forall>e \<in> set es. length (snd e) < 65536 \<Longrightarrow> length junk < 4 \<Longrightarrow>
     spike_extensions (xs @ concat (map ext_bytes es) @ junk @ ys) (length xs)
       (length xs + length (concat (map ext_bytes es)) + length junk) = map fst es"
proof (induction es arbitrary: xs)
  case (Cons x es)
  let ?raw = "xs @ concat (map ext_bytes (x # es)) @ junk @ ys"
  let ?stop = "length xs + length (concat (map ext_bytes (x # es))) + length junk"
  have e: "?raw = xs @ to_be16 (fst x) @ to_be16 (of_nat (length (snd x))) @ snd x
      @ concat (map ext_bytes es) @ junk @ ys"
    by (simp add: ext_bytes_def)
  then have e2: "?raw = (xs @ to_be16 (fst x)) @ to_be16 (of_nat (length (snd x))) @ snd x
      @ concat (map ext_bytes es) @ junk @ ys"
    by simp
  have n: "be16 (?raw ! length xs) (?raw ! (length xs + 1)) = fst x"
    unfolding e by (rule nth_be16)
  have "be16 (?raw ! (length xs + 2)) (?raw ! (length xs + 3)) = of_nat (length (snd x))"
    unfolding e2 by (rule nth_be16_at) simp_all
  then have l: "unat (be16 (?raw ! (length xs + 2)) (?raw ! (length xs + 3))) = length (snd x)"
    using Cons.prems(1) by simp
  have "spike_extensions ?raw (length xs + 4 + length (snd x)) ?stop = map fst es"
    using Cons.IH [of "xs @ ext_bytes x"] Cons.prems by (simp add: ac_simps)
  then show ?case
    unfolding spike_extensions.simps [of _ "length xs"] n l by simp
qed (simp add: spike_extensions.simps)

lemma get_at_middle: "length xs = n \<Longrightarrow> get_at (xs @ y # ys) n = Some y"
  by (auto simp: get_at_def nth_append)

lemma get_be16:
  assumes "length xs = n"
  shows "\<exists>a b. get_at (xs @ to_be16 v @ ys) n = Some a \<and> get_at (xs @ to_be16 v @ ys) (n + 1) = Some b \<and>
    be16 a b = v"
  using assms nth_be16_at [OF assms refl] by (auto simp: get_at_def)

lemma spike_parse_at:
  assumes "get_at raw 43 = Some sid" and "p = 44 + unat sid"
    and "get_at raw p = Some c0" and "get_at raw (p + 1) = Some c1" and "q = p + 2 + unat (be16 c0 c1)"
    and "get_at raw q = Some n" and "s = q + 1 + unat n"
    and "get_at raw s = Some e0" and "get_at raw (s + 1) = Some e1"
  shows "spike_parse_hello raw =
    Some \<lparr>sh_ciphers = spike_ciphers raw (p + 2) q,
          sh_extensions = spike_extensions raw (s + 2) (s + 2 + unat (be16 e0 e1))\<rparr>"
  using assms by (simp add: spike_parse_hello_def ac_simps)

lemma spike_parse_hello_bytes:
  assumes "length hdr = 43" and "length sess < 256" and "2 * length vs < 65536" and "length cm < 256"
    and "\<forall>e \<in> set es. length (snd e) < 65536" and "length junk < 4"
    and "length (concat (map ext_bytes es) @ junk) < 65536"
  shows "spike_parse_hello (hdr @ len8 sess @ len16 (concat (map to_be16 vs)) @ len8 cm @
      len16 (concat (map ext_bytes es) @ junk) @ rest) = Some \<lparr>sh_ciphers = vs, sh_extensions = map fst es\<rparr>"
    (is "spike_parse_hello ?raw = _")
proof -
  let ?cs = "concat (map to_be16 vs)" and ?xb = "concat (map ext_bytes es) @ junk"
  let ?p1 = "44 + length sess"
  let ?p2 = "?p1 + 2 + 2 * length vs"
  let ?p3 = "?p2 + 1 + length cm"
  have sid: "get_at ?raw 43 = Some (of_nat (length sess))"
    using get_at_middle [OF assms(1)] by (simp add: len8_def)
  from get_be16 [of "hdr @ len8 sess" ?p1 "of_nat (length ?cs)" "?cs @ len8 cm @ len16 ?xb @ rest"] assms(1)
  obtain c0 c1 where c: "get_at ?raw ?p1 = Some c0" "get_at ?raw (?p1 + 1) = Some c1"
      "be16 c0 c1 = of_nat (length ?cs)"
    by (auto simp: len16_def)
  have cl: "unat (be16 c0 c1) = 2 * length vs"
    unfolding c(3) using unat_of_nat_len16 [of "length ?cs"] assms(3) by (simp only: length_to_be16s)
  have cs: "spike_ciphers ?raw (?p1 + 2) ?p2 = vs"
    using spike_ciphers_read [of "hdr @ len8 sess @ to_be16 (of_nat (length ?cs))" vs "len8 cm @ len16 ?xb @ rest"]
      assms(1) by (simp add: len16_def)
  have cm: "get_at ?raw ?p2 = Some (of_nat (length cm))"
    using get_at_middle [of "hdr @ len8 sess @ len16 ?cs" ?p2 "of_nat (length cm)" "cm @ len16 ?xb @ rest"] assms(1)
    by (simp add: len8_def length_to_be16s)
  from get_be16 [of "hdr @ len8 sess @ len16 ?cs @ len8 cm" ?p3 "of_nat (length ?xb)" "?xb @ rest"] assms(1)
  obtain e0 e1 where e: "get_at ?raw ?p3 = Some e0" "get_at ?raw (?p3 + 1) = Some e1"
      "be16 e0 e1 = of_nat (length ?xb)"
    by (auto simp: len16_def length_to_be16s)
  have el: "unat (be16 e0 e1) = length ?xb"
    using assms(7) by (simp add: e(3) del: length_append)
  have es: "spike_extensions ?raw (?p3 + 2) (?p3 + 2 + length ?xb) = map fst es"
    using spike_extensions_read [OF assms(5,6), of "hdr @ len8 sess @ len16 ?cs @ len8 cm @ to_be16 (of_nat (length ?xb))" rest]
      assms(1) by (simp add: len16_def length_to_be16s add.assoc)
  have "spike_parse_hello ?raw = Some \<lparr>sh_ciphers = spike_ciphers ?raw (?p1 + 2) ?p2,
      sh_extensions = spike_extensions ?raw (?p3 + 2) (?p3 + 2 + unat (be16 e0 e1))\<rparr>"
    by (rule spike_parse_at [OF sid _ c(1,2) _ cm _ e(1,2)]) (use assms(2,4) cl in simp_all)
  then show ?thesis
    unfolding el cs es .
qed

lemma wire_bytes_parts:
  assumes "wire_wf w" and "w_exts w = Some (es, junk)"
  obtains hdr where "length hdr = 43"
    "wire_bytes w = hdr @ len8 (w_session w) @ len16 (concat (map to_be16 (w_ciphers w))) @
       len8 (w_compression w) @ len16 (concat (map ext_bytes es) @ junk) @
       w_body_tail w @ w_record_tail w @ w_tail w"
proof (rule that)
  let ?hdr = "[0x16] @ to_be16 (w_record_version w) @ to_be16 (of_nat (length (wire_message w))) @
    [0x01] @ tl (to_be32 (of_nat (length (wire_body w)))) @ to_be16 (w_version w) @ w_random w"
  show "length ?hdr = 43"
    using assms(1) by (simp add: wire_wf_def body_wf_def)
  show "wire_bytes w = ?hdr @ len8 (w_session w) @ len16 (concat (map to_be16 (w_ciphers w))) @
       len8 (w_compression w) @ len16 (concat (map ext_bytes es) @ junk) @
       w_body_tail w @ w_record_tail w @ w_tail w"
    unfolding wire_bytes_def len16_def [of "wire_message w"]
    by (simp add: wire_message_def len24_def wire_body_def wire_prefix_def cipher_bytes_def exts_block_def
        assms(2))
qed

lemma exts_at_ids: "map re_id (exts_at p es) = map fst es"
  by (induction p es rule: exts_at.induct) simp_all

lemma spike_parse_hello_agrees:
  assumes "parse_hello raw = Inr h" and "rh_extensions h \<noteq> []"
  shows "spike_parse_hello raw = Some \<lparr>sh_ciphers = rh_ciphers h, sh_extensions = map re_id (rh_extensions h)\<rparr>"
proof -
  from parse_hello_sound [OF assms(1)] obtain w where
      w: "wire_wf w" "raw = wire_bytes w" "h = wire_hello w" by blast
  with assms(2) obtain es junk where e: "w_exts w = Some (es, junk)"
    by (cases "w_exts w") (auto simp: wire_hello_def)
  have b: "length (w_session w) < 256" "2 * length (w_ciphers w) < 65536" "length (w_compression w) < 256"
    "length junk < 4" "length (exts_block (es, junk)) < 65536"
    using w(1) e by (simp_all add: wire_wf_def body_wf_def cipher_bytes_def length_to_be16s)
  from length_exts_block [OF b(5)] have es: "\<forall>x \<in> set es. length (snd x) < 65536" by simp
  from wire_bytes_parts [OF w(1) e] obtain hdr where "length hdr = 43"
    "raw = hdr @ len8 (w_session w) @ len16 (concat (map to_be16 (w_ciphers w))) @
       len8 (w_compression w) @ len16 (concat (map ext_bytes es) @ junk) @
       w_body_tail w @ w_record_tail w @ w_tail w"
    unfolding w(2) by blast
  with spike_parse_hello_bytes [OF _ b(1-3) es b(4)] b(5) show ?thesis
    by (simp add: w(3) wire_hello_def e exts_at_ids exts_block_def)
qed

section \<open>The comparison agrees with the program's\<close>

text \<open>A profile of the Chrome that the spike has in its constants, captured on a new or a resumed session.\<close>

definition chrome_profile :: "profile \<Rightarrow> bool" where
  "chrome_profile p \<longleftrightarrow>
     tp_ciphers (pf_tls p) = CHROME_CIPHERS \<and>
     sort (strip_psk (tp_extensions (pf_tls p))) = CHROME_EXTENSIONS_SORTED \<and>
     length (tp_grease_cipher_positions (pf_tls p)) = CHROME_GREASE_CIPHERS \<and>
     length (tp_grease_ext_positions (pf_tls p)) = CHROME_GREASE_EXTENSIONS \<and>
     pf_equivalence p = \<lparr>eq_cipher_order = Fixed, eq_extension_order = Permuted\<rparr>"

lemma chrome_constants:
  "strip_psk CHROME_EXTENSIONS_SORTED = CHROME_EXTENSIONS_SORTED"
  "sort CHROME_EXTENSIONS_SORTED = CHROME_EXTENSIONS_SORTED"
  "EXT_PRE_SHARED_KEY \<notin> set CHROME_EXTENSIONS_SORTED"
  by code_simp+

lemma compare_hello_ok:
  "fst (compare_hello h) \<longleftrightarrow>
     strip (sh_ciphers h) = CHROME_CIPHERS \<and>
     sort (strip (sh_extensions h)) = CHROME_EXTENSIONS_SORTED \<and>
     length (positions (sh_ciphers h)) = CHROME_GREASE_CIPHERS \<and>
     length (positions (sh_extensions h)) = CHROME_GREASE_EXTENSIONS"
proof -
  have g: "length vs - length (filter (\<lambda>v. \<not> is_grease v) vs) = length (positions vs)" for vs
    using length_strip_positions [of vs] by (simp add: strip_def)
  show ?thesis
    by (simp only: compare_hello_def Let_def fst_conv g strip_def)
qed

lemma sort_psk:
  "sort (strip es) = CHROME_EXTENSIONS_SORTED \<longleftrightarrow>
     sort (strip_psk es) = CHROME_EXTENSIONS_SORTED \<and> EXT_PRE_SHARED_KEY \<notin> set es"
proof -
  have k: "EXT_PRE_SHARED_KEY \<in> set (sort (strip es)) \<longleftrightarrow> EXT_PRE_SHARED_KEY \<in> set es"
    by (simp add: strip_def is_grease_iff all_grease_def EXT_PRE_SHARED_KEY_def)
  have "strip_psk es = strip es" if "EXT_PRE_SHARED_KEY \<notin> set es"
    using that unfolding strip_psk_def filter_id_conv by (auto simp: strip_def)
  with k chrome_constants(3) show ?thesis by metis
qed


text \<open>A hello like Chrome's: GREASE in front of the ciphers and around the extensions.\<close>

definition chrome_wire :: wire where
  "chrome_wire =
     sample_wire\<lparr>w_ciphers := 0x1a1a # CHROME_CIPHERS,
       w_exts := Some ((0x2a2a, []) # map (\<lambda>x. (x, [0, 0])) (rev CHROME_EXTENSIONS_SORTED) @ [(0xfafa, [0])], [])\<rparr>"

definition chrome_report :: client_report where
  "chrome_report =
     \<lparr>cr_tls = projr (fingerprint (\<lambda>b. b) (\<lambda>b. b) (wire_bytes chrome_wire)), cr_raw_hello = [],
      cr_h2 = None, cr_alpn = None, cr_handshake_failed = False\<rparr>"

definition sample_chrome :: profile where
  "sample_chrome =
     \<lparr>pf_label = ''chrome'', pf_family = ''chrome'', pf_captured = [], pf_source = [], pf_session = None,
      pf_equivalence = \<lparr>eq_cipher_order = Fixed, eq_extension_order = Permuted\<rparr>,
      pf_tls = \<lparr>tp_ja4 = [], tp_ciphers = CHROME_CIPHERS, tp_extensions = CHROME_EXTENSIONS_SORTED,
        tp_grease_cipher_positions = [0], tp_grease_ext_positions = [0, 16], tp_sig_algs = [],
        tp_alpn = Some ''h2'', tp_has_sni = False\<rparr>,
      pf_h2 = None, pf_http = None\<rparr>"

lemma sample_chrome_profile: "chrome_profile sample_chrome"
  by code_simp

lemma chrome_report_tls:
  "fingerprint (\<lambda>b. b) (\<lambda>b. b) (wire_bytes chrome_wire) = Inr (cr_tls chrome_report)"
  "tf_ciphers (cr_tls chrome_report) = 0x1a1a # CHROME_CIPHERS"
  "tf_extensions (cr_tls chrome_report) = 0x2a2a # rev CHROME_EXTENSIONS_SORTED @ [0xfafa]"
proof -
  have "wire_wf chrome_wire" "length (wire_bytes chrome_wire) \<le> usize_max"
    by code_simp+
  note h = parse_hello_complete [OF this]
  show "fingerprint (\<lambda>b. b) (\<lambda>b. b) (wire_bytes chrome_wire) = Inr (cr_tls chrome_report)"
    by (simp add: chrome_report_def fingerprint_def h Let_def)
  show "tf_ciphers (cr_tls chrome_report) = 0x1a1a # CHROME_CIPHERS"
    by (simp add: chrome_report_def fingerprint_def h Let_def) (simp add: wire_hello_def chrome_wire_def)
  show "tf_extensions (cr_tls chrome_report) = 0x2a2a # rev CHROME_EXTENSIONS_SORTED @ [0xfafa]"
    by (simp add: chrome_report_def fingerprint_def h Let_def)
      (simp add: wire_hello_def chrome_wire_def exts_at_ids comp_def)
qed


text \<open>The calls made by hand are among those that \<open>build\<close> makes for such a profile.\<close>

lemma s3_client_built:
  assumes "chrome_profile p" and "tp_alpn (pf_tls p) = Some ''h2''"
  shows "\<exists>calls. build (\<lambda>c. None) p = Inr calls \<and> set (butlast s3_client) \<subseteq> set calls"
proof -
  have "cipher_list_for sample_chrome = Inr S3_CIPHER_LIST" by code_simp
  then have c: "cipher_list_for p = Inr S3_CIPHER_LIST"
    using assms(1) by (simp add: cipher_list_for_def names_for_def chrome_profile_def sample_chrome_def)
  have g: "tp_grease_cipher_positions (pf_tls p) \<noteq> []"
    using assms(1) by (auto simp: chrome_profile_def CHROME_GREASE_CIPHERS_def)
  have n: "S3_CIPHER_LIST \<noteq> []" by (simp add: S3_CIPHER_LIST_def)
  have a: "encode_alpn ''h2'' = 2 # as_bytes ''h2'' @ 8 # as_bytes ''http/1.1''" by code_simp
  show ?thesis
    using n g by (simp add: build_def ssl_try_def c assms(2) a Let_def s3_client_def)
qed

section \<open>Fixtures and recordings\<close>

lemma parse_hello_record:
  assumes "length b = unat (be16 l0 l1)" and "length (0x16 # v0 # v1 # l0 # l1 # b @ ts) \<le> usize_max"
  shows "parse_hello (0x16 # v0 # v1 # l0 # l1 # b @ ts) =
    try_res (read_u8 (reader_new b)) (\<lambda>(msg, h).
     if msg \<noteq> 0x01 then Inl NotClientHello else
     try_res (read_u24 h) (\<lambda>(hs_len, h).
     try_res (take_bytes (unat hs_len) h) (\<lambda>(hs_body, h'). parse_client_hello (5 + rd_pos h) (reader_new hs_body))))"
proof -
  define r where "r = reader_new (0x16 # v0 # v1 # l0 # l1 # b @ ts)"
  have wf: "reader_wf r" and u: "unread r = 0x16 # v0 # v1 # l0 # l1 # b @ ts" and p: "rd_pos r = 0"
    using assms(2) by (auto simp: r_def)
  note s1 = read_u8_Cons [OF wf u]
  note s2 = read_u16_Cons [OF s1(3) s1(2)]
  note s3 = read_u16_Cons [OF s2(3) s2(2)]
  note s4 = take_bytes_append [OF s3(3) s3(2), unfolded assms(1)]
  show ?thesis
    unfolding parse_hello_def r_def [symmetric] s1(1)
    by (simp add: s2(1) s3(1) s4(1) p Let_def del: advance_simps(3,4) One_nat_def cong: if_cong)
qed

text \<open>
  A fixture parses as the recording it was cut from: cutting everything after the record away loses
  nothing that a fingerprint is made of.
\<close>

lemma fixture_fingerprint:
  assumes "client_hello_record raw = Some rec" and "length raw \<le> usize_max"
  shows "fingerprint sha md rec = fingerprint sha md raw"
proof -
  from assms(1) obtain l0 l1 where k: "get_at raw 0 = Some 0x16" "get_at raw 3 = Some l0" "get_at raw 4 = Some l1"
      "get_range raw 0 (5 + unat (be16 l0 l1)) = Some rec"
    by (auto simp: client_hello_record_def bind_eq_Some_conv split: if_splits)
  then have "5 \<le> length raw" by (simp add: get_at_Some)
  then obtain a v0 v1 x y body where "raw = a # v0 # v1 # x # y # body"
    by (auto simp: numeral_eq_Suc Suc_le_length_iff)
  with k have raw: "raw = 0x16 # v0 # v1 # l0 # l1 # body"
    by (simp add: get_at_def numeral_eq_Suc)
  let ?n = "unat (be16 l0 l1)"
  have n: "?n \<le> length body" and rec: "rec = 0x16 # v0 # v1 # l0 # l1 # take ?n body @ []"
    using k(4) raw by (auto simp: get_range_Some take_Cons')
  have raw': "raw = 0x16 # v0 # v1 # l0 # l1 # take ?n body @ drop ?n body"
    by (simp add: raw)
  have l: "length (take ?n body) = ?n" using n by simp
  have "length rec \<le> usize_max"
    using assms(2) n unfolding rec raw by simp
  with parse_hello_record [OF l, of v0 v1 "[]"] parse_hello_record [OF l, of v0 v1 "drop ?n body"] assms(2)
  have "parse_hello rec = parse_hello raw"
    unfolding rec [symmetric] raw' [symmetric] by simp
  then show ?thesis by (simp add: fingerprint_def)
qed

text \<open>The spike's tee keeps everything; the program's keeps the first bytes of it, up to its cap.\<close>

lemma tee_same: "r\<lparr>te_inner := t, te_seen := te_seen r\<rparr> = r\<lparr>te_inner := t\<rparr>"
  by (cases r) simp

lemma reads_tee:
  "reads (tee_poll poll) ns r = (bs, r') \<Longrightarrow> \<not> te_poisoned r \<Longrightarrow>
     te_seen r' = te_seen r @ bs \<and> reads poll ns (te_inner r) = (bs, te_inner r') \<and> \<not> te_poisoned r'"
proof (induction ns arbitrary: r bs)
  case (Cons n ns)
  obtain res t where p: "poll n (te_inner r) = (res, t)" by fastforce
  show ?case
  proof (cases res)
    case (Ready new)
    let ?r = "r\<lparr>te_inner := t, te_seen := te_seen r @ new\<rparr>"
    obtain rest u where u: "reads (tee_poll poll) ns ?r = (rest, u)" by fastforce
    have "tee_poll poll n r = (Ready new, ?r)"
      using Cons.prems(2) tee_same [of r t] by (auto simp: tee_poll_def p Ready Let_def)
    with u Cons.prems(1) have b: "bs = new @ rest" "r' = u" by simp_all
    from Cons.IH [OF u [folded b(2)]] Cons.prems(2) show ?thesis by (simp add: b(1) p Ready)
  qed (use Cons.prems Cons.IH [of "r\<lparr>te_inner := t\<rparr>" bs] p in \<open>auto simp: tee_poll_def\<close>)
qed simp

lemma tee_recording:
  assumes "reads (tee_poll poll) ns (tee_new s) = (bs, t)"
    and "reads (recording_poll poll) ns (recording_new s) = (bs', r)"
  shows "bs' = bs \<and> rc_seen r = take DEFAULT_CAP (te_seen t)"
  using reads_tee [OF assms(1)] reads_recording [OF assms(2), of "[]"]
  by (simp add: tee_new_def recording_new_def recording_with_cap_def)

end
