(* ===== verification/Spike_H2.thy ===== *)
theory Spike_H2
  imports Capture Rust_Text
begin

text \<open>
  The spike that reads an HTTP/2 preamble by hand and hands it back, \<open>spikes/s2-h2-replay\<close>, and its
  fixture recorder \<open>dump_h2.rs\<close>: the loop with its report, the loop without, and the replaying stream.
  The loop has no limit on a frame's length. The lemmas say that the program's capture is this loop with that limit
  added: they take the same bytes and leave the same stream unless the program stops at a frame it
  refuses, and the replaying stream is the same.
\<close>

definition spike_frame_name :: "u8 \<Rightarrow> string" where
  "spike_frame_name t =
     (if t = 0x0 then ''DATA'' else if t = 0x1 then ''HEADERS'' else if t = 0x2 then ''PRIORITY''
      else if t = 0x3 then ''RST_STREAM'' else if t = 0x4 then ''SETTINGS'' else if t = 0x5 then ''PUSH_PROMISE''
      else if t = 0x6 then ''PING'' else if t = 0x7 then ''GOAWAY'' else if t = 0x8 then ''WINDOW_UPDATE''
      else if t = 0x9 then ''CONTINUATION'' else ''UNKNOWN'')"

text \<open>What the loop has seen: the settings and the last window update.\<close>

record seen_frames =
  sf_settings :: "(u16 \<times> u32) list"
  sf_window :: "u32 option"

definition see_frame :: "u8 \<Rightarrow> bytes \<Rightarrow> seen_frames \<Rightarrow> seen_frames" where
  "see_frame ftype payload sf =
     (if ftype = 0x4 then
        sf\<lparr>sf_settings := sf_settings sf @
          map (\<lambda>c. (be16 (c ! 0) (c ! 1), be32 (c ! 2) (c ! 3) (c ! 4) (c ! 5))) (chunks_exact 6 payload)\<rparr>
      else if ftype = 0x8 \<and> length payload = 4 then
        sf\<lparr>sf_window := Some (be32 (payload ! 0 AND 0x7f) (payload ! 1) (payload ! 2) (payload ! 3))\<rparr>
      else sf)"

definition frame_line :: "bytes \<Rightarrow> string" where
  "frame_line hdr =
     ''  frame '' @ pad_right 13 (spike_frame_name (hdr ! 3)) @ '' len='' @ pad_right 5 (dec_string (frame_len hdr))
     @ '' flags=0x'' @ pad_zero 2 (hex_string (unat (hdr ! 4))) @ '' stream=''
     @ dec_string (unat (be32 (hdr ! 5 AND 0x7f) (hdr ! 6) (hdr ! 7) (hdr ! 8)))"

definition akamai_line :: "seen_frames \<Rightarrow> string" where
  "akamai_line sf =
     ''  >> akamai-ish: '' @
     str_join '';'' (map (\<lambda>(i, v). dec_string (unat i) @ '':'' @ dec_string (unat v)) (sf_settings sf)) @ ''|'' @
     dec_string (unat (case sf_window sf of None \<Rightarrow> 0 | Some v \<Rightarrow> v)) @ ''|0|<hpack not decoded in spike>''"

text \<open>
  The loop with its report. Bytes of a read that is cut are in neither the capture nor the stream; the timer and
  the ends of the reading are those of \<open>capture_loop\<close>.
\<close>

function spike_loop :: "'s source \<Rightarrow> nat \<Rightarrow> bytes \<Rightarrow> seen_frames \<Rightarrow> 's \<Rightarrow> bytes \<times> 's \<times> read_end \<times> string list" where
  "spike_loop poll b captured sf s =
     (case read_exact poll b 9 s of
        (hdr, s, None) \<Rightarrow> (captured, s, Cut hdr, [])
      | (hdr, s, Some b) \<Rightarrow>
          let captured = captured @ hdr; len = frame_len hdr; ftype = hdr ! 3 in
          (case read_exact poll b len s of
             (payload, s, None) \<Rightarrow> (captured, s, Cut payload, [])
           | (payload, s, Some b) \<Rightarrow>
               let captured = captured @ payload in
               if ftype = 0x1 then (captured, s, Finished, [frame_line hdr, akamai_line sf])
               else
                 let (captured, s, e, lines) = spike_loop poll b captured (see_frame ftype payload sf) s in
                 (captured, s, e, frame_line hdr # lines)))"
  by pat_completeness auto
termination
  by (relation "measure (\<lambda>(poll, b, captured, sf, s). b)")
    (auto intro: read_exact_two [OF sym sym])

declare spike_loop.simps [simp del]

definition spike_capture :: "'s source \<Rightarrow> nat \<Rightarrow> 's \<Rightarrow> bytes \<times> 's \<times> read_end \<times> string list" where
  "spike_capture poll b s =
     (case read_exact poll b 24 s of
        (preface, s, None) \<Rightarrow> ([], s, Cut preface, [])
      | (preface, s, Some b) \<Rightarrow>
          let (captured, s, e, lines) = spike_loop poll b preface \<lparr>sf_settings = [], sf_window = None\<rparr> s in
          (captured, s, e,
           (''  preface: '' @ (if preface = PREFACE then ''OK'' else ''MISMATCH'')) # lines))"

text \<open>The recorder's loop prints nothing.\<close>

function fixture_loop :: "'s source \<Rightarrow> nat \<Rightarrow> bytes \<Rightarrow> 's \<Rightarrow> bytes \<times> 's \<times> read_end" where
  "fixture_loop poll b captured s =
     (case read_exact poll b 9 s of
        (hdr, s, None) \<Rightarrow> (captured, s, Cut hdr)
      | (hdr, s, Some b) \<Rightarrow>
          let captured = captured @ hdr; len = frame_len hdr; ftype = hdr ! 3 in
          (case read_exact poll b len s of
             (payload, s, None) \<Rightarrow> (captured, s, Cut payload)
           | (payload, s, Some b) \<Rightarrow>
               let captured = captured @ payload in
               if ftype = 0x1 then (captured, s, Finished)
               else fixture_loop poll b captured s))"
  by pat_completeness auto
termination
  by (relation "measure (\<lambda>(poll, b, captured, s). b)")
    (auto intro: read_exact_two [OF sym sym])

declare fixture_loop.simps [simp del]

definition fixture_capture :: "'s source \<Rightarrow> nat \<Rightarrow> 's \<Rightarrow> bytes \<times> 's \<times> read_end" where
  "fixture_capture poll b s =
     (case read_exact poll b 24 s of
        (preface, s, None) \<Rightarrow> ([], s, Cut preface)
      | (preface, s, Some b) \<Rightarrow> fixture_loop poll b preface s)"

text \<open>The stream that hands the bytes back.\<close>

definition spike_replaying_poll :: "'s source \<Rightarrow> 's replaying source" where
  "spike_replaying_poll poll n r =
     (if rp_pos r < length (rp_buf r) then
        let m = min n (length (rp_buf r) - rp_pos r); start = rp_pos r in
        (Ready (take m (drop start (rp_buf r))), r\<lparr>rp_pos := rp_pos r + m\<rparr>)
      else let (res, inner) = poll n (rp_inner r) in (res, r\<lparr>rp_inner := inner\<rparr>))"

section \<open>The program's capture is the spike's\<close>

lemma spike_replaying_same: "spike_replaying_poll poll = replaying_poll poll"
  by (intro ext) (simp add: spike_replaying_poll_def replaying_poll_def get_range_def Let_def)

text \<open>The report changes nothing.\<close>

lemma spike_loop_fixture:
  "spike_loop poll b cap sf s = (c, t, e, lines) \<Longrightarrow> fixture_loop poll b cap s = (c, t, e)"
proof (induction b arbitrary: cap sf s lines rule: less_induct)
  case (less b)
  then show ?case
    unfolding fixture_loop.simps [of poll b] spike_loop.simps [of poll b]
    by (auto simp: Let_def dest: read_exact_two split: prod.splits option.splits if_splits)
qed

lemma capture_loop_fixture:
  "capture_loop poll b cap s = (c, t, e) \<Longrightarrow> e \<noteq> Oversized \<Longrightarrow> fixture_loop poll b cap s = (c, t, e)"
proof (induction b arbitrary: cap s rule: less_induct)
  case (less b)
  from less.prems(1) show ?case
  proof (cases rule: capture_loop_cases)
    case (again hdr u b1 pl v b2)
    with less.IH [OF again(6,5) less.prems(2)] show ?thesis
      by (simp add: fixture_loop.simps [of poll b] Let_def)
  qed (use less.prems(2) in \<open>auto simp: fixture_loop.simps [of poll b] Let_def\<close>)
qed

text \<open>
  The capture takes over what the spike found out: unless it refuses a frame for its length, the program takes the
  bytes that the spike and the fixture recorder take, and leaves the stream as they do. So a fixture
  recorded with \<open>dump_h2\<close> is what the program captures of the same client.
\<close>

lemma capture_is_spike:
  assumes "capture_h2_preamble poll b s = (c, t, e)" and "e \<noteq> Oversized"
  shows "fixture_capture poll b s = (c, t, e) \<and> (\<exists>lines. spike_capture poll b s = (c, t, e, lines))"
proof -
  obtain pre u o1 where r: "read_exact poll b 24 s = (pre, u, o1)" by (metis prod_cases3)
  show ?thesis
  proof (cases o1)
    case None
    with assms r show ?thesis by (simp add: capture_h2_preamble_def fixture_capture_def spike_capture_def)
  next
    case (Some b1)
    with assms r have f: "fixture_loop poll b1 pre u = (c, t, e)"
      by (intro capture_loop_fixture) (simp_all add: capture_h2_preamble_def)
    obtain c' t' e' lines where l: "spike_loop poll b1 pre \<lparr>sf_settings = [], sf_window = None\<rparr> u = (c', t', e', lines)"
      by (metis prod_cases4)
    from spike_loop_fixture [OF l] f l r Some show ?thesis
      by (simp add: fixture_capture_def spike_capture_def Let_def)
  qed
qed

end
