(* ===== verification/Shipped.thy ===== *)
theory Shipped
  imports Spike_Hello
begin

text \<open>
  The profiles compiled into the binary, \<open>fingerprint-probe/profiles\<close>, as \<open>ProfileDb::shipped\<close> reads them,
  and what the program does with this database: which clients it names, and what it can emulate.
\<close>

section \<open>The database\<close>

definition curl_macos :: profile where
  "curl_macos =
     \<lparr>pf_label = ''curl-8.7.1-macos'', pf_family = ''curl'', pf_captured = ''2026-08-11'',
      pf_source = ''m0-spike-fixtures'', pf_session = None,
      pf_equivalence = \<lparr>eq_cipher_order = Fixed, eq_extension_order = Fixed\<rparr>,
      pf_tls =
        \<lparr>tp_ja4 = ''t13i4906h2_0d8feac7bc37_7395dae3b2f3'',
         tp_ciphers =
           [4867, 4866, 4865, 52393, 52392, 52394, 49200, 49196, 49192, 49188, 49172, 49162, 159, 107, 57,
            65413, 196, 136, 129, 157, 61, 53, 192, 132, 49199, 49195, 49191, 49187, 49171, 49161, 158, 103,
            51, 190, 69, 156, 60, 47, 186, 65, 49169, 49159, 5, 4, 49170, 49160, 22, 10, 255],
         tp_extensions = [43, 51, 11, 10, 13, 16],
         tp_grease_cipher_positions = [], tp_grease_ext_positions = [], tp_sig_algs = [],
         tp_alpn = Some ''h2'', tp_has_sni = False\<rparr>,
      pf_h2 = Some
        \<lparr>h2p_akamai = ''3:100;4:10485760;2:0|1048510465|0|m,s,a,p'',
         h2p_settings = [(3, 100), (4, 10485760), (2, 0)], h2p_window_update = Some 1048510465,
         h2p_pseudo_order = ''m,s,a,p''\<rparr>,
      pf_http = Some
        \<lparr>hs_header_names = [''user-agent'', ''accept''], hs_header_count = 2,
         hs_has_accept_language = False\<rparr>\<rparr>"

definition chrome_macos :: profile where
  "chrome_macos =
     \<lparr>pf_label = ''chrome-macos'', pf_family = ''chrome'', pf_captured = ''2026-08-11'',
      pf_source = ''m0-spike-fixtures'', pf_session = Some ''resumed'',
      pf_equivalence = \<lparr>eq_cipher_order = Fixed, eq_extension_order = Permuted\<rparr>,
      pf_tls =
        \<lparr>tp_ja4 = ''t13i1516h2_8daaf6152771_a87ad97598a9'',
         tp_ciphers =
           [4865, 4866, 4867, 49195, 49199, 49196, 49200, 52393, 52392, 49171, 49172, 156, 157, 47, 53],
         tp_extensions = [23, 27, 45, 13, 16, 18, 11, 65281, 35, 51, 10, 5, 43, 65037, 17613, 41],
         tp_grease_cipher_positions = [0], tp_grease_ext_positions = [0, 16], tp_sig_algs = [],
         tp_alpn = Some ''h2'', tp_has_sni = False\<rparr>,
      pf_h2 = Some
        \<lparr>h2p_akamai = ''1:65536;2:0;4:6291456;6:262144|15663105|0|m,a,s,p'',
         h2p_settings = [(1, 65536), (2, 0), (4, 6291456), (6, 262144)], h2p_window_update = Some 15663105,
         h2p_pseudo_order = ''m,a,s,p''\<rparr>,
      pf_http = Some
        \<lparr>hs_header_names =
           [''cache-control'', ''sec-ch-ua'', ''sec-ch-ua-mobile'', ''sec-ch-ua-platform'',
            ''upgrade-insecure-requests'', ''user-agent'', ''accept'', ''sec-fetch-site'', ''sec-fetch-mode'',
            ''sec-fetch-user'', ''sec-fetch-dest'', ''accept-encoding'', ''accept-language'', ''priority''],
         hs_header_count = 14, hs_has_accept_language = True\<rparr>\<rparr>"

text \<open>\<open>shipped\<close> reads them in this order.\<close>

definition shipped_db :: profile_db where
  "shipped_db = [curl_macos, chrome_macos]"

section \<open>Whom the database names\<close>

text \<open>The two profiles differ in every part of the TLS layer that an identification asks for.\<close>

lemma shipped_parts:
  "length (tp_grease_cipher_positions (pf_tls curl_macos)) = 0"
  "length (tp_grease_cipher_positions (pf_tls chrome_macos)) = 1"
  "pf_family curl_macos = ''curl''" "pf_family chrome_macos = ''chrome''"
  "pf_label curl_macos = ''curl-8.7.1-macos''" "pf_label chrome_macos = ''chrome-macos''"
  by (simp_all only: curl_macos_def chrome_macos_def profile.select_convs tls_profile.select_convs) simp_all

lemma shipped_tls_apart:
  "\<not> (tls_agrees r curl_macos \<and> tls_agrees r chrome_macos)"
  unfolding tls_agrees_def shipped_parts by auto

lemma shipped_distinct: "curl_macos \<noteq> chrome_macos"
  using shipped_parts by (metis n_not_Suc_n One_nat_def)

definition floor_met :: "client_report \<Rightarrow> profile \<Rightarrow> bool" where
  "floor_met r p \<longleftrightarrow> 3 * length (df_fields (diff r p)) \<le> 5 * ok_count (diff r p)"

lemma rank_two:
  "rank [a, b] = (if cd_score b \<le> cd_score a then [a, b] else [b, a])"
  by (simp add: rank_def)

lemma candidate_simps:
  "cd_label (candidate_of r p) = pf_label p" "cd_score (candidate_of r p) = score (diff r p)"
  "cd_diff (candidate_of r p) = diff r p"
  by (simp_all add: candidate_of_def Let_def)

lemma candidate_named:
  "MATCH_FLOOR \<le> score (diff r p) \<and> tls_layer_agrees (diff r p) \<longleftrightarrow> tls_agrees r p \<and> floor_met r p"
  unfolding MATCH_FLOOR_def score_floor_iff tls_layer_agrees_diff floor_met_def by blast

lemma best_two:
  "id_best (identify r [p, q]) =
     (let w = (if score (diff r q) \<le> score (diff r p) then p else q) in
      if tls_agrees r w \<and> floor_met r w then Some (candidate_of r w) else None)"
  by (cases "score (diff r q) \<le> score (diff r p)")
    (simp_all only: identify_def Let_def identification.select_convs list.map rank_two candidate_simps
      list.case candidate_named if_True if_False)

lemma find_shipped:
  "List.find (\<lambda>p. pf_label p = pf_label curl_macos) shipped_db = Some curl_macos"
  "List.find (\<lambda>p. pf_label p = pf_label chrome_macos) shipped_db = Some chrome_macos"
  by (simp_all add: shipped_db_def shipped_parts)

lemma shipped_get:
  "p \<in> {curl_macos, chrome_macos} \<Longrightarrow> db_get shipped_db (pf_label p) = Inr p"
  unfolding db_get_def using find_shipped by auto

lemma shipped_families:
  "family_from_name (pf_family curl_macos) = Curl" "family_from_name (pf_family chrome_macos) = Chrome"
  by (simp_all add: family_from_name_def shipped_parts)

text \<open>What a request claims to be: the family of its \<open>user-agent\<close>, if there is one.\<close>

definition claim_of :: "client_report \<Rightarrow> family" where
  "claim_of r =
     (case Option.bind (cr_h2 r) (\<lambda>h2. user_agent_of (hf_headers h2)) of
        None \<Rightarrow> Unknown_Family | Some ua \<Rightarrow> claimed_family ua)"

lemma shipped_mismatch:
  assumes "p \<in> {curl_macos, chrome_macos}"
  shows "detect_mismatch r (Some (candidate_of r p)) shipped_db =
    (if claim_of r = Unknown_Family \<or> claim_of r = family_from_name (pf_family p) then None
     else Some \<lparr>cm_claimed = claim_of r, cm_observed = family_from_name (pf_family p)\<rparr>)"
proof -
  have "family_from_name (pf_family p) \<noteq> Unknown_Family"
    using assms shipped_families by auto
  then show ?thesis
    by (auto simp: detect_mismatch_def claim_of_def candidate_of_def Let_def shipped_get [OF assms]
        split: option.split Option.bind_split)
qed

text \<open>
  C37. What the database compiled into the program says of any client at all. The profile with the higher
  score, curl's on a tie, is the one that can be named, and it is when the client's TLS layer agrees with it and at least
  sixty percent of its fields do; no client's TLS layer agrees with both. A mismatch is reported for exactly the named
  clients whose request claims a known family which is not the named one.
\<close>

theorem shipped_verdict:
  "(let p = (if score (diff r chrome_macos) \<le> score (diff r curl_macos) then curl_macos else chrome_macos);
        named = (tls_agrees r p \<and> 3 * length (df_fields (diff r p)) \<le> 5 * ok_count (diff r p));
        seen = (if p = curl_macos then Curl else Chrome);
        idn = identify r shipped_db
    in id_best idn = (if named then Some (candidate_of r p) else None) \<and>
       id_mismatch idn =
         (if named \<and> claim_of r \<notin> {Unknown_Family, seen}
          then Some \<lparr>cm_claimed = claim_of r, cm_observed = seen\<rparr> else None)) \<and>
   \<not> (tls_agrees r curl_macos \<and> tls_agrees r chrome_macos)"
proof -
  note ne = shipped_distinct [symmetric]
  have none: "detect_mismatch r None db = None" for db
    by (auto simp: detect_mismatch_def Let_def split: Option.bind_split)
  show ?thesis
    using shipped_tls_apart [of r] best_two [of r curl_macos chrome_macos] ne
    by (simp add: Let_def identify_mismatch_eq floor_met_def none shipped_mismatch shipped_families
        flip: shipped_db_def)
qed

text \<open>
  Speaking TLS as Chrome is not enough: a client that does, and whose requests are curl's, is not named.
\<close>

lemma ok_count_parts:
  "ok_count (diff r p) =
     length (filter fd_ok [diff_ciphers r p, diff_extensions r p, diff_grease r p]) +
     length (filter fd_ok [diff_alpn r p, diff_sni r p]) + length (filter fd_ok (diff_h2 r p @ diff_http r p))"
  by (simp add: ok_count_def diff_def)

lemma forged_tls_unnamed:
  assumes "tls_agrees r chrome_macos" and "h2_agrees r curl_macos" and "http_agrees r curl_macos"
    and "cr_h2 r \<noteq> None"
  shows "id_best (identify r shipped_db) = None"
proof -
  from assms(4) obtain h where h: "cr_h2 r = Some h" by blast
  have s: "[diff_alpn r curl_macos, diff_sni r curl_macos] = [diff_alpn r chrome_macos, diff_sni r chrome_macos]"
    by (simp add: diff_alpn_def diff_sni_def curl_macos_def chrome_macos_def)
  have "list_all fd_ok (diff_h2 r curl_macos @ diff_http r curl_macos)"
    using assms(2,3) by (simp add: diff_h2_ok diff_http_ok)
  then have "filter fd_ok (diff_h2 r curl_macos @ diff_http r curl_macos) = diff_h2 r curl_macos @ diff_http r curl_macos"
    by (simp add: filter_id_conv list_all_iff)
  moreover have "length (diff_h2 r curl_macos @ diff_http r curl_macos) = 5"
    by (simp add: diff_h2_def diff_http_def h curl_macos_def Let_def)
  ultimately have curl: "length (filter fd_ok (diff_h2 r curl_macos @ diff_http r curl_macos)) = 5" by simp
  have "filter fd_ok (diff_h2 r chrome_macos @ diff_http r chrome_macos) = []"
    using assms(2,3)
    by (simp add: diff_h2_def diff_http_def h2_agrees_def http_agrees_def h curl_macos_def chrome_macos_def Let_def)
  then have chrome: "length (filter fd_ok (diff_h2 r chrome_macos @ diff_http r chrome_macos)) = 0" by simp
  have n: "length (df_fields (diff r curl_macos)) = 10" "length (df_fields (diff r chrome_macos)) = 10"
    by (simp_all add: diff_def diff_h2_def diff_http_def h curl_macos_def chrome_macos_def Let_def)
  have "length (filter fd_ok [diff_ciphers r chrome_macos, diff_extensions r chrome_macos, diff_grease r chrome_macos]) \<le> 3"
    using length_filter_le [of fd_ok "[diff_ciphers r chrome_macos, diff_extensions r chrome_macos, diff_grease r chrome_macos]"]
    by simp
  then have "ok_count (diff r chrome_macos) \<le> ok_count (diff r curl_macos)"
    unfolding ok_count_parts curl chrome s by linarith
  then have "score (diff r chrome_macos) \<le> score (diff r curl_macos)"
    unfolding score_le_iff n by simp
  with assms(1) shipped_tls_apart show ?thesis
    unfolding shipped_db_def best_two by auto
qed

end
