(* ===== verification/Shipped_Emulation.thy ===== *)
theory Shipped_Emulation
  imports Shipped Commands
begin

text \<open>
  What \<open>fpd emulate\<close> does with the two shipped profiles, from \<open>commands/emulate.rs\<close> down to the octets of the
  preamble and back through the fingerprint of the probe.
\<close>

section \<open>Short header blocks\<close>

text \<open>The encoder adds at most ten octets of length to a string, and one index to a header.\<close>

lemma encode_integer_short:
  assumes "n \<in> {6, 7}" and "take_bit n p = 0" and "v \<le> 65536"
  shows "length (encode_integer v n p) \<le> 10"
proof -
  have "int_decode (encode_integer v n p @ []) n = Inr (v, length (encode_integer v n p))"
    by (rule int_decode_encode) (use assms in auto)
  from int_decode_sound [OF this] show ?thesis by simp
qed

lemma octet_marks: "take_bit 7 (0x80 :: u8) = 0" "take_bit 7 (0 :: u8) = 0" "take_bit 6 (0x40 :: u8) = 0"
  by simp_all

lemma encode_string_short:
  assumes "length s \<le> 65536"
  shows "length (encode_string s) \<le> 10 + length s"
proof -
  let ?raw = "as_bytes s" and ?huff = "encode_huffman (as_bytes s)"
  have "length (encode_integer (length ?raw) 7 0) \<le> 10"
    by (rule encode_integer_short) (use assms in simp_all)
  moreover have "length (encode_integer (length ?huff) 7 0x80) \<le> 10" if "length ?huff < length ?raw"
    by (rule encode_integer_short) (use assms that in simp_all)
  ultimately show ?thesis
    by (auto simp: encode_string_def Let_def)
qed

lemma encode_header_short:
  assumes "length (fst h) \<le> 65536" and "length (snd h) \<le> 65536"
  shows "length (encode_header h) \<le> 21 + length (fst h) + length (snd h)"
proof (cases h)
  case (Pair name v)
  have i: "length (encode_integer i 7 0x80) \<le> 10" "length (encode_integer i 6 0x40) \<le> 10" if "i \<le> 61" for i
    using that by (intro encode_integer_short; simp)+
  have s: "length (encode_string name) \<le> 10 + length name" "length (encode_string v) \<le> 10 + length v"
    using assms Pair by (simp_all add: encode_string_short)
  consider (exact) k where "static_index_exact name v = Some k" "k \<le> 61"
    | (named) k where "static_index_exact name v = None" "static_index_name name = Some k" "k \<le> 61"
    | (new) "static_index_exact name v = None" "static_index_name name = None"
    using static_index_exact_lookup static_index_name_lookup by (metis option.exhaust)
  then show ?thesis
  proof cases
    case exact
    with i(1) [of k] Pair show ?thesis by simp
  next
    case named
    with i(2) [of k] s Pair show ?thesis by simp
  next
    case new
    with s Pair show ?thesis by simp
  qed
qed

lemma encode_headers_short:
  assumes "\<forall>h \<in> set hs. length (fst h) \<le> 65536 \<and> length (snd h) \<le> 65536"
  shows "length (encode_headers hs) \<le> sum_list (map (\<lambda>h. 21 + length (fst h) + length (snd h)) hs)"
  using assms
proof (induction hs)
  case (Cons h hs)
  then show ?case
    using encode_header_short [of h] by (simp add: encode_headers_def)
qed (simp add: encode_headers_def)

section \<open>The preamble of the shipped Chrome profile\<close>

definition chrome_h2 :: h2_profile where
  "chrome_h2 = the (pf_h2 chrome_macos)"

definition chrome_headers :: "header list" where
  "chrome_headers =
     [('':method'', ''GET''), ('':authority'', ''localhost''), ('':scheme'', ''https''), ('':path'', ''/'')] @
     map (\<lambda>n. (n, []))
       [''cache-control'', ''sec-ch-ua'', ''sec-ch-ua-mobile'', ''sec-ch-ua-platform'',
        ''upgrade-insecure-requests'', ''user-agent'', ''accept'', ''sec-fetch-site'', ''sec-fetch-mode'',
        ''sec-fetch-user'', ''sec-fetch-dest'', ''accept-encoding'', ''accept-language'', ''priority'']"

lemma chrome_parts:
  "pf_h2 chrome_macos = Some chrome_h2" "pf_http chrome_macos = Some (the (pf_http chrome_macos))"
  "h2p_pseudo_order chrome_h2 = str_join '','' [''m'', ''a'', ''s'', ''p'']"
  "h2p_settings chrome_h2 = [(1, 65536), (2, 0), (4, 6291456), (6, 262144)]"
  "h2p_window_update chrome_h2 = Some 15663105"
  "tp_alpn (pf_tls chrome_macos) = Some ''h2''" "\<not> tp_has_sni (pf_tls chrome_macos)"
  "hs_has_accept_language (the (pf_http chrome_macos))"
  by (simp_all only: chrome_h2_def chrome_macos_def profile.select_convs tls_profile.select_convs
      h2_profile.select_convs http_stored.select_convs option.sel str_join.simps not_False_eq_True) simp_all

lemma chrome_emitted: "emitted_headers chrome_macos chrome_h2 ''localhost'' [] = chrome_headers"
proof -
  have "pseudo_headers (h2p_pseudo_order chrome_h2) ''localhost'' ''https'' ''/'' =
    List.map_filter (pseudo_header ''localhost'' ''https'' ''/'') [''m'', ''a'', ''s'', ''p'']"
    unfolding pseudo_headers_def chrome_parts(3) by (subst split_char_join) simp_all
  then have "pseudo_headers (h2p_pseudo_order chrome_h2) ''localhost'' ''https'' ''/'' =
    [('':method'', ''GET''), ('':authority'', ''localhost''), ('':scheme'', ''https''), ('':path'', ''/'')]"
    by (simp add: List.map_filter_simps pseudo_header_simps)
  then show ?thesis
    by (simp add: emitted_headers_def chrome_headers_def regular_headers_def chrome_macos_def)
qed

lemma header_text_ascii: "list_all (\<lambda>c. char_byte c < 0x80) s \<Longrightarrow> length s \<le> 65536 \<Longrightarrow> header_text s"
  by (simp add: header_text_def str_wf_def MAX_STRING_def utf8_valid_ascii list_all_iff)

lemma chrome_header_text: "\<forall>h \<in> set chrome_headers. header_text (fst h) \<and> header_text (snd h)"
proof -
  have "list_all (\<lambda>h. list_all (\<lambda>c. char_byte c < 0x80) (fst h) \<and> list_all (\<lambda>c. char_byte c < 0x80) (snd h) \<and>
      length (fst h) \<le> 65536 \<and> length (snd h) \<le> 65536) chrome_headers"
    by code_simp
  then show ?thesis by (auto simp: list_all_iff [of _ chrome_headers] intro: header_text_ascii)
qed

lemma chrome_block: "length (encode_headers chrome_headers) \<le> 1000"
proof -
  have "\<forall>h \<in> set chrome_headers. length (fst h) \<le> 65536 \<and> length (snd h) \<le> 65536"
    using chrome_header_text by (simp add: header_text_def MAX_STRING_def)
  from encode_headers_short [OF this]
  have "length (encode_headers chrome_headers) \<le> sum_list (map (\<lambda>h. 21 + length (fst h) + length (snd h)) chrome_headers)" .
  also have "\<dots> \<le> 1000" by code_simp
  finally show ?thesis .
qed

lemma chrome_emittable: "emittable chrome_macos chrome_h2 ''localhost'' []"
  unfolding emittable_def Let_def chrome_emitted
  using chrome_header_text chrome_block by (simp add: chrome_parts chrome_headers_def)

text \<open>The probe reads the profile's own Akamai string, header order and language header out of it.\<close>

definition chrome_fingerprint :: h2_fingerprint where
  "chrome_fingerprint =
     \<lparr>hf_settings = h2p_settings chrome_h2, hf_window_update = h2p_window_update chrome_h2, hf_priorities = [],
      hf_pseudo_order = h2p_pseudo_order chrome_h2, hf_headers = chrome_headers,
      hf_akamai = h2p_akamai chrome_h2, hf_http = from_headers chrome_headers\<rparr>"

lemma chrome_stored:
  "\<forall>n \<in> set (hs_header_names (the (pf_http chrome_macos))). stored_name n"
  "''accept-language'' \<in> set (hs_header_names (the (pf_http chrome_macos)))"
  by code_simp+

lemma chrome_profiled:
  "pseudo_header_order chrome_headers = h2p_pseudo_order chrome_h2"
  "comparable_headers (from_headers chrome_headers) = hs_header_names (the (pf_http chrome_macos))"
  "hp_has_accept_language (from_headers chrome_headers)"
proof -
  have s: "set [''m'', ''a'', ''s'', ''p''] \<subseteq> pseudo_letters" by simp
  note e = emitted_profile [OF s chrome_parts(3,2) chrome_stored(1), of "''localhost''" "[]", unfolded chrome_emitted]
  show "pseudo_header_order chrome_headers = h2p_pseudo_order chrome_h2"
    and "comparable_headers (from_headers chrome_headers) = hs_header_names (the (pf_http chrome_macos))"
    and "hp_has_accept_language (from_headers chrome_headers)"
    using e chrome_stored(2) by simp_all
qed

lemma chrome_window: "map_option (\<lambda>v. v AND 0x7fffffff) (h2p_window_update chrome_h2) = h2p_window_update chrome_h2"
  by (simp add: chrome_parts)

lemma chrome_akamai:
  "akamai_string (h2p_settings chrome_h2) (h2p_window_update chrome_h2) [] (h2p_pseudo_order chrome_h2) =
     h2p_akamai chrome_h2"
  by code_simp

lemma length_window_payload: "length (concat (map (\<lambda>f. frame_bytes (0, f)) (window_frames h))) \<le> 13"
  by (cases "h2p_window_update h") (simp_all add: window_frames_def frame_bytes_def)

lemma chrome_preamble:
  obtains out where "preamble_for chrome_macos ''localhost'' = Inr out"
    and "fingerprint_h2 out = Inr chrome_fingerprint"
proof -
  define out where "out = PREFACE @ concat (map frame_bytes (map (\<lambda>f. (0, f)) (emitted_frames chrome_macos chrome_h2 ''localhost'' [])))"
  have p: "preamble_with_values chrome_macos ''localhost'' [] = Inr out"
    using preamble_frames(1) [OF chrome_parts(1) chrome_emittable] by (simp add: out_def)
  have s: "length (settings_bytes (h2p_settings chrome_h2)) < 16777216"
    by (simp add: length_settings_bytes chrome_parts)
  have "length out \<le> usize_max"
    unfolding out_def emitted_frames_def chrome_emitted
    using chrome_block length_window_payload [of chrome_h2] s
    by (simp add: frame_bytes_def settings_frame_def headers_frame_def usize_max_def PREFACE_def comp_def)
  from fingerprint_preamble [OF chrome_parts(1) chrome_emittable p this]
  have "fingerprint_h2 out = Inr chrome_fingerprint"
    by (simp add: chrome_emitted chrome_profiled(1) chrome_window chrome_akamai chrome_fingerprint_def Let_def)
  moreover have "preamble_for chrome_macos ''localhost'' = Inr out"
    using p by (simp add: preamble_for_def)
  ultimately show ?thesis by (rule that[rotated])
qed

section \<open>The command\<close>

lemma chrome_macos_spike: "chrome_profile chrome_macos"
  by code_simp

lemma chrome_builds: "\<exists>calls. build (\<lambda>c. None) chrome_macos = Inr calls"
  using s3_client_built [OF chrome_macos_spike chrome_parts(6)] by blast

lemma configure_succeeds: "\<exists>cfg. configure (\<lambda>c. None) connector p = Inr cfg"
  by (cases "tp_alpn (pf_tls p)")
    (simp_all add: configure_def ssl_try_def enable_alps_def Let_def)

lemma curl_unmapped:
  "filter (\<lambda>k. cipher_name k = None) (tp_ciphers (pf_tls curl_macos)) =
     [52394, 49192, 49188, 159, 107, 57, 65413, 196, 136, 129, 61, 192, 132, 49191, 49187, 158, 103, 51,
      190, 69, 60, 186, 65, 49169, 49159, 5, 4, 49170, 49160, 22, 255]"
  by code_simp

lemma curl_not_built: "build (\<lambda>c. None) curl_macos = Inl (UnknownCipher 52394)"
proof -
  have "\<not> list_all (\<lambda>k. cipher_name k \<noteq> None) (tp_ciphers (pf_tls curl_macos))"
    using arg_cong [OF curl_unmapped, of "\<lambda>xs. xs = []"] by (simp add: list_all_iff filter_empty_conv)
  then show ?thesis
    by (simp add: build_def ssl_try_def cipher_list_for_def names_for_eq curl_unmapped del: Not_eq_iff)
qed

text \<open>
  The probe's report of the client: a reading \<open>r\<close> of whatever handshake BoringSSL made, and what the
  octets of the preamble say.
\<close>

definition probed :: "client_report \<Rightarrow> ssl_call list \<Rightarrow> bytes \<Rightarrow> client_report option" where
  "probed r cfg preamble =
     Some (r\<lparr>cr_h2 := (case fingerprint_h2 preamble of Inr fp \<Rightarrow> Some fp | Inl _ \<Rightarrow> None)\<rparr>)"

lemma verify_chrome:
  "verify_profile None (\<lambda>c. None) (probed r) chrome_macos =
     Inr (diff (r\<lparr>cr_h2 := Some chrome_fingerprint\<rparr>) chrome_macos)"
proof -
  obtain calls where b: "build (\<lambda>c. None) chrome_macos = Inr calls" using chrome_builds by blast
  obtain cfg where c: "configure (\<lambda>c. None) calls chrome_macos = Inr cfg" using configure_succeeds by blast
  obtain out where "preamble_for chrome_macos ''localhost'' = Inr out" "fingerprint_h2 out = Inr chrome_fingerprint"
    by (rule chrome_preamble)
  with b c show ?thesis
    by (simp add: verify_profile_def probed_def)
qed

lemma verify_curl: "verify_profile None (\<lambda>c. None) report curl_macos = Inl (UnknownCipher 52394)"
  by (simp add: verify_profile_def curl_not_built)

lemma chrome_clean_iff:
  "is_clean (diff (r\<lparr>cr_h2 := Some chrome_fingerprint\<rparr>) chrome_macos) \<longleftrightarrow>
     tls_agrees r chrome_macos \<and> or_none (tf_alpn (cr_tls r)) = ''h2'' \<and> \<not> tf_has_sni (cr_tls r)"
proof -
  have "h2_agrees (r\<lparr>cr_h2 := Some chrome_fingerprint\<rparr>) chrome_macos"
    by (simp add: h2_agrees_def chrome_parts(1) chrome_fingerprint_def)
  moreover have "http_agrees (r\<lparr>cr_h2 := Some chrome_fingerprint\<rparr>) chrome_macos"
    unfolding http_agrees_def by (subst chrome_parts(2)) (simp add: chrome_fingerprint_def chrome_profiled chrome_parts(8))
  ultimately show ?thesis
    unfolding is_clean_iff by (simp add: chrome_parts(6,7) or_none_def tls_agrees_def)
qed

text \<open>A clean comparison with the shipped Chrome profile prints the same ten lines for every handshake.\<close>

definition CLEAN_LINES :: "string list" where
  "CLEAN_LINES =
     [''ciphers         15 ciphers'',
      ''extensions      15 extensions'',
      ''GREASE          1 cipher, 2 extension'',
      ''ALPN            h2'',
      ''SNI             absent'',
      ''SETTINGS        1:65536;2:0;4:6291456;6:262144'',
      ''WINDOW_UPDATE   15663105'',
      ''pseudo-header   m,a,s,p'',
      ''header order    14 headers'',
      ''accept-language present'']"

definition clean_line :: "string \<Rightarrow> string" where
  "clean_line l = ''  '' @ mark True @ '' '' @ l @ newline"

definition clean_fields :: "(string \<times> string) list" where
  "clean_fields =
     [(''ciphers'', dec_string 15 @ '' '' @ ''ciphers''), (''extensions'', dec_string 15 @ '' '' @ ''extensions''),
      (''GREASE'', dec_string 1 @ '' cipher, '' @ dec_string 2 @ '' extension''), (''ALPN'', ''h2''),
      (''SNI'', present False), (''SETTINGS'', render_settings (h2p_settings chrome_h2)),
      (''WINDOW_UPDATE'', or_empty (h2p_window_update chrome_h2)),
      (''pseudo-header'', h2p_pseudo_order chrome_h2), (''header order'', dec_string 14 @ '' headers''),
      (''accept-language'', present True)]"

lemma clean_fields_lines: "map (\<lambda>(n, v). pad_right 16 n @ elide v) clean_fields = CLEAN_LINES"
  by code_simp

lemma show_ok: "fd_ok d \<Longrightarrow> show_field label d = clean_line (pad_right 16 (fd_field d) @ elide (fd_observed d))"
  by (simp add: show_field_def clean_line_def)

lemma show_clean:
  assumes "is_clean d"
  shows "show_diff d = concat (map (\<lambda>(n, v). clean_line (pad_right 16 n @ elide v))
      (map (\<lambda>f. (fd_field f, fd_observed f)) (df_fields d))) @ ''  verdict: matches '' @ df_label d @ newline"
proof -
  have "\<forall>f \<in> set (df_fields d). show_field (df_label d) f = clean_line (pad_right 16 (fd_field f) @ elide (fd_observed f))"
    using assms by (simp add: is_clean_def list_all_iff show_ok)
  then have "concat (map (show_field (df_label d)) (df_fields d)) =
      concat (map (\<lambda>f. clean_line (pad_right 16 (fd_field f) @ elide (fd_observed f))) (df_fields d))"
    by (intro arg_cong [where f = concat] map_cong) simp_all
  with assms show ?thesis by (simp add: show_diff_def comp_def)
qed

lemma chrome_sizes:
  "length (tp_ciphers (pf_tls chrome_macos)) = 15"
  "length (strip_psk (tp_extensions (pf_tls chrome_macos))) = 15"
  "length (tp_grease_cipher_positions (pf_tls chrome_macos)) = 1"
  "length (tp_grease_ext_positions (pf_tls chrome_macos)) = 2"
  "length (hs_header_names (the (pf_http chrome_macos))) = 14"
  "pf_equivalence chrome_macos = \<lparr>eq_cipher_order = Fixed, eq_extension_order = Permuted\<rparr>"
  by code_simp+

lemma list_field_ok:
  "compare_ordered obs want order \<Longrightarrow> (fd_field (list_field n obs want order), fd_observed (list_field n obs want order))
     = (n, dec_string (length want) @ '' '' @ n)"
  using arg_cong [of "sort obs" "sort want" length, unfolded length_sort]
  by (auto simp: list_field_def mk_field_def compare_ordered_def Let_def split: ordering.splits)

lemma chrome_clean_fields:
  assumes "tls_agrees r chrome_macos" and "or_none (tf_alpn (cr_tls r)) = ''h2''" and "\<not> tf_has_sni (cr_tls r)"
  shows "map (\<lambda>f. (fd_field f, fd_observed f)) (df_fields (diff (r\<lparr>cr_h2 := Some chrome_fingerprint\<rparr>) chrome_macos)) =
    clean_fields"
proof -
  let ?r = "r\<lparr>cr_h2 := Some chrome_fingerprint\<rparr>"
  have t: "compare_ordered (strip (tf_ciphers (cr_tls r))) (tp_ciphers (pf_tls chrome_macos)) Fixed"
    "compare_ordered (strip_psk (tf_extensions (cr_tls r))) (strip_psk (tp_extensions (pf_tls chrome_macos))) Permuted"
    "length (tf_grease_cipher_positions (cr_tls r)) = 1" "length (tf_grease_ext_positions (cr_tls r)) = 2"
    using assms(1) by (simp_all add: tls_agrees_def chrome_sizes)
  have "map (\<lambda>f. (fd_field f, fd_observed f)) (diff_http ?r chrome_macos) = drop 8 clean_fields"
    unfolding diff_http_def clean_fields_def
    by (subst chrome_parts(2)) (simp add: chrome_fingerprint_def chrome_profiled chrome_parts(8) chrome_sizes mk_field_def)
  moreover have "map (\<lambda>f. (fd_field f, fd_observed f)) (diff_h2 ?r chrome_macos) = take 3 (drop 5 clean_fields)"
    by (simp add: diff_h2_def chrome_parts(1) chrome_fingerprint_def clean_fields_def mk_field_def Let_def)
  ultimately show ?thesis
    using list_field_ok [OF t(1)] list_field_ok [OF t(2)] t(3,4) assms(2,3)
    by (simp add: diff_def diff_ciphers_def diff_extensions_def diff_grease_def diff_alpn_def diff_sni_def
        chrome_sizes chrome_parts(6,7) mk_field_def clean_fields_def or_none_def Let_def)
qed

lemma chrome_clean_text:
  assumes "tls_agrees r chrome_macos" and "or_none (tf_alpn (cr_tls r)) = ''h2''" and "\<not> tf_has_sni (cr_tls r)"
  shows "show_diff (diff (r\<lparr>cr_h2 := Some chrome_fingerprint\<rparr>) chrome_macos) =
    concat (map clean_line CLEAN_LINES) @ ''  verdict: matches chrome-macos'' @ newline"
proof -
  let ?d = "diff (r\<lparr>cr_h2 := Some chrome_fingerprint\<rparr>) chrome_macos"
  have c: "is_clean ?d" using assms by (simp add: chrome_clean_iff)
  have l: "df_label ?d = ''chrome-macos''" by (simp add: diff_def shipped_parts)
  have "map (\<lambda>(n, v). clean_line (pad_right 16 n @ elide v)) clean_fields = map clean_line CLEAN_LINES"
    unfolding clean_fields_lines [symmetric] by (simp add: comp_def case_prod_beta)
  then show ?thesis
    unfolding show_clean [OF c] chrome_clean_fields [OF assms] l by simp
qed

text \<open>
  C36. \<open>fpd emulate\<close> on the shipped profiles, when BoringSSL refuses none of the calls made to it. Of curl's 49
  ciphers 31 have no name, so no client can be built and verifying the profile fails; and yet the command without
  \<open>--verify\<close> reports that a client was built, with the exit code of a match. A client for Chrome is built, the
  probe reads the profile's Akamai string back from its preamble, and the verification prints the ten lines below and
  exits with a match for every handshake whose TLS layer agrees with the profile, offers \<open>h2\<close> and has no SNI, and
  with a mismatch for every other.
\<close>

theorem shipped_emulation:
  "(let run = (\<lambda>label v. emulate_run True (Inr shipped_db :: 'e profile_error + profile_db) True
          (verify_profile None (\<lambda>c. None) (probed r)) \<lparr>ea_profile = label, ea_verify = v\<rparr>)
    in length (filter (\<lambda>k. cipher_name k = None) (tp_ciphers (pf_tls curl_macos))) = 31 \<and>
       build (\<lambda>c. None) curl_macos = Inl (UnknownCipher 52394) \<and>
       run ''curl-8.7.1-macos'' True = (EXIT_OPERATIONAL, []) \<and>
       run ''curl-8.7.1-macos'' False =
         (EXIT_MATCH, line ''Built a client for curl-8.7.1-macos.'' @
           line ''Pass --verify to prove it reproduces the profile.'') \<and>
       (\<exists>out fp. preamble_for chrome_macos ''localhost'' = Inr out \<and> fingerprint_h2 out = Inr fp \<and>
          hf_akamai fp = ''1:65536;2:0;4:6291456;6:262144|15663105|0|m,a,s,p'') \<and>
       (if tls_agrees r chrome_macos \<and> or_none (tf_alpn (cr_tls r)) = ''h2'' \<and> \<not> tf_has_sni (cr_tls r)
        then run ''chrome-macos'' True =
          (EXIT_MATCH, concat (map clean_line CLEAN_LINES) @ ''  verdict: matches chrome-macos'' @ newline)
        else fst (run ''chrome-macos'' True) = EXIT_MISMATCH))"
proof -
  obtain out where o: "preamble_for chrome_macos ''localhost'' = Inr out" "fingerprint_h2 out = Inr chrome_fingerprint"
    by (rule chrome_preamble)
  have a: "hf_akamai chrome_fingerprint = ''1:65536;2:0;4:6291456;6:262144|15663105|0|m,a,s,p''"
    by (simp add: chrome_fingerprint_def chrome_h2_def chrome_macos_def)
  have g: "(db_get shipped_db ''curl-8.7.1-macos'' :: 'e profile_error + profile) = Inr curl_macos"
    "(db_get shipped_db ''chrome-macos'' :: 'e profile_error + profile) = Inr chrome_macos"
    using shipped_get [of curl_macos] shipped_get [of chrome_macos] by (simp_all add: shipped_parts)
  have n: "length (filter (\<lambda>k. cipher_name k = None) (tp_ciphers (pf_tls curl_macos))) = 31"
    by (simp add: curl_unmapped)
  have e: "\<exists>out fp. preamble_for chrome_macos ''localhost'' = Inr out \<and> fingerprint_h2 out = Inr fp \<and>
      hf_akamai fp = ''1:65536;2:0;4:6291456;6:262144|15663105|0|m,a,s,p''"
    using o a by blast
  show ?thesis
    using n e by (simp add: Let_def emulate_run_def g verify_curl verify_chrome chrome_clean_iff chrome_clean_text
        curl_not_built shipped_parts)
qed

end
