(* ===== verification/Spec2Isabelle.thy ===== *)
theory Spec2Isabelle
  imports Tui_Run Server Tower Cli Spike_Hello Spike_H2 Shipped_Emulation
begin

text \<open>
  Verification of fpd, the Flux Parsing Daemon, a Rust workspace that recognises TLS and HTTP/2 clients
  by how they speak. A client connects; its first bytes are recorded as the TLS library reads them and
  parsed into a ClientHello, from which the JA3 and JA4 fingerprints are rendered; on HTTP/2 the first
  frames are read by hand, decoded with fpd's own HPACK, and rendered as the Akamai fingerprint. The
  report is compared with profiles of browsers. The result is printed (\<open>fpd check\<close>), stored as a
  profile (\<open>fpd capture\<close>), attached to the proxied request (\<open>fpd serve\<close>), put into the
  requests of a Rust application (\<open>fingerprint-tower\<close>), or shown live (\<open>fpd tui\<close>, over the
  admin socket or its own listener). \<open>fpd emulate\<close> plays a profile against the probe. Nothing of
  this runs before the terms are accepted. All paths below are under \<open>src/crates\<close>, or \<open>src/spikes\<close> for the spikes.

  \<^bold>\<open>Theories and the code they model.\<close>
  \<^item> \<open>Fpd_Prelude\<close>, \<open>Rust_Std\<close>, \<open>Rust_Text\<close>, \<open>Rust_Float\<close>, \<open>Json\<close>, \<open>Ip_Text\<close>,
    \<open>Base64\<close>: machine types, \<open>Result\<close> with \<open>?\<close> (\<open>try_res\<close>), checked arithmetic and slicing, strings
    as the lists of their UTF-8 bytes, formatting, \<open>f32\<close> quotients, JSON values, addresses.
  \<^item> \<open>Reader\<close>, \<open>Grease\<close>, \<open>Hello\<close>, \<open>Hello_Wire\<close>, \<open>Ext\<close>, \<open>Ja\<close>:
    \<open>fingerprint-core\<close>. \<open>Hello_Wire\<close> writes the accepted language down as a record of the
    message's parts; parsing succeeds exactly on its encodings.
  \<^item> \<open>Hpack_Integer\<close>, \<open>Hpack_Huffman_Table\<close>, \<open>Hpack_Huffman\<close>, \<open>Hpack_Table\<close>,
    \<open>Hpack_Decoder\<close>, \<open>Hpack_Encode\<close>, \<open>Hpack_Headers\<close>: \<open>fingerprint-h2/src/hpack\<close>.
    \<open>Bounded_Queue\<close> is the contract the dynamic table and the connection log both meet.
  \<^item> \<open>H2_Frame\<close>, \<open>H2_Settings\<close>, \<open>H2_Headers\<close>, \<open>H2_Http\<close>, \<open>H2_Akamai\<close>: the rest of \<open>fingerprint-h2\<close>.
  \<^item> \<open>Profile\<close>, \<open>Diff\<close>, \<open>Ua\<close>, \<open>Verdict\<close>, \<open>Inject\<close>, \<open>Conn_Log\<close>,
    \<open>Admin\<close>: the pure parts of \<open>fingerprint-probe\<close> and its admin socket.
  \<^item> \<open>Streams\<close>, \<open>Capture\<close>, \<open>Probe\<close>, \<open>Serve\<close>, \<open>Server\<close>: its I/O paths. A stream is
    a function from the room in the buffer and a state to a poll's result and the next state; recording
    and replaying wrap one stream function in another. \<open>Serve\<close> is one connection, \<open>Server\<close> the process:
    connections and the admin socket interleaved. \<open>Tower\<close> is \<open>fingerprint-tower\<close>.
  \<^item> \<open>Emulate\<close>: \<open>fingerprint-emulate\<close>. \<open>Terms\<close>: \<open>fingerprint-terms\<close>.
  \<^item> \<open>Commands\<close>, \<open>Cli\<close>: \<open>fpd/src/commands\<close>, \<open>cli.rs\<close>, \<open>main.rs\<close>. \<open>Tui_Source\<close>, \<open>Tui_Render\<close>,
    \<open>Tui_App\<close>, \<open>Tui_Run\<close>: \<open>fpd/src/tui\<close>.
  \<^item> \<open>Spike_Hello\<close>, \<open>Spike_H2\<close>: the experiments under \<open>src/spikes\<close> that the crates replaced, as a second
    implementation of the ClientHello parser, the comparison with Chrome, and the preamble capture.
  \<^item> \<open>Shipped\<close>, \<open>Shipped_Emulation\<close>: the two profiles compiled into the program
    (\<open>fingerprint-probe/profiles\<close>) as values, and what the commands do with this database.

  \<^bold>\<open>State.\<close> The HPACK dynamic table, the connection log, the viewer's screen state, the
  readers and the streams are records that operations return updated. The admin socket is a
  step relation (\<open>admin_step\<close>) whose interleavings of publishers and viewers are explicit, and the running
  server one over it (\<open>server_step\<close>). The disk of the
  terms gate maps paths to contents, and a sequence of invocations of the program is an inductive
  relation (\<open>invocations\<close>) over it. Errors are \<open>Inl\<close> of the code's error types; a panic, an exit and an
  early return are branches.

  \<^bold>\<open>What is shown.\<close>
  \<^item> Parsers: the exact language each accepts, spans inside the input, no error left out.
  \<^item> Encodings: HPACK integers, Huffman strings, whole header lists and base64 survive
    a round trip; decoding is well-typed (every string valid UTF-8) and bounded.
  \<^item> Fingerprints: JA4 does not depend on the order of ciphers and extensions; HTTP
    profiles do not depend on header values.
  \<^item> Comparison: when a comparison is clean, how scores order profiles, what an
    identification and a mismatch report are evidence of; a captured profile accepts its own client, also
    through the commands and their exit codes; \<open>check\<close> over the probe judges bytes the client sent.
  \<^item> The proxy: nothing fpd fails at rejects a connection; the upstream reads under fpd's
    prefix only what fpd attached; when the served stream is the client's stream; the default log keeps only
    an address's prefix. The running server refines the admin socket's model, and a viewer sees its connections
    and nothing else. The Tower acceptor agrees with the proxy on every connection.
  \<^item> The admin socket and the viewer: increasing and, in order, complete delivery; the same row
    from both sources; the rows kept; the state the terminal is left in.
  \<^item> The gate: which runs start a command, that a record cannot be edited, that
    accepting admits, that the history is append-only over any sequence of runs.
  \<^item> Emulation: the emitted preamble has the fingerprint that was captured, and when a profile cannot
    be emulated.
  \<^item> The shipped profiles: which of them is named for any client (\<open>shipped_verdict\<close>), that a client speaking
    TLS as Chrome and HTTP/2 as curl is not (\<open>forged_tls_unnamed\<close>), and every outcome and the whole output of
    \<open>fpd emulate\<close> on them (\<open>shipped_emulation\<close>), where curl cannot be built although the command says it was.
  \<^item> The spikes: an independent parser, comparison and capture agree with the program's, and a recorded
    fixture stands for the connection it came from (\<open>fixture_fingerprint\<close>, \<open>capture_is_spike\<close>).
  Where the code does not do what it says, a lemma states what it does: bytes lost at a cut capture
  (\<open>replay_exact_iff\<close>, \<open>partial_capture_lost\<close>), dropped headers (\<open>non_ascii_header_dropped\<close>, \<open>authority_lost\<close>), a record
  overtaken (\<open>overtaken_record_lost\<close>), the gate's flags (\<open>gate_bypassed\<close>), an untraced acceptance
  (\<open>accept_without_trace\<close>), what \<open>bind\<close> removes
  (\<open>admin_bind_replaces\<close>), the screen (\<open>footer_pushed_off\<close>, \<open>selection_scrolls_away\<close>, \<open>selection_slides\<close>).

  \<^bold>\<open>Interfaces.\<close> The locales are \<open>cursor_op\<close> (the reads of the parsers'
  cursor), \<open>prefix_code\<close> (the Huffman code), \<open>bounded_queue\<close> (the dynamic table and the log), and
  \<open>async_read\<close> with \<open>live_read\<close> (the wire, the recorded and the replayed stream); each is interpreted
  on the model's own definitions and its lemmas are used through them.

  \<^bold>\<open>Bounds and fuel.\<close> Recursion is structural or over a measure of the remaining input. The
  one fuel is the timer of a capture: the number of polls of the connection it allows; the loop takes
  from it at every read, so it ends, and \<open>capture_returns\<close> says how many polls are enough. \<open>usize\<close> has
  64 bits. The bounds are the code's: 64 KiB recorded, 8 KiB retained, 1 MiB a frame, 64 KiB a string,
  512 headers, 4 KiB of dynamic table unless resized up to 1 MiB.

  \<^bold>\<open>Parameters.\<close> The digests SHA-256, MD5 and HMAC-SHA256; the TLS library as a function
  from the recorded connection to a handshake's outcome; the HTTP library's parsing of names, values and
  targets, and the upstream's answers; the JSON library where it reads and prints whole values; BoringSSL's
  answers to the calls made on it; the argument parser; clocks, sockets, files and processes. Where a
  property assumes something of one, the assumption is its documented contract and a witness gives an
  instance.

  \<^bold>\<open>Not modelled.\<close> What happens inside a bind, a certificate's making, a spawned task's
  scheduling and the drawing widgets (their success or failure is an argument); the HTTP server that reads
  requests off a served stream; the callbacks of \<open>AdvertiseOnlyBrotli\<close>; the files named by
  \<open>--cacert-out\<close> and \<open>--out\<close> beyond whether they can be written; the spikes' listeners, the tests, fuzz targets and build
  scripts. Memory exhaustion and poisoned locks are modelled only where the code handles them.
\<close>

end
